(* ===== verification/Prelude.thy ===== *)
theory Prelude
  imports Main "HOL-Library.Word" "HOL-Library.Monad_Syntax"
begin

text \<open>
  What the components share: the machine types of the program (addresses, C integers at their
  width), the outcomes of a C function (a value, or one of the faults a run can end in), the
  collections of simplification rules the component theories fill, and a few facts about lists,
  maps and words.

  A function that only touches memory is of type \<open>'a option\<close>: \<open>None\<close> is undefined behaviour
  (a null or dangling pointer is followed) or, for a loop, a run that does not end.  A function
  that can also stop the process on purpose is of type \<open>fault + 'a\<close>.
\<close>

unbundle bit_operations_syntax

section \<open>Machine types\<close>

type_synonym addr = "64 word"
type_synonym uint8 = "8 word"
type_synonym uint32 = "32 word"
type_synonym size_t = "64 word"

text \<open>\<open>nil\<close> of cs_common.h and \<open>NULL\<close> of the C library.\<close>

abbreviation NULL :: addr where
  "NULL \<equiv> 0"

text \<open>The status codes of cs_common.h.\<close>

type_synonym rstatus_t = int

abbreviation (input) M_OK :: rstatus_t where "M_OK \<equiv> 0"
abbreviation (input) M_ERR :: rstatus_t where "M_ERR \<equiv> - 1"
abbreviation (input) M_ENOMEM :: rstatus_t where "M_ENOMEM \<equiv> - 2"

text \<open>A C \<open>int\<close> is an integer in this range; leaving it is undefined behaviour.\<close>

definition INT_MAX :: int where
  "INT_MAX = 2147483647"

definition INT_MIN :: int where
  "INT_MIN = - 2147483648"

definition int_range :: "int \<Rightarrow> bool" where
  "int_range i \<longleftrightarrow> INT_MIN \<le> i \<and> i \<le> INT_MAX"

section \<open>Outcomes\<close>

text \<open>
  \<open>Segv\<close>: a null or dangling pointer is followed.  \<open>Assert_Fail\<close>: an \<open>ASSERT\<close> fails in a build
  with \<open>CS_ASSERT_PANIC\<close>, which the project's CMakeLists.txt defines, so \<open>cs_assert\<close> calls
  \<open>abort\<close>.  \<open>Aborted\<close>: \<open>abort\<close> is called directly.
\<close>

datatype fault = Segv | Assert_Fail | Aborted

definition andThen :: "fault + 'a \<Rightarrow> ('a \<Rightarrow> fault + 'b) \<Rightarrow> fault + 'b" where
  "andThen m f = (case m of Inl e \<Rightarrow> Inl e | Inr x \<Rightarrow> f x)"

definition deref :: "'a option \<Rightarrow> fault + 'a" where
  "deref r = (case r of None \<Rightarrow> Inl Segv | Some x \<Rightarrow> Inr x)"

definition ASSERT :: "bool \<Rightarrow> fault + unit" where
  "ASSERT b = (if b then Inr () else Inl Assert_Fail)"

lemma andThen_simps [simp]:
  "andThen (Inl e) f = Inl e"
  "andThen (Inr x) f = f x"
  by (simp_all add: andThen_def)

lemma deref_simps [simp]:
  "deref None = Inl Segv"
  "deref (Some x) = Inr x"
  by (simp_all add: deref_def)

lemma ASSERT_simps [simp]:
  "ASSERT True = Inr ()"
  "ASSERT False = Inl Assert_Fail"
  by (simp_all add: ASSERT_def)

lemma andThen_eq_Inr:
  "andThen m f = Inr y \<longleftrightarrow> (\<exists>x. m = Inr x \<and> f x = Inr y)"
  by (cases m) auto

lemma deref_eq_Inr [simp]: "deref r = Inr x \<longleftrightarrow> r = Some x"
  by (cases r) auto

lemma ASSERT_eq_Inr [simp]: "ASSERT b = Inr u \<longleftrightarrow> b"
  by (simp add: ASSERT_def)

section \<open>Collections of rules\<close>

text \<open>
  \<open>mem_simps\<close> holds the reads and writes of the heaps, \<open>frame\<close> the facts that an operation leaves
  alone what it does not own.
\<close>

named_theorems mem_simps
named_theorems frame

section \<open>Updated functions\<close>

text \<open>
  With a read at an updated address, \<open>fun_upd_apply\<close> splits cases; where the addresses are known to
  be equal or different these rules decide it instead.
\<close>

lemma fun_upd_sym: "x \<noteq> z \<Longrightarrow> (f(x := y)) z = f z"
  by auto

lemmas upd_known = fun_upd_same fun_upd_other fun_upd_sym

section \<open>Lists\<close>

lemma distinct_snocI: "distinct xs \<Longrightarrow> x \<notin> set xs \<Longrightarrow> distinct (xs @ [x])"
  by simp

lemma last_butlast_split: "xs \<noteq> [] \<Longrightarrow> \<exists>ys y. xs = ys @ [y]"
  by (cases xs rule: rev_cases) auto

lemma hd_append_if: "hd (xs @ ys) = (if xs = [] then hd ys else hd xs)"
  by (cases xs) auto

section \<open>Iterated partial operations\<close>

fun iter_option :: "nat \<Rightarrow> ('m \<Rightarrow> 'm option) \<Rightarrow> 'm \<Rightarrow> 'm option" where
  "iter_option 0 f m = Some m"
| "iter_option (Suc n) f m = Option.bind (f m) (iter_option n f)"

fun fold_option :: "('a \<Rightarrow> 'm \<Rightarrow> 'm option) \<Rightarrow> 'a list \<Rightarrow> 'm \<Rightarrow> 'm option" where
  "fold_option f [] m = Some m"
| "fold_option f (x # xs) m = Option.bind (f x m) (fold_option f xs)"

lemma fold_option_append: "fold_option f (xs @ ys) m = Option.bind (fold_option f xs m) (fold_option f ys)"
  by (induction xs arbitrary: m) (auto split: Option.bind_splits)

end
