(* ===== verification/Tailq.thy ===== *)
theory Tailq
  imports Prelude
begin

text \<open>
  The tail queue of src/cs_queue.h (the \<open>TAILQ\<close> macros), on an explicit memory.

  An entry holds the next element and \<open>tqe_prev\<close>, which is not an element but the address of the
  \<open>struct type *\<close> field that points to this entry: either some other entry's \<open>tqe_next\<close> or the
  head's \<open>tqh_first\<close>.  Those addresses are the values of type \<open>link\<close>; \<open>tqh_last\<close> of a head is one
  too.  \<open>TAILQ_LAST\<close> and \<open>TAILQ_PREV\<close> cast such an address to a head and read the word behind it,
  which is \<open>tqe_prev\<close> for an entry and \<open>tqh_last\<close> for a head (\<open>link_second\<close>).

  Every operation is partial: \<open>None\<close> is a read or write through a null or dangling pointer.
  \<open>is_tailq m head xs\<close> says that the memory holds the well-formed queue with the elements \<open>xs\<close>, and
  every macro is refined to its effect on \<open>xs\<close>; \<open>tq_only\<close> says which entries and heads it may
  have written.
\<close>

section \<open>Memory\<close>

datatype link = Link_Null | Link_First addr | Link_Next addr

record tqentry =
  tqe_next :: addr
  tqe_prev :: link

record tqhead =
  tqh_first :: addr
  tqh_last :: link

record tqmem =
  tq_entries :: "addr \<rightharpoonup> tqentry"
  tq_heads :: "addr \<rightharpoonup> tqhead"

definition get_entry :: "addr \<Rightarrow> tqmem \<Rightarrow> tqentry option" where
  "get_entry a m = tq_entries m a"

definition get_head :: "addr \<Rightarrow> tqmem \<Rightarrow> tqhead option" where
  "get_head a m = tq_heads m a"

definition set_entry :: "addr \<Rightarrow> (tqentry \<Rightarrow> tqentry) \<Rightarrow> tqmem \<Rightarrow> tqmem option" where
  "set_entry a f m =
     (case tq_entries m a of None \<Rightarrow> None
      | Some e \<Rightarrow> Some (m\<lparr>tq_entries := (tq_entries m)(a \<mapsto> f e)\<rparr>))"

definition set_head :: "addr \<Rightarrow> (tqhead \<Rightarrow> tqhead) \<Rightarrow> tqmem \<Rightarrow> tqmem option" where
  "set_head a f m =
     (case tq_heads m a of None \<Rightarrow> None
      | Some h \<Rightarrow> Some (m\<lparr>tq_heads := (tq_heads m)(a \<mapsto> f h)\<rparr>))"

text \<open>Reading and writing through a \<open>struct type **\<close>.\<close>

definition link_get :: "link \<Rightarrow> tqmem \<Rightarrow> addr option" where
  "link_get l m = (case l of
     Link_Null \<Rightarrow> None
   | Link_First head \<Rightarrow> map_option tqh_first (get_head head m)
   | Link_Next a \<Rightarrow> map_option tqe_next (get_entry a m))"

definition link_set :: "link \<Rightarrow> addr \<Rightarrow> tqmem \<Rightarrow> tqmem option" where
  "link_set l v m = (case l of
     Link_Null \<Rightarrow> None
   | Link_First head \<Rightarrow> set_head head (tqh_first_update (\<lambda>_. v)) m
   | Link_Next a \<Rightarrow> set_entry a (tqe_next_update (\<lambda>_. v)) m)"

text \<open>The word behind the pointed-to one, as \<open>((struct headname * )l)->tqh_last\<close> reads it.\<close>

definition link_second :: "link \<Rightarrow> tqmem \<Rightarrow> link option" where
  "link_second l m = (case l of
     Link_Null \<Rightarrow> None
   | Link_First head \<Rightarrow> map_option tqh_last (get_head head m)
   | Link_Next a \<Rightarrow> map_option tqe_prev (get_entry a m))"

section \<open>The macros\<close>

definition TAILQ_FIRST :: "addr \<Rightarrow> tqmem \<Rightarrow> addr option" where
  "TAILQ_FIRST head m = map_option tqh_first (get_head head m)"

definition TAILQ_NEXT :: "addr \<Rightarrow> tqmem \<Rightarrow> addr option" where
  "TAILQ_NEXT elm m = map_option tqe_next (get_entry elm m)"

definition TAILQ_EMPTY :: "addr \<Rightarrow> tqmem \<Rightarrow> bool option" where
  "TAILQ_EMPTY head m = map_option (\<lambda>h. tqh_first h = NULL) (get_head head m)"

definition TAILQ_INIT :: "addr \<Rightarrow> tqmem \<Rightarrow> tqmem option" where
  "TAILQ_INIT head m = do {
     m \<leftarrow> set_head head (tqh_first_update (\<lambda>_. NULL)) m;
     set_head head (tqh_last_update (\<lambda>_. Link_First head)) m
   }"

definition TAILQ_INSERT_HEAD :: "addr \<Rightarrow> addr \<Rightarrow> tqmem \<Rightarrow> tqmem option" where
  "TAILQ_INSERT_HEAD head elm m = do {
     f \<leftarrow> TAILQ_FIRST head m;
     m \<leftarrow> set_entry elm (tqe_next_update (\<lambda>_. f)) m;
     m \<leftarrow> (if f \<noteq> NULL
           then set_entry f (tqe_prev_update (\<lambda>_. Link_Next elm)) m
           else set_head head (tqh_last_update (\<lambda>_. Link_Next elm)) m);
     m \<leftarrow> set_head head (tqh_first_update (\<lambda>_. elm)) m;
     set_entry elm (tqe_prev_update (\<lambda>_. Link_First head)) m
   }"

definition TAILQ_INSERT_TAIL :: "addr \<Rightarrow> addr \<Rightarrow> tqmem \<Rightarrow> tqmem option" where
  "TAILQ_INSERT_TAIL head elm m = do {
     m \<leftarrow> set_entry elm (tqe_next_update (\<lambda>_. NULL)) m;
     h \<leftarrow> get_head head m;
     m \<leftarrow> set_entry elm (tqe_prev_update (\<lambda>_. tqh_last h)) m;
     m \<leftarrow> link_set (tqh_last h) elm m;
     set_head head (tqh_last_update (\<lambda>_. Link_Next elm)) m
   }"

definition TAILQ_INSERT_AFTER :: "addr \<Rightarrow> addr \<Rightarrow> addr \<Rightarrow> tqmem \<Rightarrow> tqmem option" where
  "TAILQ_INSERT_AFTER head listelm elm m = do {
     n \<leftarrow> TAILQ_NEXT listelm m;
     m \<leftarrow> set_entry elm (tqe_next_update (\<lambda>_. n)) m;
     m \<leftarrow> (if n \<noteq> NULL
           then set_entry n (tqe_prev_update (\<lambda>_. Link_Next elm)) m
           else set_head head (tqh_last_update (\<lambda>_. Link_Next elm)) m);
     m \<leftarrow> set_entry listelm (tqe_next_update (\<lambda>_. elm)) m;
     set_entry elm (tqe_prev_update (\<lambda>_. Link_Next listelm)) m
   }"

definition TAILQ_INSERT_BEFORE :: "addr \<Rightarrow> addr \<Rightarrow> tqmem \<Rightarrow> tqmem option" where
  "TAILQ_INSERT_BEFORE listelm elm m = do {
     le \<leftarrow> get_entry listelm m;
     m \<leftarrow> set_entry elm (tqe_prev_update (\<lambda>_. tqe_prev le)) m;
     m \<leftarrow> set_entry elm (tqe_next_update (\<lambda>_. listelm)) m;
     le \<leftarrow> get_entry listelm m;
     m \<leftarrow> link_set (tqe_prev le) elm m;
     set_entry listelm (tqe_prev_update (\<lambda>_. Link_Next elm)) m
   }"

text \<open>
  \<open>QUEUE_MACRO_SCRUB\<close> is defined, so \<open>TAILQ_REMOVE\<close> remembers the places of the element's two
  links and overwrites them with null (\<open>TRASHIT\<close>) at the end.
\<close>

definition TAILQ_REMOVE :: "addr \<Rightarrow> addr \<Rightarrow> tqmem \<Rightarrow> tqmem option" where
  "TAILQ_REMOVE head elm m = do {
     e \<leftarrow> get_entry elm m;
     m \<leftarrow> (if tqe_next e \<noteq> NULL
           then set_entry (tqe_next e) (tqe_prev_update (\<lambda>_. tqe_prev e)) m
           else set_head head (tqh_last_update (\<lambda>_. tqe_prev e)) m);
     e \<leftarrow> get_entry elm m;
     m \<leftarrow> link_set (tqe_prev e) (tqe_next e) m;
     m \<leftarrow> set_entry elm (tqe_next_update (\<lambda>_. NULL)) m;
     set_entry elm (tqe_prev_update (\<lambda>_. Link_Null)) m
   }"

definition TAILQ_CONCAT :: "addr \<Rightarrow> addr \<Rightarrow> tqmem \<Rightarrow> tqmem option" where
  "TAILQ_CONCAT head1 head2 m = do {
     e \<leftarrow> TAILQ_EMPTY head2 m;
     (if e then Some m else do {
        h1 \<leftarrow> get_head head1 m;
        f2 \<leftarrow> TAILQ_FIRST head2 m;
        m \<leftarrow> link_set (tqh_last h1) f2 m;
        h1 \<leftarrow> get_head head1 m;
        f2 \<leftarrow> TAILQ_FIRST head2 m;
        m \<leftarrow> set_entry f2 (tqe_prev_update (\<lambda>_. tqh_last h1)) m;
        h2 \<leftarrow> get_head head2 m;
        m \<leftarrow> set_head head1 (tqh_last_update (\<lambda>_. tqh_last h2)) m;
        TAILQ_INIT head2 m
     })
   }"

definition TAILQ_LAST :: "addr \<Rightarrow> tqmem \<Rightarrow> addr option" where
  "TAILQ_LAST head m = do {
     h \<leftarrow> get_head head m;
     l \<leftarrow> link_second (tqh_last h) m;
     link_get l m
   }"

definition TAILQ_PREV :: "addr \<Rightarrow> tqmem \<Rightarrow> addr option" where
  "TAILQ_PREV elm m = do {
     e \<leftarrow> get_entry elm m;
     l \<leftarrow> link_second (tqe_prev e) m;
     link_get l m
   }"

definition TAILQ_SWAP :: "addr \<Rightarrow> addr \<Rightarrow> tqmem \<Rightarrow> tqmem option" where
  "TAILQ_SWAP head1 head2 m = do {
     h1 \<leftarrow> get_head head1 m;
     h2 \<leftarrow> get_head head2 m;
     m \<leftarrow> set_head head1 (\<lambda>h. h\<lparr>tqh_first := tqh_first h2, tqh_last := tqh_last h2\<rparr>) m;
     m \<leftarrow> set_head head2 (\<lambda>h. h\<lparr>tqh_first := tqh_first h1, tqh_last := tqh_last h1\<rparr>) m;
     f1 \<leftarrow> TAILQ_FIRST head1 m;
     m \<leftarrow> (if f1 \<noteq> NULL
           then set_entry f1 (tqe_prev_update (\<lambda>_. Link_First head1)) m
           else set_head head1 (tqh_last_update (\<lambda>_. Link_First head1)) m);
     f2 \<leftarrow> TAILQ_FIRST head2 m;
     (if f2 \<noteq> NULL
      then set_entry f2 (tqe_prev_update (\<lambda>_. Link_First head2)) m
      else set_head head2 (tqh_last_update (\<lambda>_. Link_First head2)) m)
   }"

text \<open>
  The loop of \<open>TAILQ_FOREACH\<close>, as the list of the elements its body sees; and the one of
  \<open>TAILQ_FOREACH_REVERSE\<close>.  On a corrupt queue the loop may not end.
\<close>

partial_function (option) tailq_foreach_from :: "addr \<Rightarrow> tqmem \<Rightarrow> addr list option" where
  "tailq_foreach_from var m =
     (if var = NULL then Some []
      else do { n \<leftarrow> TAILQ_NEXT var m; xs \<leftarrow> tailq_foreach_from n m; Some (var # xs) })"

definition TAILQ_FOREACH :: "addr \<Rightarrow> tqmem \<Rightarrow> addr list option" where
  "TAILQ_FOREACH head m = do { f \<leftarrow> TAILQ_FIRST head m; tailq_foreach_from f m }"

partial_function (option) tailq_foreach_back :: "addr \<Rightarrow> tqmem \<Rightarrow> addr list option" where
  "tailq_foreach_back var m =
     (if var = NULL then Some []
      else do { p \<leftarrow> TAILQ_PREV var m; xs \<leftarrow> tailq_foreach_back p m; Some (var # xs) })"

definition TAILQ_FOREACH_REVERSE :: "addr \<Rightarrow> tqmem \<Rightarrow> addr list option" where
  "TAILQ_FOREACH_REVERSE head m = do { f \<leftarrow> TAILQ_LAST head m; tailq_foreach_back f m }"

section \<open>The representation of a queue\<close>

text \<open>
  \<open>first_of xs e\<close> is the pointer to the first of \<open>xs\<close>, or \<open>e\<close> when there is none; \<open>last_link l xs\<close>
  is the address of the last \<open>tqe_next\<close> of \<open>xs\<close>, or \<open>l\<close> when there is none.  \<open>tq_seg E l xs e\<close>: the
  entries \<open>xs\<close> are chained in both directions, the first one hanging on \<open>l\<close>, the last one leading
  to \<open>e\<close>.
\<close>

fun first_of :: "addr list \<Rightarrow> addr \<Rightarrow> addr" where
  "first_of [] e = e"
| "first_of (x # xs) e = x"

fun last_link :: "link \<Rightarrow> addr list \<Rightarrow> link" where
  "last_link l [] = l"
| "last_link l (x # xs) = last_link (Link_Next x) xs"

fun tq_seg :: "(addr \<rightharpoonup> tqentry) \<Rightarrow> link \<Rightarrow> addr list \<Rightarrow> addr \<Rightarrow> bool" where
  "tq_seg E l [] e \<longleftrightarrow> True"
| "tq_seg E l (x # xs) e \<longleftrightarrow>
     x \<noteq> NULL \<and> E x = Some \<lparr>tqe_next = first_of xs e, tqe_prev = l\<rparr>
     \<and> tq_seg E (Link_Next x) xs e"

definition is_tailq :: "tqmem \<Rightarrow> addr \<Rightarrow> addr list \<Rightarrow> bool" where
  "is_tailq m head xs \<longleftrightarrow>
     tq_heads m head
       = Some \<lparr>tqh_first = first_of xs NULL, tqh_last = last_link (Link_First head) xs\<rparr>
     \<and> tq_seg (tq_entries m) (Link_First head) xs NULL \<and> distinct xs"

text \<open>An element that is in memory and not null can be inserted.\<close>

definition is_entry :: "tqmem \<Rightarrow> addr \<Rightarrow> bool" where
  "is_entry m a \<longleftrightarrow> a \<noteq> NULL \<and> tq_entries m a \<noteq> None"

lemma first_of_append [simp]: "first_of (xs @ ys) e = first_of xs (first_of ys e)"
  by (cases xs) auto

lemma last_link_append [simp]: "last_link l (xs @ ys) = last_link (last_link l xs) ys"
  by (induction xs arbitrary: l) auto

lemma tq_seg_append [simp]:
  "tq_seg E l (xs @ ys) e
     \<longleftrightarrow> tq_seg E l xs (first_of ys e) \<and> tq_seg E (last_link l xs) ys e"
  by (induction xs arbitrary: l) auto

lemma tq_seg_upd [simp, frame]: "a \<notin> set xs \<Longrightarrow> tq_seg (E(a := v)) l xs e = tq_seg E l xs e"
  by (induction xs arbitrary: l) auto

lemma tq_seg_not_null: "tq_seg E l xs e \<Longrightarrow> NULL \<notin> set xs"
  by (induction xs arbitrary: l) auto

lemma tq_seg_is_entry: "tq_seg E l xs e \<Longrightarrow> x \<in> set xs \<Longrightarrow> E x \<noteq> None"
  by (induction xs arbitrary: l) auto

lemma is_tailq_first: "is_tailq m head xs \<Longrightarrow> TAILQ_FIRST head m = Some (first_of xs NULL)"
  by (simp add: is_tailq_def TAILQ_FIRST_def get_head_def)

lemma is_tailq_not_null: "is_tailq m head xs \<Longrightarrow> NULL \<notin> set xs"
  by (auto simp: is_tailq_def dest: tq_seg_not_null)

lemma is_tailq_is_entry: "is_tailq m head xs \<Longrightarrow> x \<in> set xs \<Longrightarrow> is_entry m x"
  by (auto simp: is_tailq_def is_entry_def dest: tq_seg_is_entry tq_seg_not_null)

lemma is_tailq_distinct: "is_tailq m head xs \<Longrightarrow> distinct xs"
  by (simp add: is_tailq_def)

text \<open>The abstraction is a function: a memory holds at most one queue under a head.\<close>

lemma tq_seg_unique:
  "tq_seg E l xs NULL \<Longrightarrow> tq_seg E l ys NULL \<Longrightarrow> first_of xs NULL = first_of ys NULL \<Longrightarrow> xs = ys"
proof (induction xs arbitrary: l ys)
  case Nil
  then show ?case by (cases ys) auto
next
  case (Cons x xs)
  then obtain ys' where ys: "ys = x # ys'" by (cases ys) auto
  with Cons.prems have "first_of xs NULL = first_of ys' NULL" by simp
  with Cons ys show ?case by auto
qed

lemma is_tailq_unique: "is_tailq m head xs \<Longrightarrow> is_tailq m head ys \<Longrightarrow> xs = ys"
  by (auto simp: is_tailq_def intro: tq_seg_unique)

lemmas tq_access = get_entry_def get_head_def set_entry_def set_head_def link_get_def link_set_def
  link_second_def TAILQ_FIRST_def TAILQ_NEXT_def TAILQ_EMPTY_def

text \<open>
  \<open>tq_only A H m m'\<close>: going from \<open>m\<close> to \<open>m'\<close> wrote no entry outside \<open>A\<close> and no head outside \<open>H\<close>,
  and allocated or freed nothing.
\<close>

definition tq_only :: "addr set \<Rightarrow> addr set \<Rightarrow> tqmem \<Rightarrow> tqmem \<Rightarrow> bool" where
  "tq_only A H m m' \<longleftrightarrow>
     (\<forall>a. a \<notin> A \<longrightarrow> tq_entries m' a = tq_entries m a)
     \<and> (\<forall>h. h \<notin> H \<longrightarrow> tq_heads m' h = tq_heads m h)
     \<and> dom (tq_entries m') = dom (tq_entries m) \<and> dom (tq_heads m') = dom (tq_heads m)"

lemma tq_only_refl [simp]: "tq_only A H m m"
  by (simp add: tq_only_def)

lemma tq_only_trans: "tq_only A H m m' \<Longrightarrow> tq_only A H m' m'' \<Longrightarrow> tq_only A H m m''"
  by (simp add: tq_only_def)

lemma tq_only_mono: "tq_only A H m m' \<Longrightarrow> A \<subseteq> B \<Longrightarrow> H \<subseteq> K \<Longrightarrow> tq_only B K m m'"
  by (auto simp: tq_only_def)

lemma set_entry_only: "set_entry a f m = Some m' \<Longrightarrow> a \<in> A \<Longrightarrow> tq_only A H m m'"
  by (auto simp: set_entry_def tq_only_def dom_def split: option.splits if_splits)

lemma set_head_only: "set_head h f m = Some m' \<Longrightarrow> h \<in> H \<Longrightarrow> tq_only A H m m'"
  by (auto simp: set_head_def tq_only_def dom_def split: option.splits if_splits)

lemma tq_seg_cong:
  "(\<And>x. x \<in> set xs \<Longrightarrow> E' x = E x) \<Longrightarrow> tq_seg E' l xs e = tq_seg E l xs e"
  by (induction xs arbitrary: l) auto

lemma is_tailq_frame [frame]:
  "tq_only A H m m' \<Longrightarrow> is_tailq m head xs \<Longrightarrow> set xs \<inter> A = {} \<Longrightarrow> head \<notin> H
     \<Longrightarrow> is_tailq m' head xs"
  unfolding is_tailq_def tq_only_def
  by (metis disjoint_iff tq_seg_cong)

lemma is_entry_frame [frame]: "tq_only A H m m' \<Longrightarrow> is_entry m' x = is_entry m x"
  by (auto simp: is_entry_def tq_only_def dom_def set_eq_iff)

section \<open>Each macro against the list\<close>

lemma TAILQ_INIT_ok:
  "tq_heads m head \<noteq> None \<Longrightarrow>
   \<exists>m'. TAILQ_INIT head m = Some m' \<and> is_tailq m' head [] \<and> tq_only {} {head} m m'"
  by (auto simp: TAILQ_INIT_def is_tailq_def tq_access tq_only_def)

lemma TAILQ_EMPTY_ok: "is_tailq m head xs \<Longrightarrow> TAILQ_EMPTY head m = Some (xs = [])"
  by (cases xs) (auto simp: is_tailq_def tq_access)

lemma TAILQ_NEXT_ok:
  "is_tailq m head (xs @ x # ys) \<Longrightarrow> TAILQ_NEXT x m = Some (first_of ys NULL)"
  by (simp add: is_tailq_def tq_access)

lemma TAILQ_INSERT_HEAD_ok:
  assumes "is_tailq m head xs" "is_entry m x" "x \<notin> set xs"
  shows "\<exists>m'. TAILQ_INSERT_HEAD head x m = Some m' \<and> is_tailq m' head (x # xs)
              \<and> tq_only (insert x (set xs)) {head} m m'"
  using assms
  by (cases xs)
     (auto simp: TAILQ_INSERT_HEAD_def is_tailq_def is_entry_def tq_access tq_only_def)

lemma TAILQ_INSERT_TAIL_ok:
  assumes "is_tailq m head xs" "is_entry m x" "x \<notin> set xs"
  shows "\<exists>m'. TAILQ_INSERT_TAIL head x m = Some m' \<and> is_tailq m' head (xs @ [x])
              \<and> tq_only (insert x (set xs)) {head} m m'"
  using assms
  by (cases xs rule: rev_cases)
     (auto simp: TAILQ_INSERT_TAIL_def is_tailq_def is_entry_def tq_access tq_only_def)

lemma TAILQ_INSERT_AFTER_ok:
  assumes "is_tailq m head (xs @ y # ys)" "is_entry m x" "x \<notin> set (xs @ y # ys)"
  shows "\<exists>m'. TAILQ_INSERT_AFTER head y x m = Some m' \<and> is_tailq m' head (xs @ y # x # ys)
              \<and> tq_only (insert x (set (xs @ y # ys))) {head} m m'"
  using assms
  by (cases ys)
     (auto simp: TAILQ_INSERT_AFTER_def is_tailq_def is_entry_def tq_access tq_only_def)

lemma TAILQ_INSERT_BEFORE_ok:
  assumes "is_tailq m head (xs @ y # ys)" "is_entry m x" "x \<notin> set (xs @ y # ys)"
  shows "\<exists>m'. TAILQ_INSERT_BEFORE y x m = Some m' \<and> is_tailq m' head (xs @ x # y # ys)
              \<and> tq_only (insert x (set (xs @ y # ys))) {head} m m'"
  using assms
  by (cases xs rule: rev_cases)
     (auto simp: TAILQ_INSERT_BEFORE_def is_tailq_def is_entry_def tq_access tq_only_def)

lemma TAILQ_REMOVE_ok:
  assumes "is_tailq m head (xs @ x # ys)"
  shows "\<exists>m'. TAILQ_REMOVE head x m = Some m' \<and> is_tailq m' head (xs @ ys)
              \<and> tq_entries m' x = Some \<lparr>tqe_next = NULL, tqe_prev = Link_Null\<rparr>
              \<and> tq_only (set (xs @ x # ys)) {head} m m'"
  using assms
  by (cases xs rule: rev_cases; cases ys)
     (auto simp: TAILQ_REMOVE_def is_tailq_def tq_access tq_only_def)

lemma link_get_last:
  "tq_seg (tq_entries m) l xs e \<Longrightarrow> link_get l m = Some (first_of xs e)
     \<Longrightarrow> link_get (last_link l xs) m = Some e"
  by (cases xs rule: rev_cases) (auto simp: tq_access)

lemma link_get_last_head:
  "is_tailq m head (xs @ ys) \<Longrightarrow>
   link_get (last_link (Link_First head) xs) m = Some (first_of ys NULL)"
  by (rule link_get_last) (auto simp: is_tailq_def tq_access)

lemma TAILQ_LAST_ok:
  assumes "is_tailq m head xs"
  shows "TAILQ_LAST head m = Some (if xs = [] then NULL else last xs)"
proof (cases xs rule: rev_cases)
  case Nil
  with assms show ?thesis by (auto simp: TAILQ_LAST_def is_tailq_def tq_access)
next
  case (snoc ys y)
  have "link_get (last_link (Link_First head) ys) m = Some y"
    using link_get_last_head [of m head ys "[y]"] assms snoc by simp
  moreover have "get_head head m = Some \<lparr>tqh_first = first_of xs NULL, tqh_last = Link_Next y\<rparr>"
    and "link_second (Link_Next y) m = Some (last_link (Link_First head) ys)"
    using assms snoc by (auto simp: is_tailq_def tq_access)
  ultimately show ?thesis using snoc by (simp add: TAILQ_LAST_def)
qed

lemma TAILQ_PREV_ok:
  assumes q: "is_tailq m head (xs @ x # ys)"
  shows "TAILQ_PREV x m = Some (if xs = [] then NULL else last xs)"
proof (cases xs rule: rev_cases)
  case Nil
  with link_get_last_head [of m head "x # ys" "[]"] q show ?thesis
    by (auto simp: TAILQ_PREV_def is_tailq_def link_second_def get_entry_def get_head_def)
next
  case (snoc zs z)
  have "link_get (last_link (Link_First head) zs) m = Some z"
    using link_get_last_head [of m head zs "z # x # ys"] q snoc by simp
  moreover have "get_entry x m = Some \<lparr>tqe_next = first_of ys NULL, tqe_prev = Link_Next z\<rparr>"
    and "link_second (Link_Next z) m = Some (last_link (Link_First head) zs)"
    using q snoc by (auto simp: is_tailq_def tq_access)
  ultimately show ?thesis using snoc by (simp add: TAILQ_PREV_def)
qed

lemma tailq_foreach_from_ok:
  "tq_seg (tq_entries m) l xs NULL \<Longrightarrow> tailq_foreach_from (first_of xs NULL) m = Some xs"
proof (induction xs arbitrary: l)
  case Nil
  show ?case by (simp add: tailq_foreach_from.simps [of NULL m])
next
  case (Cons x xs)
  then have "tailq_foreach_from (first_of xs NULL) m = Some xs" by auto
  with Cons.prems show ?case
    by (simp add: tailq_foreach_from.simps [of x m] TAILQ_NEXT_def get_entry_def)
qed

lemma TAILQ_FOREACH_ok: "is_tailq m head xs \<Longrightarrow> TAILQ_FOREACH head m = Some xs"
  using tailq_foreach_from_ok [of m "Link_First head" xs]
  by (auto simp: TAILQ_FOREACH_def is_tailq_first is_tailq_def)

lemma tailq_foreach_back_ok:
  "is_tailq m head (xs @ ys) \<Longrightarrow>
   tailq_foreach_back (if xs = [] then NULL else last xs) m = Some (rev xs)"
proof (induction xs arbitrary: ys rule: rev_induct)
  case Nil
  show ?case by (simp add: tailq_foreach_back.simps [of NULL m])
next
  case (snoc x xs)
  then have "TAILQ_PREV x m = Some (if xs = [] then NULL else last xs)"
    using TAILQ_PREV_ok by simp
  moreover have "x \<noteq> NULL" using is_tailq_not_null [OF snoc.prems] by auto
  ultimately show ?case
    using snoc.IH [of "x # ys"] snoc.prems
    by (simp add: tailq_foreach_back.simps [of x m])
qed

lemma TAILQ_FOREACH_REVERSE_ok:
  "is_tailq m head xs \<Longrightarrow> TAILQ_FOREACH_REVERSE head m = Some (rev xs)"
  using tailq_foreach_back_ok [of m head xs "[]"]
  by (simp add: TAILQ_FOREACH_REVERSE_def TAILQ_LAST_ok)

lemma TAILQ_CONCAT_ok:
  assumes "is_tailq m head1 xs" "is_tailq m head2 ys"
    and "head1 \<noteq> head2" "set xs \<inter> set ys = {}"
  shows "\<exists>m'. TAILQ_CONCAT head1 head2 m = Some m'
              \<and> is_tailq m' head1 (xs @ ys) \<and> is_tailq m' head2 []
              \<and> tq_only (set xs \<union> set ys) {head1, head2} m m'"
  using assms
  by (cases xs rule: rev_cases; cases ys)
     (auto simp: TAILQ_CONCAT_def TAILQ_INIT_def is_tailq_def tq_access tq_only_def)

lemma TAILQ_SWAP_ok:
  assumes "is_tailq m head1 xs" "is_tailq m head2 ys"
    and "head1 \<noteq> head2" "set xs \<inter> set ys = {}"
  shows "\<exists>m'. TAILQ_SWAP head1 head2 m = Some m'
              \<and> is_tailq m' head1 ys \<and> is_tailq m' head2 xs
              \<and> tq_only (set xs \<union> set ys) {head1, head2} m m'"
  using assms
  by (cases xs; cases ys) (auto simp: TAILQ_SWAP_def is_tailq_def tq_access tq_only_def)

end
