(* ===== verification/Qmem.thy ===== *)
theory Qmem
  imports Tailq
begin

text \<open>
  What the five families of macros of src/cs_queue.h share: a memory of entries and heads, a list of
  chained entries in it, and the loops (\<open>FOREACH\<close>, \<open>FOREACH_SAFE\<close> and the search of \<open>REMOVE\<close>) that
  follow one link of every entry.  The contract of such a link is the locale \<open>chain\<close>, extended by
  \<open>removable_chain\<close> when elements can be taken out of it and by \<open>scrubbed_chain\<close> when the element
  taken out gets a null link.  The families are interpretations of it; the tail queue is one here, in
  both directions.
\<close>

section \<open>Memory\<close>

record ('e, 'h) qmem =
  q_entries :: "addr \<rightharpoonup> 'e"
  q_heads :: "addr \<rightharpoonup> 'h"

definition q_entry :: "addr \<Rightarrow> ('e, 'h) qmem \<Rightarrow> 'e option" where
  "q_entry a m = q_entries m a"

definition q_head :: "addr \<Rightarrow> ('e, 'h) qmem \<Rightarrow> 'h option" where
  "q_head a m = q_heads m a"

definition q_set_entry :: "addr \<Rightarrow> ('e \<Rightarrow> 'e) \<Rightarrow> ('e, 'h) qmem \<Rightarrow> ('e, 'h) qmem option" where
  "q_set_entry a f m =
     (case q_entries m a of None \<Rightarrow> None
      | Some e \<Rightarrow> Some (m\<lparr>q_entries := (q_entries m)(a \<mapsto> f e)\<rparr>))"

definition q_set_head :: "addr \<Rightarrow> ('h \<Rightarrow> 'h) \<Rightarrow> ('e, 'h) qmem \<Rightarrow> ('e, 'h) qmem option" where
  "q_set_head a f m =
     (case q_heads m a of None \<Rightarrow> None
      | Some h \<Rightarrow> Some (m\<lparr>q_heads := (q_heads m)(a \<mapsto> f h)\<rparr>))"

lemmas q_access = q_entry_def q_head_def q_set_entry_def q_set_head_def

definition is_qentry :: "('e, 'h) qmem \<Rightarrow> addr \<Rightarrow> bool" where
  "is_qentry m a \<longleftrightarrow> a \<noteq> NULL \<and> q_entries m a \<noteq> None"

text \<open>Going from \<open>m\<close> to \<open>m'\<close> wrote no entry outside \<open>A\<close> and no head outside \<open>H\<close>, and freed nothing.\<close>

definition q_only :: "addr set \<Rightarrow> addr set \<Rightarrow> ('e, 'h) qmem \<Rightarrow> ('e, 'h) qmem \<Rightarrow> bool" where
  "q_only A H m m' \<longleftrightarrow>
     (\<forall>a. a \<notin> A \<longrightarrow> q_entries m' a = q_entries m a) \<and> (\<forall>h. h \<notin> H \<longrightarrow> q_heads m' h = q_heads m h)
     \<and> dom (q_entries m') = dom (q_entries m) \<and> dom (q_heads m') = dom (q_heads m)"

lemma q_only_refl [simp]: "q_only A H m m"
  by (simp add: q_only_def)

section \<open>Chained entries\<close>

text \<open>
  \<open>chain_seg lk mk E l xs e\<close>: the entries \<open>xs\<close> lead to one another and the last one to \<open>e\<close>.  An entry is
  \<open>mk l n\<close>, where \<open>n\<close> is the next element and \<open>l\<close> is what it knows of the one before it, which is
  \<open>lk x\<close> after the element \<open>x\<close>; \<open>last_of lk l xs\<close> is what an entry behind \<open>xs\<close> would know.
\<close>

fun last_of :: "(addr \<Rightarrow> 'l) \<Rightarrow> 'l \<Rightarrow> addr list \<Rightarrow> 'l" where
  "last_of lk l [] = l"
| "last_of lk l (x # xs) = last_of lk (lk x) xs"

fun chain_seg ::
  "(addr \<Rightarrow> 'l) \<Rightarrow> ('l \<Rightarrow> addr \<Rightarrow> 'e) \<Rightarrow> (addr \<rightharpoonup> 'e) \<Rightarrow> 'l \<Rightarrow> addr list \<Rightarrow> addr \<Rightarrow> bool" where
  "chain_seg lk mk E l [] e \<longleftrightarrow> True"
| "chain_seg lk mk E l (x # xs) e \<longleftrightarrow>
     x \<noteq> NULL \<and> E x = Some (mk l (first_of xs e)) \<and> chain_seg lk mk E (lk x) xs e"

lemma last_of_append [simp]: "last_of lk l (xs @ ys) = last_of lk (last_of lk l xs) ys"
  by (induction xs arbitrary: l) auto

lemma chain_seg_append [simp]:
  "chain_seg lk mk E l (xs @ ys) e
     \<longleftrightarrow> chain_seg lk mk E l xs (first_of ys e) \<and> chain_seg lk mk E (last_of lk l xs) ys e"
  by (induction xs arbitrary: l) auto

lemma chain_seg_upd [simp]:
  "a \<notin> set xs \<Longrightarrow> chain_seg lk mk (E(a := v)) l xs e = chain_seg lk mk E l xs e"
  by (induction xs arbitrary: l) auto

lemma chain_seg_not_null: "chain_seg lk mk E l xs e \<Longrightarrow> NULL \<notin> set xs"
  by (induction xs arbitrary: l) auto

lemma chain_seg_cong:
  "(\<And>x. x \<in> set xs \<Longrightarrow> E' x = E x) \<Longrightarrow> chain_seg lk mk E' l xs e = chain_seg lk mk E l xs e"
  by (induction xs arbitrary: l) auto

section \<open>Loops along a link\<close>

text \<open>
  The elements that a loop \<open>for (var = first; var != stop; var = NEXT(var))\<close> sees; the same with a body
  that changes the memory; the variant that reads the next element before the body runs; and the
  search for the element before \<open>elm\<close>.
\<close>

partial_function (option) for_each :: "(addr \<Rightarrow> 'm \<Rightarrow> addr option) \<Rightarrow> addr \<Rightarrow> addr \<Rightarrow> 'm \<Rightarrow> addr list option" where
  "for_each nxt stop var m =
     (if var = stop then Some []
      else do { n \<leftarrow> nxt var m; xs \<leftarrow> for_each nxt stop n m; Some (var # xs) })"

partial_function (option) for_each_do ::
  "(addr \<Rightarrow> 'm \<Rightarrow> addr option) \<Rightarrow> (addr \<Rightarrow> 'm \<Rightarrow> 'm option) \<Rightarrow> addr \<Rightarrow> 'm \<Rightarrow> 'm option" where
  "for_each_do nxt body var m =
     (if var = NULL then Some m
      else do { m \<leftarrow> body var m; n \<leftarrow> nxt var m; for_each_do nxt body n m })"

partial_function (option) for_each_safe ::
  "(addr \<Rightarrow> 'm \<Rightarrow> addr option) \<Rightarrow> (addr \<Rightarrow> 'm \<Rightarrow> 'm option) \<Rightarrow> addr \<Rightarrow> 'm \<Rightarrow> 'm option" where
  "for_each_safe nxt body var m =
     (if var = NULL then Some m
      else do { tvar \<leftarrow> nxt var m; m \<leftarrow> body var m; for_each_safe nxt body tvar m })"

partial_function (option) find_before :: "(addr \<Rightarrow> 'm \<Rightarrow> addr option) \<Rightarrow> addr \<Rightarrow> addr \<Rightarrow> 'm \<Rightarrow> addr option" where
  "find_before nxt elm curelm m = do {
     n \<leftarrow> nxt curelm m;
     (if n = elm then Some curelm else find_before nxt elm n m)
   }"

text \<open>A body that removes the elements with the property \<open>P\<close>.\<close>

definition remove_if :: "(addr \<Rightarrow> bool) \<Rightarrow> (addr \<Rightarrow> 'm \<Rightarrow> 'm option) \<Rightarrow> addr \<Rightarrow> 'm \<Rightarrow> 'm option" where
  "remove_if P remove x m = (if P x then remove x m else Some m)"

section \<open>The contracts\<close>

locale chain =
  fixes get_first :: "addr \<Rightarrow> 'm \<Rightarrow> addr option"
    and get_next :: "addr \<Rightarrow> 'm \<Rightarrow> addr option"
    and stop :: "addr \<Rightarrow> addr"
    and holds :: "'m \<Rightarrow> addr \<Rightarrow> addr list \<Rightarrow> bool"
  assumes get_first: "holds m q xs \<Longrightarrow> get_first q m = Some (first_of xs (stop q))"
    and get_next: "holds m q (xs @ x # ys) \<Longrightarrow> get_next x m = Some (first_of ys (stop q))"
    and elements: "holds m q xs \<Longrightarrow> distinct xs \<and> stop q \<notin> set xs"
begin

lemma for_each_from:
  "holds m q (xs @ ys) \<Longrightarrow> for_each get_next (stop q) (first_of ys (stop q)) m = Some ys"
proof (induction ys arbitrary: xs)
  case Nil
  show ?case by (simp add: for_each.simps [of get_next "stop q" "stop q"])
next
  case (Cons y ys)
  have "y \<noteq> stop q" using elements [OF Cons.prems] by auto
  moreover have "for_each get_next (stop q) (first_of ys (stop q)) m = Some ys"
    using Cons.IH [of "xs @ [y]"] Cons.prems by simp
  ultimately show ?case
    using get_next [OF Cons.prems] by (simp add: for_each.simps [of get_next "stop q" y])
qed

lemma for_each_all:
  "holds m q xs \<Longrightarrow> Option.bind (get_first q m) (\<lambda>f. for_each get_next (stop q) f m) = Some xs"
  using for_each_from [of m q "[]" xs] get_first by simp

lemma find_before_from:
  "holds m q (zs @ ws @ y # x # ys) \<Longrightarrow>
   find_before get_next x (first_of (ws @ [y]) (stop q)) m = Some y"
proof (induction ws arbitrary: zs)
  case Nil
  then have "get_next y m = Some x" using get_next [of m q zs y "x # ys"] by simp
  then show ?case by (simp add: find_before.simps [of get_next x y])
next
  case (Cons w ws)
  have n: "get_next w m = Some (first_of (ws @ [y]) (stop q))"
    using get_next [of m q zs w "ws @ y # x # ys"] Cons.prems by (cases ws) auto
  have "first_of (ws @ [y]) (stop q) \<noteq> x" using elements [OF Cons.prems] by (cases ws) auto
  moreover have "find_before get_next x (first_of (ws @ [y]) (stop q)) m = Some y"
    using Cons.IH [of "zs @ [w]"] Cons.prems by simp
  ultimately show ?case by (simp add: find_before.simps [of get_next x w] n)
qed

end

locale removable_chain = chain get_first get_next "\<lambda>_. NULL" holds
  for get_first :: "addr \<Rightarrow> 'm \<Rightarrow> addr option"
    and get_next :: "addr \<Rightarrow> 'm \<Rightarrow> addr option"
    and holds :: "'m \<Rightarrow> addr \<Rightarrow> addr list \<Rightarrow> bool" +
  fixes remove :: "addr \<Rightarrow> addr \<Rightarrow> 'm \<Rightarrow> 'm option"
  assumes remove: "holds m q (xs @ x # ys) \<Longrightarrow> \<exists>m'. remove q x m = Some m' \<and> holds m' q (xs @ ys)"
begin

text \<open>A safe loop may remove the element it is at.\<close>

lemma safe_from:
  "holds m q (zs @ xs) \<Longrightarrow>
   \<exists>m'. for_each_safe get_next (remove_if P (remove q)) (first_of xs NULL) m = Some m'
        \<and> holds m' q (zs @ filter (\<lambda>x. \<not> P x) xs)"
proof (induction xs arbitrary: zs m)
  case Nil
  then show ?case by (simp add: for_each_safe.simps [of get_next _ NULL])
next
  case (Cons x xs)
  have x: "x \<noteq> NULL" using elements [OF Cons.prems] by auto
  note next_x = get_next [OF Cons.prems]
  show ?case
  proof (cases "P x")
    case True
    from remove [OF Cons.prems] obtain m1 where m1: "remove q x m = Some m1" "holds m1 q (zs @ xs)" by blast
    from Cons.IH [OF m1(2)] True x next_x m1(1) show ?thesis
      by (simp add: for_each_safe.simps [of get_next _ x] remove_if_def)
  next
    case False
    from Cons.IH [of m "zs @ [x]"] Cons.prems False x next_x show ?thesis
      by (simp add: for_each_safe.simps [of get_next _ x] remove_if_def)
  qed
qed

lemma safe_all:
  "holds m q xs \<Longrightarrow>
   \<exists>m'. Option.bind (get_first q m) (\<lambda>f. for_each_safe get_next (remove_if P (remove q)) f m) = Some m'
        \<and> holds m' q (filter (\<lambda>x. \<not> P x) xs)"
  using safe_from [of m q "[]" xs P] get_first by simp

end

locale scrubbed_chain = removable_chain +
  assumes scrubbed: "holds m q (xs @ x # ys) \<Longrightarrow> remove q x m = Some m' \<Longrightarrow> get_next x m' = Some NULL"
begin

text \<open>A plain loop that removes the element it is at ends there.\<close>

lemma plain_from:
  "holds m q (zs @ xs) \<Longrightarrow>
   \<exists>m'. for_each_do get_next (remove_if P (remove q)) (first_of xs NULL) m = Some m'
        \<and> holds m' q (zs @ takeWhile (\<lambda>x. \<not> P x) xs @ tl (dropWhile (\<lambda>x. \<not> P x) xs))"
proof (induction xs arbitrary: zs)
  case Nil
  then show ?case by (simp add: for_each_do.simps [of get_next _ NULL])
next
  case (Cons x xs)
  have x: "x \<noteq> NULL" using elements [OF Cons.prems] by auto
  show ?case
  proof (cases "P x")
    case True
    from remove [OF Cons.prems] obtain m1 where m1: "remove q x m = Some m1" "holds m1 q (zs @ xs)" by blast
    with True x scrubbed [OF Cons.prems m1(1)] show ?thesis
      by (simp add: for_each_do.simps [of get_next _ x] for_each_do.simps [of get_next _ NULL] remove_if_def)
  next
    case False
    from Cons.IH [of "zs @ [x]"] Cons.prems False x get_next [OF Cons.prems] show ?thesis
      by (simp add: for_each_do.simps [of get_next _ x] remove_if_def)
  qed
qed

lemma plain_all:
  "holds m q xs \<Longrightarrow>
   \<exists>m'. Option.bind (get_first q m) (\<lambda>f. for_each_do get_next (remove_if P (remove q)) f m) = Some m'
        \<and> holds m' q (takeWhile (\<lambda>x. \<not> P x) xs @ tl (dropWhile (\<lambda>x. \<not> P x) xs))"
  using plain_from [of m q "[]" xs P] get_first by simp

end

section \<open>The tail queue as a chain\<close>

definition TAILQ_FOREACH_DO :: "addr \<Rightarrow> (addr \<Rightarrow> tqmem \<Rightarrow> tqmem option) \<Rightarrow> tqmem \<Rightarrow> tqmem option" where
  "TAILQ_FOREACH_DO head body m = do { f \<leftarrow> TAILQ_FIRST head m; for_each_do TAILQ_NEXT body f m }"

definition TAILQ_FOREACH_SAFE :: "addr \<Rightarrow> (addr \<Rightarrow> tqmem \<Rightarrow> tqmem option) \<Rightarrow> tqmem \<Rightarrow> tqmem option" where
  "TAILQ_FOREACH_SAFE head body m = do { f \<leftarrow> TAILQ_FIRST head m; for_each_safe TAILQ_NEXT body f m }"

definition TAILQ_FOREACH_REVERSE_SAFE ::
  "addr \<Rightarrow> (addr \<Rightarrow> tqmem \<Rightarrow> tqmem option) \<Rightarrow> tqmem \<Rightarrow> tqmem option" where
  "TAILQ_FOREACH_REVERSE_SAFE head body m = do { f \<leftarrow> TAILQ_LAST head m; for_each_safe TAILQ_PREV body f m }"

lemma last_first_of: "(if xs = [] then e else last xs) = first_of (rev xs) e"
  by (cases xs rule: rev_cases) auto

interpretation tq: scrubbed_chain TAILQ_FIRST TAILQ_NEXT is_tailq TAILQ_REMOVE
proof
  fix m q xs x ys
  assume q: "is_tailq m q (xs @ x # ys)"
  note removed = TAILQ_REMOVE_ok [OF q]
  then show "\<exists>m'. TAILQ_REMOVE q x m = Some m' \<and> is_tailq m' q (xs @ ys)" by blast
  fix m'
  assume "TAILQ_REMOVE q x m = Some m'"
  with removed show "TAILQ_NEXT x m' = Some NULL" by (auto simp: TAILQ_NEXT_def get_entry_def)
qed (auto simp: is_tailq_first TAILQ_NEXT_ok is_tailq_distinct dest: is_tailq_not_null)

interpretation tqr: removable_chain TAILQ_LAST TAILQ_PREV "\<lambda>m q xs. is_tailq m q (rev xs)" TAILQ_REMOVE
proof
  fix m q xs
  assume q: "is_tailq m q (rev xs)"
  then show "TAILQ_LAST q m = Some (first_of xs NULL)"
    using TAILQ_LAST_ok [OF q] by (simp add: last_first_of [of "rev xs", simplified])
  show "distinct xs \<and> NULL \<notin> set xs" using is_tailq_distinct [OF q] is_tailq_not_null [OF q] by simp
next
  fix m q xs x ys
  assume "is_tailq m q (rev (xs @ x # ys))"
  then have q: "is_tailq m q (rev ys @ x # rev xs)" by simp
  show "TAILQ_PREV x m = Some (first_of ys NULL)"
    using TAILQ_PREV_ok [OF q] by (simp add: last_first_of [of "rev ys", simplified])
  show "\<exists>m'. TAILQ_REMOVE q x m = Some m' \<and> is_tailq m' q (rev (xs @ ys))"
    using TAILQ_REMOVE_ok [OF q] by auto
qed

end
