(* ===== verification/Slist.thy ===== *)
theory Slist
  imports Qmem
begin

text \<open>
  The singly-linked list of src/cs_queue.h (\<open>SLIST\<close>), each macro refined to its effect on a list.  \<open>QUEUE_MACRO_SCRUB\<close> is defined, so a removal remembers the
  place of the element's link before it relinks and overwrites it with null (\<open>TRASHIT\<close>) at the end.
\<close>

section \<open>The macros\<close>

record slentry =
  sle_next :: addr

record slhead =
  slh_first :: addr

type_synonym slmem = "(slentry, slhead) qmem"

definition SLIST_FIRST :: "addr \<Rightarrow> slmem \<Rightarrow> addr option" where
  "SLIST_FIRST head m = map_option slh_first (q_head head m)"

definition SLIST_NEXT :: "addr \<Rightarrow> slmem \<Rightarrow> addr option" where
  "SLIST_NEXT elm m = map_option sle_next (q_entry elm m)"

definition SLIST_EMPTY :: "addr \<Rightarrow> slmem \<Rightarrow> bool option" where
  "SLIST_EMPTY head m = map_option (\<lambda>h. slh_first h = NULL) (q_head head m)"

definition SLIST_INIT :: "addr \<Rightarrow> slmem \<Rightarrow> slmem option" where
  "SLIST_INIT head m = q_set_head head (slh_first_update (\<lambda>_. NULL)) m"

definition SLIST_INSERT_AFTER :: "addr \<Rightarrow> addr \<Rightarrow> slmem \<Rightarrow> slmem option" where
  "SLIST_INSERT_AFTER slistelm elm m = do {
     n \<leftarrow> SLIST_NEXT slistelm m;
     m \<leftarrow> q_set_entry elm (sle_next_update (\<lambda>_. n)) m;
     q_set_entry slistelm (sle_next_update (\<lambda>_. elm)) m
   }"

definition SLIST_INSERT_HEAD :: "addr \<Rightarrow> addr \<Rightarrow> slmem \<Rightarrow> slmem option" where
  "SLIST_INSERT_HEAD head elm m = do {
     f \<leftarrow> SLIST_FIRST head m;
     m \<leftarrow> q_set_entry elm (sle_next_update (\<lambda>_. f)) m;
     q_set_head head (slh_first_update (\<lambda>_. elm)) m
   }"

definition SLIST_REMOVE_AFTER :: "addr \<Rightarrow> slmem \<Rightarrow> slmem option" where
  "SLIST_REMOVE_AFTER elm m = do {
     old \<leftarrow> SLIST_NEXT elm m;
     n \<leftarrow> SLIST_NEXT old m;
     m \<leftarrow> q_set_entry elm (sle_next_update (\<lambda>_. n)) m;
     q_set_entry old (sle_next_update (\<lambda>_. NULL)) m
   }"

definition SLIST_REMOVE_HEAD :: "addr \<Rightarrow> slmem \<Rightarrow> slmem option" where
  "SLIST_REMOVE_HEAD head m = do {
     old \<leftarrow> SLIST_FIRST head m;
     n \<leftarrow> SLIST_NEXT old m;
     m \<leftarrow> q_set_head head (slh_first_update (\<lambda>_. n)) m;
     q_set_entry old (sle_next_update (\<lambda>_. NULL)) m
   }"

definition SLIST_REMOVE :: "addr \<Rightarrow> addr \<Rightarrow> slmem \<Rightarrow> slmem option" where
  "SLIST_REMOVE head elm m = do {
     f \<leftarrow> SLIST_FIRST head m;
     (if f = elm then SLIST_REMOVE_HEAD head m
      else do { curelm \<leftarrow> find_before SLIST_NEXT elm f m; SLIST_REMOVE_AFTER curelm m })
   }"

definition SLIST_FOREACH :: "addr \<Rightarrow> slmem \<Rightarrow> addr list option" where
  "SLIST_FOREACH head m = do { f \<leftarrow> SLIST_FIRST head m; for_each SLIST_NEXT NULL f m }"

definition SLIST_FOREACH_SAFE :: "addr \<Rightarrow> (addr \<Rightarrow> slmem \<Rightarrow> slmem option) \<Rightarrow> slmem \<Rightarrow> slmem option" where
  "SLIST_FOREACH_SAFE head body m = do { f \<leftarrow> SLIST_FIRST head m; for_each_safe SLIST_NEXT body f m }"

text \<open>\<open>SLIST_FOREACH_PREVPTR\<close>: the elements with the place that points to each.\<close>

definition slist_link_get :: "link \<Rightarrow> slmem \<Rightarrow> addr option" where
  "slist_link_get l m = (case l of
     Link_Null \<Rightarrow> None | Link_First head \<Rightarrow> SLIST_FIRST head m | Link_Next a \<Rightarrow> SLIST_NEXT a m)"

partial_function (option) slist_prevptr_from :: "link \<Rightarrow> slmem \<Rightarrow> (addr \<times> link) list option" where
  "slist_prevptr_from varp m = do {
     var \<leftarrow> slist_link_get varp m;
     (if var = NULL then Some []
      else do { xs \<leftarrow> slist_prevptr_from (Link_Next var) m; Some ((var, varp) # xs) })
   }"

definition SLIST_FOREACH_PREVPTR :: "addr \<Rightarrow> slmem \<Rightarrow> (addr \<times> link) list option" where
  "SLIST_FOREACH_PREVPTR head m = slist_prevptr_from (Link_First head) m"

section \<open>The list\<close>

text \<open>The list under \<open>head\<close> has the elements \<open>xs\<close>.\<close>

abbreviation (input) sl_entry :: "unit \<Rightarrow> addr \<Rightarrow> slentry" where
  "sl_entry l n \<equiv> \<lparr>sle_next = n\<rparr>"

definition is_slist :: "slmem \<Rightarrow> addr \<Rightarrow> addr list \<Rightarrow> bool" where
  "is_slist m head xs \<longleftrightarrow>
     q_heads m head = Some \<lparr>slh_first = first_of xs NULL\<rparr>
     \<and> chain_seg (\<lambda>_. ()) sl_entry (q_entries m) () xs NULL \<and> distinct xs"

lemmas sl_access = q_access SLIST_FIRST_def SLIST_NEXT_def SLIST_EMPTY_def

interpretation slc: chain SLIST_FIRST SLIST_NEXT "\<lambda>_. NULL" is_slist
  by unfold_locales (auto simp: is_slist_def sl_access dest: chain_seg_not_null)

lemma SLIST_INIT_ok:
  "q_heads m head \<noteq> None \<Longrightarrow> \<exists>m'. SLIST_INIT head m = Some m' \<and> is_slist m' head [] \<and> q_only {} {head} m m'"
  by (auto simp: SLIST_INIT_def is_slist_def q_only_def sl_access)

lemma SLIST_EMPTY_ok: "is_slist m head xs \<Longrightarrow> SLIST_EMPTY head m = Some (xs = [])"
  by (cases xs) (auto simp: is_slist_def sl_access)

lemma SLIST_INSERT_HEAD_ok:
  assumes "is_slist m head xs" "is_qentry m x" "x \<notin> set xs"
  shows "\<exists>m'. SLIST_INSERT_HEAD head x m = Some m' \<and> is_slist m' head (x # xs) \<and> q_only {x} {head} m m'"
  using assms by (auto simp: SLIST_INSERT_HEAD_def is_slist_def is_qentry_def q_only_def sl_access)

lemma SLIST_INSERT_AFTER_ok:
  assumes "is_slist m head (xs @ y # ys)" "is_qentry m x" "x \<notin> set (xs @ y # ys)"
  shows "\<exists>m'. SLIST_INSERT_AFTER y x m = Some m' \<and> is_slist m' head (xs @ y # x # ys) \<and> q_only {x, y} {} m m'"
  using assms by (auto simp: SLIST_INSERT_AFTER_def is_slist_def is_qentry_def q_only_def sl_access)

lemma SLIST_REMOVE_HEAD_ok:
  assumes "is_slist m head (x # xs)"
  shows "\<exists>m'. SLIST_REMOVE_HEAD head m = Some m' \<and> is_slist m' head xs
              \<and> SLIST_NEXT x m' = Some NULL \<and> q_only {x} {head} m m'"
  using assms by (auto simp: SLIST_REMOVE_HEAD_def is_slist_def q_only_def sl_access)

lemma SLIST_REMOVE_AFTER_ok:
  assumes "is_slist m head (xs @ y # x # ys)"
  shows "\<exists>m'. SLIST_REMOVE_AFTER y m = Some m' \<and> is_slist m' head (xs @ y # ys)
              \<and> SLIST_NEXT x m' = Some NULL \<and> q_only {x, y} {head} m m'"
  using assms by (auto simp: SLIST_REMOVE_AFTER_def is_slist_def q_only_def sl_access)

lemma SLIST_REMOVE_ok:
  assumes q: "is_slist m head (xs @ x # ys)"
  shows "\<exists>m'. SLIST_REMOVE head x m = Some m' \<and> is_slist m' head (xs @ ys) \<and> SLIST_NEXT x m' = Some NULL
              \<and> q_only (set (xs @ x # ys)) {head} m m'"
proof (cases xs rule: rev_cases)
  case Nil
  then show ?thesis
    using SLIST_REMOVE_HEAD_ok [of m head x ys] slc.get_first [OF q] q
    by (auto simp: SLIST_REMOVE_def q_only_def)
next
  case (snoc zs y)
  have "find_before SLIST_NEXT x (first_of xs NULL) m = Some y"
    using slc.find_before_from [of m head "[]" zs y x ys] q snoc by simp
  moreover have "first_of xs NULL \<noteq> x"
    using slc.elements [OF q] snoc by (cases zs) auto
  moreover have "first_of (xs @ x # ys) NULL = first_of xs NULL" using snoc by (cases zs) auto
  moreover obtain m' where "SLIST_REMOVE_AFTER y m = Some m'" "is_slist m' head (xs @ ys)"
    "SLIST_NEXT x m' = Some NULL" "q_only {x, y} {head} m m'"
    using SLIST_REMOVE_AFTER_ok [of m head zs y x ys] q snoc by auto
  ultimately show ?thesis
    using slc.get_first [OF q] snoc by (auto simp: SLIST_REMOVE_def q_only_def)
qed

interpretation sl: scrubbed_chain SLIST_FIRST SLIST_NEXT is_slist SLIST_REMOVE
proof unfold_locales
  fix m q xs x ys
  assume q: "is_slist m q (xs @ x # ys)"
  note removed = SLIST_REMOVE_ok [OF q]
  then show "\<exists>m'. SLIST_REMOVE q x m = Some m' \<and> is_slist m' q (xs @ ys)" by blast
  fix m'
  assume "SLIST_REMOVE q x m = Some m'"
  with removed show "SLIST_NEXT x m' = Some NULL" by auto
qed

lemma SLIST_FOREACH_ok: "is_slist m head xs \<Longrightarrow> SLIST_FOREACH head m = Some xs"
  unfolding SLIST_FOREACH_def by (rule slc.for_each_all)

lemma slist_prevptr_from_ok:
  "chain_seg (\<lambda>_. ()) sl_entry (q_entries m) () xs NULL \<Longrightarrow> slist_link_get l m = Some (first_of xs NULL) \<Longrightarrow>
   slist_prevptr_from l m = Some (zip xs (l # map Link_Next xs))"
proof (induction xs arbitrary: l)
  case Nil
  then show ?case by (simp add: slist_prevptr_from.simps [of l])
next
  case (Cons x xs)
  then have "slist_prevptr_from (Link_Next x) m = Some (zip xs (Link_Next x # map Link_Next xs))"
    by (simp add: slist_link_get_def sl_access)
  with Cons.prems show ?case by (simp add: slist_prevptr_from.simps [of l])
qed

lemma SLIST_FOREACH_PREVPTR_ok:
  assumes "is_slist m head xs"
  shows "SLIST_FOREACH_PREVPTR head m = Some (zip xs (Link_First head # map Link_Next xs))"
  using assms unfolding SLIST_FOREACH_PREVPTR_def
  by (intro slist_prevptr_from_ok) (auto simp: is_slist_def slist_link_get_def sl_access)

end
