(* ===== verification/Stailq.thy ===== *)
theory Stailq
  imports Qmem
begin

text \<open>
  The singly-linked tail queue of src/cs_queue.h (\<open>STAILQ\<close>), each macro refined to its effect on a list.
  \<open>stqh_last\<close> is the address of the last \<open>stqe_next\<close>, or of \<open>stqh_first\<close> when the queue is empty.
\<close>

section \<open>The macros\<close>

record stqentry =
  stqe_next :: addr

record stqhead =
  stqh_first :: addr
  stqh_last :: link

type_synonym stqmem = "(stqentry, stqhead) qmem"

definition stq_link_set :: "link \<Rightarrow> addr \<Rightarrow> stqmem \<Rightarrow> stqmem option" where
  "stq_link_set l v m = (case l of
     Link_Null \<Rightarrow> None
   | Link_First head \<Rightarrow> q_set_head head (stqh_first_update (\<lambda>_. v)) m
   | Link_Next a \<Rightarrow> q_set_entry a (stqe_next_update (\<lambda>_. v)) m)"

definition STAILQ_FIRST :: "addr \<Rightarrow> stqmem \<Rightarrow> addr option" where
  "STAILQ_FIRST head m = map_option stqh_first (q_head head m)"

definition STAILQ_NEXT :: "addr \<Rightarrow> stqmem \<Rightarrow> addr option" where
  "STAILQ_NEXT elm m = map_option stqe_next (q_entry elm m)"

definition STAILQ_EMPTY :: "addr \<Rightarrow> stqmem \<Rightarrow> bool option" where
  "STAILQ_EMPTY head m = map_option (\<lambda>h. stqh_first h = NULL) (q_head head m)"

definition STAILQ_INIT :: "addr \<Rightarrow> stqmem \<Rightarrow> stqmem option" where
  "STAILQ_INIT head m = do {
     m \<leftarrow> q_set_head head (stqh_first_update (\<lambda>_. NULL)) m;
     q_set_head head (stqh_last_update (\<lambda>_. Link_First head)) m
   }"

definition STAILQ_CONCAT :: "addr \<Rightarrow> addr \<Rightarrow> stqmem \<Rightarrow> stqmem option" where
  "STAILQ_CONCAT head1 head2 m = do {
     e \<leftarrow> STAILQ_EMPTY head2 m;
     (if e then Some m else do {
        h1 \<leftarrow> q_head head1 m;
        f2 \<leftarrow> STAILQ_FIRST head2 m;
        m \<leftarrow> stq_link_set (stqh_last h1) f2 m;
        h2 \<leftarrow> q_head head2 m;
        m \<leftarrow> q_set_head head1 (stqh_last_update (\<lambda>_. stqh_last h2)) m;
        STAILQ_INIT head2 m
     })
   }"

definition STAILQ_INSERT_AFTER :: "addr \<Rightarrow> addr \<Rightarrow> addr \<Rightarrow> stqmem \<Rightarrow> stqmem option" where
  "STAILQ_INSERT_AFTER head tqelm elm m = do {
     n \<leftarrow> STAILQ_NEXT tqelm m;
     m \<leftarrow> q_set_entry elm (stqe_next_update (\<lambda>_. n)) m;
     m \<leftarrow> (if n = NULL then q_set_head head (stqh_last_update (\<lambda>_. Link_Next elm)) m else Some m);
     q_set_entry tqelm (stqe_next_update (\<lambda>_. elm)) m
   }"

definition STAILQ_INSERT_HEAD :: "addr \<Rightarrow> addr \<Rightarrow> stqmem \<Rightarrow> stqmem option" where
  "STAILQ_INSERT_HEAD head elm m = do {
     f \<leftarrow> STAILQ_FIRST head m;
     m \<leftarrow> q_set_entry elm (stqe_next_update (\<lambda>_. f)) m;
     m \<leftarrow> (if f = NULL then q_set_head head (stqh_last_update (\<lambda>_. Link_Next elm)) m else Some m);
     q_set_head head (stqh_first_update (\<lambda>_. elm)) m
   }"

definition STAILQ_INSERT_TAIL :: "addr \<Rightarrow> addr \<Rightarrow> stqmem \<Rightarrow> stqmem option" where
  "STAILQ_INSERT_TAIL head elm m = do {
     m \<leftarrow> q_set_entry elm (stqe_next_update (\<lambda>_. NULL)) m;
     h \<leftarrow> q_head head m;
     m \<leftarrow> stq_link_set (stqh_last h) elm m;
     q_set_head head (stqh_last_update (\<lambda>_. Link_Next elm)) m
   }"

text \<open>
  \<open>STAILQ_LAST\<close> subtracts the offset of the link from \<open>stqh_last\<close>, which gives an element only when
  this is the address of an element's link.
\<close>

definition STAILQ_LAST :: "addr \<Rightarrow> stqmem \<Rightarrow> addr option" where
  "STAILQ_LAST head m = do {
     h \<leftarrow> q_head head m;
     e \<leftarrow> STAILQ_EMPTY head m;
     (if e then Some NULL else case stqh_last h of Link_Next a \<Rightarrow> Some a | _ \<Rightarrow> None)
   }"

definition STAILQ_REMOVE_HEAD :: "addr \<Rightarrow> stqmem \<Rightarrow> stqmem option" where
  "STAILQ_REMOVE_HEAD head m = do {
     old \<leftarrow> STAILQ_FIRST head m;
     n \<leftarrow> STAILQ_NEXT old m;
     m \<leftarrow> q_set_head head (stqh_first_update (\<lambda>_. n)) m;
     m \<leftarrow> (if n = NULL then q_set_head head (stqh_last_update (\<lambda>_. Link_First head)) m else Some m);
     q_set_entry old (stqe_next_update (\<lambda>_. NULL)) m
   }"

definition STAILQ_REMOVE_AFTER :: "addr \<Rightarrow> addr \<Rightarrow> stqmem \<Rightarrow> stqmem option" where
  "STAILQ_REMOVE_AFTER head elm m = do {
     old \<leftarrow> STAILQ_NEXT elm m;
     n \<leftarrow> STAILQ_NEXT old m;
     m \<leftarrow> q_set_entry elm (stqe_next_update (\<lambda>_. n)) m;
     m \<leftarrow> (if n = NULL then q_set_head head (stqh_last_update (\<lambda>_. Link_Next elm)) m else Some m);
     q_set_entry old (stqe_next_update (\<lambda>_. NULL)) m
   }"

definition STAILQ_REMOVE :: "addr \<Rightarrow> addr \<Rightarrow> stqmem \<Rightarrow> stqmem option" where
  "STAILQ_REMOVE head elm m = do {
     f \<leftarrow> STAILQ_FIRST head m;
     (if f = elm then STAILQ_REMOVE_HEAD head m
      else do { curelm \<leftarrow> find_before STAILQ_NEXT elm f m; STAILQ_REMOVE_AFTER head curelm m })
   }"

definition STAILQ_SWAP :: "addr \<Rightarrow> addr \<Rightarrow> stqmem \<Rightarrow> stqmem option" where
  "STAILQ_SWAP head1 head2 m = do {
     h1 \<leftarrow> q_head head1 m;
     h2 \<leftarrow> q_head head2 m;
     m \<leftarrow> q_set_head head1 (\<lambda>h. h\<lparr>stqh_first := stqh_first h2, stqh_last := stqh_last h2\<rparr>) m;
     m \<leftarrow> q_set_head head2 (\<lambda>h. h\<lparr>stqh_first := stqh_first h1, stqh_last := stqh_last h1\<rparr>) m;
     e1 \<leftarrow> STAILQ_EMPTY head1 m;
     m \<leftarrow> (if e1 then q_set_head head1 (stqh_last_update (\<lambda>_. Link_First head1)) m else Some m);
     e2 \<leftarrow> STAILQ_EMPTY head2 m;
     (if e2 then q_set_head head2 (stqh_last_update (\<lambda>_. Link_First head2)) m else Some m)
   }"

definition STAILQ_FOREACH :: "addr \<Rightarrow> stqmem \<Rightarrow> addr list option" where
  "STAILQ_FOREACH head m = do { f \<leftarrow> STAILQ_FIRST head m; for_each STAILQ_NEXT NULL f m }"

definition STAILQ_FOREACH_SAFE :: "addr \<Rightarrow> (addr \<Rightarrow> stqmem \<Rightarrow> stqmem option) \<Rightarrow> stqmem \<Rightarrow> stqmem option" where
  "STAILQ_FOREACH_SAFE head body m = do { f \<leftarrow> STAILQ_FIRST head m; for_each_safe STAILQ_NEXT body f m }"

section \<open>The queue\<close>

abbreviation (input) stq_entry :: "unit \<Rightarrow> addr \<Rightarrow> stqentry" where
  "stq_entry l n \<equiv> \<lparr>stqe_next = n\<rparr>"

definition is_stailq :: "stqmem \<Rightarrow> addr \<Rightarrow> addr list \<Rightarrow> bool" where
  "is_stailq m head xs \<longleftrightarrow>
     q_heads m head = Some \<lparr>stqh_first = first_of xs NULL, stqh_last = last_of Link_Next (Link_First head) xs\<rparr>
     \<and> chain_seg (\<lambda>_. ()) stq_entry (q_entries m) () xs NULL \<and> distinct xs"

lemmas stq_access = q_access STAILQ_FIRST_def STAILQ_NEXT_def STAILQ_EMPTY_def stq_link_set_def

interpretation stqc: chain STAILQ_FIRST STAILQ_NEXT "\<lambda>_. NULL" is_stailq
  by unfold_locales (auto simp: is_stailq_def stq_access dest: chain_seg_not_null)

lemma STAILQ_INIT_ok:
  "q_heads m head \<noteq> None \<Longrightarrow> \<exists>m'. STAILQ_INIT head m = Some m' \<and> is_stailq m' head [] \<and> q_only {} {head} m m'"
  by (auto simp: STAILQ_INIT_def is_stailq_def q_only_def stq_access)

lemma STAILQ_EMPTY_ok: "is_stailq m head xs \<Longrightarrow> STAILQ_EMPTY head m = Some (xs = [])"
  by (cases xs) (auto simp: is_stailq_def stq_access)

lemma STAILQ_LAST_ok: "is_stailq m head xs \<Longrightarrow> STAILQ_LAST head m = Some (if xs = [] then NULL else last xs)"
  using STAILQ_EMPTY_ok [of m head xs]
  by (cases xs rule: rev_cases) (auto simp: STAILQ_LAST_def is_stailq_def q_head_def)

lemma STAILQ_INSERT_HEAD_ok:
  assumes "is_stailq m head xs" "is_qentry m x" "x \<notin> set xs"
  shows "\<exists>m'. STAILQ_INSERT_HEAD head x m = Some m' \<and> is_stailq m' head (x # xs) \<and> q_only {x} {head} m m'"
  using assms
  by (cases xs) (auto simp: STAILQ_INSERT_HEAD_def is_stailq_def is_qentry_def q_only_def stq_access)

lemma STAILQ_INSERT_TAIL_ok:
  assumes "is_stailq m head xs" "is_qentry m x" "x \<notin> set xs"
  shows "\<exists>m'. STAILQ_INSERT_TAIL head x m = Some m' \<and> is_stailq m' head (xs @ [x])
              \<and> q_only (insert x (set xs)) {head} m m'"
  using assms
  by (cases xs rule: rev_cases)
    (auto simp: STAILQ_INSERT_TAIL_def is_stailq_def is_qentry_def q_only_def stq_access)

lemma STAILQ_INSERT_AFTER_ok:
  assumes "is_stailq m head (xs @ y # ys)" "is_qentry m x" "x \<notin> set (xs @ y # ys)"
  shows "\<exists>m'. STAILQ_INSERT_AFTER head y x m = Some m' \<and> is_stailq m' head (xs @ y # x # ys)
              \<and> q_only {x, y} {head} m m'"
  using assms
  by (cases ys) (auto simp: STAILQ_INSERT_AFTER_def is_stailq_def is_qentry_def q_only_def stq_access)

lemma STAILQ_REMOVE_HEAD_ok:
  assumes "is_stailq m head (x # xs)"
  shows "\<exists>m'. STAILQ_REMOVE_HEAD head m = Some m' \<and> is_stailq m' head xs
              \<and> STAILQ_NEXT x m' = Some NULL \<and> q_only {x} {head} m m'"
  using assms by (cases xs) (auto simp: STAILQ_REMOVE_HEAD_def is_stailq_def q_only_def stq_access)

lemma STAILQ_REMOVE_AFTER_ok:
  assumes "is_stailq m head (xs @ y # x # ys)"
  shows "\<exists>m'. STAILQ_REMOVE_AFTER head y m = Some m' \<and> is_stailq m' head (xs @ y # ys)
              \<and> STAILQ_NEXT x m' = Some NULL \<and> q_only {x, y} {head} m m'"
  using assms by (cases ys) (auto simp: STAILQ_REMOVE_AFTER_def is_stailq_def q_only_def stq_access)

lemma STAILQ_REMOVE_ok:
  assumes q: "is_stailq m head (xs @ x # ys)"
  shows "\<exists>m'. STAILQ_REMOVE head x m = Some m' \<and> is_stailq m' head (xs @ ys) \<and> STAILQ_NEXT x m' = Some NULL
              \<and> q_only (set (xs @ x # ys)) {head} m m'"
proof (cases xs rule: rev_cases)
  case Nil
  then show ?thesis
    using STAILQ_REMOVE_HEAD_ok [of m head x ys] stqc.get_first [OF q] q
    by (auto simp: STAILQ_REMOVE_def q_only_def)
next
  case (snoc zs y)
  have "find_before STAILQ_NEXT x (first_of xs NULL) m = Some y"
    using stqc.find_before_from [of m head "[]" zs y x ys] q snoc by simp
  moreover have "first_of xs NULL \<noteq> x"
    using stqc.elements [OF q] snoc by (cases zs) auto
  moreover have "first_of (xs @ x # ys) NULL = first_of xs NULL" using snoc by (cases zs) auto
  moreover obtain m' where "STAILQ_REMOVE_AFTER head y m = Some m'" "is_stailq m' head (xs @ ys)"
    "STAILQ_NEXT x m' = Some NULL" "q_only {x, y} {head} m m'"
    using STAILQ_REMOVE_AFTER_ok [of m head zs y x ys] q snoc by auto
  ultimately show ?thesis
    using stqc.get_first [OF q] snoc by (auto simp: STAILQ_REMOVE_def q_only_def)
qed

interpretation stq: scrubbed_chain STAILQ_FIRST STAILQ_NEXT is_stailq STAILQ_REMOVE
proof unfold_locales
  fix m q xs x ys
  assume q: "is_stailq m q (xs @ x # ys)"
  note removed = STAILQ_REMOVE_ok [OF q]
  then show "\<exists>m'. STAILQ_REMOVE q x m = Some m' \<and> is_stailq m' q (xs @ ys)" by blast
  fix m'
  assume "STAILQ_REMOVE q x m = Some m'"
  with removed show "STAILQ_NEXT x m' = Some NULL" by auto
qed

lemma STAILQ_FOREACH_ok: "is_stailq m head xs \<Longrightarrow> STAILQ_FOREACH head m = Some xs"
  unfolding STAILQ_FOREACH_def by (rule stqc.for_each_all)

lemma STAILQ_CONCAT_ok:
  assumes "is_stailq m head1 xs" "is_stailq m head2 ys" "head1 \<noteq> head2" "set xs \<inter> set ys = {}"
  shows "\<exists>m'. STAILQ_CONCAT head1 head2 m = Some m' \<and> is_stailq m' head1 (xs @ ys) \<and> is_stailq m' head2 []
              \<and> q_only (set xs) {head1, head2} m m'"
  using assms
  by (cases xs rule: rev_cases; cases ys)
    (auto simp: STAILQ_CONCAT_def STAILQ_INIT_def is_stailq_def q_only_def stq_access)

lemma STAILQ_SWAP_ok:
  assumes "is_stailq m head1 xs" "is_stailq m head2 ys" "head1 \<noteq> head2"
  shows "\<exists>m'. STAILQ_SWAP head1 head2 m = Some m' \<and> is_stailq m' head1 ys \<and> is_stailq m' head2 xs
              \<and> q_only {} {head1, head2} m m'"
  using assms
  by (cases xs; cases ys) (auto simp: STAILQ_SWAP_def is_stailq_def q_only_def stq_access)

end
