(* ===== verification/Listq.thy ===== *)
theory Listq
  imports Qmem
begin

text \<open>
  The doubly-linked list of src/cs_queue.h (\<open>LIST\<close>), each macro refined to its effect on a list.  Its head
  is one pointer; an entry also holds the address of the pointer that points to it, so an element is
  removed without the head.  The checks \<open>QMD_LIST_CHECK\<close> are empty in the build (see Queue_Checks).
\<close>

section \<open>The macros\<close>

record lentry =
  le_next :: addr
  le_prev :: link

record lhead =
  lh_first :: addr

type_synonym lmem = "(lentry, lhead) qmem"

definition list_link_set :: "link \<Rightarrow> addr \<Rightarrow> lmem \<Rightarrow> lmem option" where
  "list_link_set l v m = (case l of
     Link_Null \<Rightarrow> None
   | Link_First head \<Rightarrow> q_set_head head (lh_first_update (\<lambda>_. v)) m
   | Link_Next a \<Rightarrow> q_set_entry a (le_next_update (\<lambda>_. v)) m)"

definition LIST_FIRST :: "addr \<Rightarrow> lmem \<Rightarrow> addr option" where
  "LIST_FIRST head m = map_option lh_first (q_head head m)"

definition LIST_NEXT :: "addr \<Rightarrow> lmem \<Rightarrow> addr option" where
  "LIST_NEXT elm m = map_option le_next (q_entry elm m)"

definition LIST_EMPTY :: "addr \<Rightarrow> lmem \<Rightarrow> bool option" where
  "LIST_EMPTY head m = map_option (\<lambda>h. lh_first h = NULL) (q_head head m)"

definition LIST_INIT :: "addr \<Rightarrow> lmem \<Rightarrow> lmem option" where
  "LIST_INIT head m = q_set_head head (lh_first_update (\<lambda>_. NULL)) m"

definition LIST_INSERT_AFTER :: "addr \<Rightarrow> addr \<Rightarrow> lmem \<Rightarrow> lmem option" where
  "LIST_INSERT_AFTER listelm elm m = do {
     n \<leftarrow> LIST_NEXT listelm m;
     m \<leftarrow> q_set_entry elm (le_next_update (\<lambda>_. n)) m;
     m \<leftarrow> (if n \<noteq> NULL
           then do {
             n \<leftarrow> LIST_NEXT listelm m;
             q_set_entry n (le_prev_update (\<lambda>_. Link_Next elm)) m
           }
           else Some m);
     m \<leftarrow> q_set_entry listelm (le_next_update (\<lambda>_. elm)) m;
     q_set_entry elm (le_prev_update (\<lambda>_. Link_Next listelm)) m
   }"

definition LIST_INSERT_BEFORE :: "addr \<Rightarrow> addr \<Rightarrow> lmem \<Rightarrow> lmem option" where
  "LIST_INSERT_BEFORE listelm elm m = do {
     le \<leftarrow> q_entry listelm m;
     m \<leftarrow> q_set_entry elm (le_prev_update (\<lambda>_. le_prev le)) m;
     m \<leftarrow> q_set_entry elm (le_next_update (\<lambda>_. listelm)) m;
     le \<leftarrow> q_entry listelm m;
     m \<leftarrow> list_link_set (le_prev le) elm m;
     q_set_entry listelm (le_prev_update (\<lambda>_. Link_Next elm)) m
   }"

definition LIST_INSERT_HEAD :: "addr \<Rightarrow> addr \<Rightarrow> lmem \<Rightarrow> lmem option" where
  "LIST_INSERT_HEAD head elm m = do {
     f \<leftarrow> LIST_FIRST head m;
     m \<leftarrow> q_set_entry elm (le_next_update (\<lambda>_. f)) m;
     m \<leftarrow> (if f \<noteq> NULL then q_set_entry f (le_prev_update (\<lambda>_. Link_Next elm)) m else Some m);
     m \<leftarrow> q_set_head head (lh_first_update (\<lambda>_. elm)) m;
     q_set_entry elm (le_prev_update (\<lambda>_. Link_First head)) m
   }"

definition LIST_REMOVE :: "addr \<Rightarrow> lmem \<Rightarrow> lmem option" where
  "LIST_REMOVE elm m = do {
     e \<leftarrow> q_entry elm m;
     m \<leftarrow> (if le_next e \<noteq> NULL
           then q_set_entry (le_next e) (le_prev_update (\<lambda>_. le_prev e)) m
           else Some m);
     e \<leftarrow> q_entry elm m;
     m \<leftarrow> list_link_set (le_prev e) (le_next e) m;
     m \<leftarrow> q_set_entry elm (le_next_update (\<lambda>_. NULL)) m;
     q_set_entry elm (le_prev_update (\<lambda>_. Link_Null)) m
   }"

definition LIST_SWAP :: "addr \<Rightarrow> addr \<Rightarrow> lmem \<Rightarrow> lmem option" where
  "LIST_SWAP head1 head2 m = do {
     f1 \<leftarrow> LIST_FIRST head1 m;
     f2 \<leftarrow> LIST_FIRST head2 m;
     m \<leftarrow> q_set_head head1 (lh_first_update (\<lambda>_. f2)) m;
     m \<leftarrow> q_set_head head2 (lh_first_update (\<lambda>_. f1)) m;
     f1 \<leftarrow> LIST_FIRST head1 m;
     m \<leftarrow> (if f1 \<noteq> NULL then q_set_entry f1 (le_prev_update (\<lambda>_. Link_First head1)) m else Some m);
     f2 \<leftarrow> LIST_FIRST head2 m;
     (if f2 \<noteq> NULL then q_set_entry f2 (le_prev_update (\<lambda>_. Link_First head2)) m else Some m)
   }"

definition LIST_FOREACH :: "addr \<Rightarrow> lmem \<Rightarrow> addr list option" where
  "LIST_FOREACH head m = do { f \<leftarrow> LIST_FIRST head m; for_each LIST_NEXT NULL f m }"

definition LIST_FOREACH_SAFE :: "addr \<Rightarrow> (addr \<Rightarrow> lmem \<Rightarrow> lmem option) \<Rightarrow> lmem \<Rightarrow> lmem option" where
  "LIST_FOREACH_SAFE head body m = do { f \<leftarrow> LIST_FIRST head m; for_each_safe LIST_NEXT body f m }"

section \<open>The list\<close>

abbreviation (input) l_entry :: "link \<Rightarrow> addr \<Rightarrow> lentry" where
  "l_entry l n \<equiv> \<lparr>le_next = n, le_prev = l\<rparr>"

definition is_list :: "lmem \<Rightarrow> addr \<Rightarrow> addr list \<Rightarrow> bool" where
  "is_list m head xs \<longleftrightarrow>
     q_heads m head = Some \<lparr>lh_first = first_of xs NULL\<rparr>
     \<and> chain_seg Link_Next l_entry (q_entries m) (Link_First head) xs NULL \<and> distinct xs"

lemmas list_access = q_access LIST_FIRST_def LIST_NEXT_def LIST_EMPTY_def list_link_set_def

lemma LIST_INIT_ok:
  "q_heads m head \<noteq> None \<Longrightarrow> \<exists>m'. LIST_INIT head m = Some m' \<and> is_list m' head [] \<and> q_only {} {head} m m'"
  by (auto simp: LIST_INIT_def is_list_def q_only_def list_access)

lemma LIST_EMPTY_ok: "is_list m head xs \<Longrightarrow> LIST_EMPTY head m = Some (xs = [])"
  by (cases xs) (auto simp: is_list_def list_access)

lemma LIST_INSERT_HEAD_ok:
  assumes "is_list m head xs" "is_qentry m x" "x \<notin> set xs"
  shows "\<exists>m'. LIST_INSERT_HEAD head x m = Some m' \<and> is_list m' head (x # xs)
              \<and> q_only (insert x (set xs)) {head} m m'"
  using assms
  by (cases xs) (auto simp: LIST_INSERT_HEAD_def is_list_def is_qentry_def q_only_def list_access)

lemma LIST_INSERT_AFTER_ok:
  assumes "is_list m head (xs @ y # ys)" "is_qentry m x" "x \<notin> set (xs @ y # ys)"
  shows "\<exists>m'. LIST_INSERT_AFTER y x m = Some m' \<and> is_list m' head (xs @ y # x # ys)
              \<and> q_only (insert x (set (xs @ y # ys))) {} m m'"
  using assms
  by (cases ys) (auto simp: LIST_INSERT_AFTER_def is_list_def is_qentry_def q_only_def list_access)

lemma LIST_INSERT_BEFORE_ok:
  assumes "is_list m head (xs @ y # ys)" "is_qentry m x" "x \<notin> set (xs @ y # ys)"
  shows "\<exists>m'. LIST_INSERT_BEFORE y x m = Some m' \<and> is_list m' head (xs @ x # y # ys)
              \<and> q_only (insert x (set (xs @ y # ys))) {head} m m'"
  using assms
  by (cases xs rule: rev_cases)
    (auto simp: LIST_INSERT_BEFORE_def is_list_def is_qentry_def q_only_def list_access)

lemma LIST_REMOVE_ok:
  assumes "is_list m head (xs @ x # ys)"
  shows "\<exists>m'. LIST_REMOVE x m = Some m' \<and> is_list m' head (xs @ ys)
              \<and> q_entries m' x = Some \<lparr>le_next = NULL, le_prev = Link_Null\<rparr>
              \<and> q_only (set (xs @ x # ys)) {head} m m'"
  using assms
  by (cases xs rule: rev_cases; cases ys) (auto simp: LIST_REMOVE_def is_list_def q_only_def list_access)

lemma LIST_SWAP_ok:
  assumes "is_list m head1 xs" "is_list m head2 ys" "head1 \<noteq> head2" "set xs \<inter> set ys = {}"
  shows "\<exists>m'. LIST_SWAP head1 head2 m = Some m' \<and> is_list m' head1 ys \<and> is_list m' head2 xs
              \<and> q_only (set xs \<union> set ys) {head1, head2} m m'"
  using assms
  by (cases xs; cases ys) (auto simp: LIST_SWAP_def is_list_def q_only_def list_access)

interpretation lq: scrubbed_chain LIST_FIRST LIST_NEXT is_list "\<lambda>_. LIST_REMOVE"
proof
  fix m q xs x ys
  assume q: "is_list m q (xs @ x # ys)"
  note removed = LIST_REMOVE_ok [OF q]
  then show "\<exists>m'. LIST_REMOVE x m = Some m' \<and> is_list m' q (xs @ ys)" by blast
  fix m'
  assume "LIST_REMOVE x m = Some m'"
  with removed show "LIST_NEXT x m' = Some NULL" by (auto simp: list_access)
qed (auto simp: is_list_def list_access dest: chain_seg_not_null)

lemma LIST_FOREACH_ok: "is_list m head xs \<Longrightarrow> LIST_FOREACH head m = Some xs"
  unfolding LIST_FOREACH_def by (rule lq.for_each_all)

end
