(* ===== verification/Circleq.thy ===== *)
theory Circleq
  imports Qmem
begin

text \<open>
  The circular queue of src/cs_queue.h (\<open>CIRCLEQ\<close>), each macro refined to its effect on a list.  Both links
  of an entry are elements, except that the ends point to the head, cast to the type of an element.
\<close>

section \<open>The macros\<close>

record cqentry =
  cqe_next :: addr
  cqe_prev :: addr

record cqhead =
  cqh_first :: addr
  cqh_last :: addr

type_synonym cqmem = "(cqentry, cqhead) qmem"

definition CIRCLEQ_EMPTY :: "addr \<Rightarrow> cqmem \<Rightarrow> bool option" where
  "CIRCLEQ_EMPTY head m = map_option (\<lambda>h. cqh_first h = head) (q_head head m)"

definition CIRCLEQ_FIRST :: "addr \<Rightarrow> cqmem \<Rightarrow> addr option" where
  "CIRCLEQ_FIRST head m = map_option cqh_first (q_head head m)"

definition CIRCLEQ_LAST :: "addr \<Rightarrow> cqmem \<Rightarrow> addr option" where
  "CIRCLEQ_LAST head m = map_option cqh_last (q_head head m)"

definition CIRCLEQ_NEXT :: "addr \<Rightarrow> cqmem \<Rightarrow> addr option" where
  "CIRCLEQ_NEXT elm m = map_option cqe_next (q_entry elm m)"

definition CIRCLEQ_PREV :: "addr \<Rightarrow> cqmem \<Rightarrow> addr option" where
  "CIRCLEQ_PREV elm m = map_option cqe_prev (q_entry elm m)"

definition CIRCLEQ_INIT :: "addr \<Rightarrow> cqmem \<Rightarrow> cqmem option" where
  "CIRCLEQ_INIT head m = do {
     m \<leftarrow> q_set_head head (cqh_first_update (\<lambda>_. head)) m;
     q_set_head head (cqh_last_update (\<lambda>_. head)) m
   }"

definition CIRCLEQ_INSERT_AFTER :: "addr \<Rightarrow> addr \<Rightarrow> addr \<Rightarrow> cqmem \<Rightarrow> cqmem option" where
  "CIRCLEQ_INSERT_AFTER head listelm elm m = do {
     n \<leftarrow> CIRCLEQ_NEXT listelm m;
     m \<leftarrow> q_set_entry elm (cqe_next_update (\<lambda>_. n)) m;
     m \<leftarrow> q_set_entry elm (cqe_prev_update (\<lambda>_. listelm)) m;
     n \<leftarrow> CIRCLEQ_NEXT listelm m;
     m \<leftarrow> (if n = head
           then q_set_head head (cqh_last_update (\<lambda>_. elm)) m
           else q_set_entry n (cqe_prev_update (\<lambda>_. elm)) m);
     q_set_entry listelm (cqe_next_update (\<lambda>_. elm)) m
   }"

definition CIRCLEQ_INSERT_BEFORE :: "addr \<Rightarrow> addr \<Rightarrow> addr \<Rightarrow> cqmem \<Rightarrow> cqmem option" where
  "CIRCLEQ_INSERT_BEFORE head listelm elm m = do {
     m \<leftarrow> q_set_entry elm (cqe_next_update (\<lambda>_. listelm)) m;
     p \<leftarrow> CIRCLEQ_PREV listelm m;
     m \<leftarrow> q_set_entry elm (cqe_prev_update (\<lambda>_. p)) m;
     p \<leftarrow> CIRCLEQ_PREV listelm m;
     m \<leftarrow> (if p = head
           then q_set_head head (cqh_first_update (\<lambda>_. elm)) m
           else q_set_entry p (cqe_next_update (\<lambda>_. elm)) m);
     q_set_entry listelm (cqe_prev_update (\<lambda>_. elm)) m
   }"

definition CIRCLEQ_INSERT_HEAD :: "addr \<Rightarrow> addr \<Rightarrow> cqmem \<Rightarrow> cqmem option" where
  "CIRCLEQ_INSERT_HEAD head elm m = do {
     f \<leftarrow> CIRCLEQ_FIRST head m;
     m \<leftarrow> q_set_entry elm (cqe_next_update (\<lambda>_. f)) m;
     m \<leftarrow> q_set_entry elm (cqe_prev_update (\<lambda>_. head)) m;
     l \<leftarrow> CIRCLEQ_LAST head m;
     m \<leftarrow> (if l = head
           then q_set_head head (cqh_last_update (\<lambda>_. elm)) m
           else do { f \<leftarrow> CIRCLEQ_FIRST head m; q_set_entry f (cqe_prev_update (\<lambda>_. elm)) m });
     q_set_head head (cqh_first_update (\<lambda>_. elm)) m
   }"

definition CIRCLEQ_INSERT_TAIL :: "addr \<Rightarrow> addr \<Rightarrow> cqmem \<Rightarrow> cqmem option" where
  "CIRCLEQ_INSERT_TAIL head elm m = do {
     m \<leftarrow> q_set_entry elm (cqe_next_update (\<lambda>_. head)) m;
     l \<leftarrow> CIRCLEQ_LAST head m;
     m \<leftarrow> q_set_entry elm (cqe_prev_update (\<lambda>_. l)) m;
     f \<leftarrow> CIRCLEQ_FIRST head m;
     m \<leftarrow> (if f = head
           then q_set_head head (cqh_first_update (\<lambda>_. elm)) m
           else do { l \<leftarrow> CIRCLEQ_LAST head m; q_set_entry l (cqe_next_update (\<lambda>_. elm)) m });
     q_set_head head (cqh_last_update (\<lambda>_. elm)) m
   }"

definition CIRCLEQ_REMOVE :: "addr \<Rightarrow> addr \<Rightarrow> cqmem \<Rightarrow> cqmem option" where
  "CIRCLEQ_REMOVE head elm m = do {
     e \<leftarrow> q_entry elm m;
     m \<leftarrow> (if cqe_next e = head
           then q_set_head head (cqh_last_update (\<lambda>_. cqe_prev e)) m
           else q_set_entry (cqe_next e) (cqe_prev_update (\<lambda>_. cqe_prev e)) m);
     e \<leftarrow> q_entry elm m;
     (if cqe_prev e = head
      then q_set_head head (cqh_first_update (\<lambda>_. cqe_next e)) m
      else q_set_entry (cqe_prev e) (cqe_next_update (\<lambda>_. cqe_next e)) m)
   }"

definition CIRCLEQ_FOREACH :: "addr \<Rightarrow> cqmem \<Rightarrow> addr list option" where
  "CIRCLEQ_FOREACH head m = do { f \<leftarrow> CIRCLEQ_FIRST head m; for_each CIRCLEQ_NEXT head f m }"

definition CIRCLEQ_FOREACH_REVERSE :: "addr \<Rightarrow> cqmem \<Rightarrow> addr list option" where
  "CIRCLEQ_FOREACH_REVERSE head m = do { l \<leftarrow> CIRCLEQ_LAST head m; for_each CIRCLEQ_PREV head l m }"

section \<open>The queue\<close>

abbreviation (input) cq_entry :: "addr \<Rightarrow> addr \<Rightarrow> cqentry" where
  "cq_entry p n \<equiv> \<lparr>cqe_next = n, cqe_prev = p\<rparr>"

definition is_circleq :: "cqmem \<Rightarrow> addr \<Rightarrow> addr list \<Rightarrow> bool" where
  "is_circleq m head xs \<longleftrightarrow>
     q_heads m head = Some \<lparr>cqh_first = first_of xs head, cqh_last = last_of id head xs\<rparr>
     \<and> chain_seg id cq_entry (q_entries m) head xs head \<and> distinct xs \<and> head \<notin> set xs"

lemmas cq_access = q_access CIRCLEQ_FIRST_def CIRCLEQ_LAST_def CIRCLEQ_NEXT_def CIRCLEQ_PREV_def
  CIRCLEQ_EMPTY_def

lemma last_of_id: "last_of id l xs = first_of (rev xs) l"
  by (cases xs rule: rev_cases) auto

lemma ends_not_head:
  "head \<notin> set xs \<Longrightarrow> y \<noteq> head \<Longrightarrow> first_of xs y \<noteq> head"
  "head \<notin> set xs \<Longrightarrow> y \<noteq> head \<Longrightarrow> last_of id y xs \<noteq> head"
  by (cases xs, auto) (cases xs rule: rev_cases, auto)

interpretation cq: chain CIRCLEQ_FIRST CIRCLEQ_NEXT "\<lambda>q. q" is_circleq
  by unfold_locales (auto simp: is_circleq_def cq_access)

interpretation cqr: chain CIRCLEQ_LAST CIRCLEQ_PREV "\<lambda>q. q" "\<lambda>m q xs. is_circleq m q (rev xs)"
  by unfold_locales (auto simp: is_circleq_def cq_access last_of_id)

lemma CIRCLEQ_INIT_ok:
  "q_heads m head \<noteq> None \<Longrightarrow>
   \<exists>m'. CIRCLEQ_INIT head m = Some m' \<and> is_circleq m' head [] \<and> q_only {} {head} m m'"
  by (auto simp: CIRCLEQ_INIT_def is_circleq_def q_only_def cq_access)

lemma CIRCLEQ_EMPTY_ok: "is_circleq m head xs \<Longrightarrow> CIRCLEQ_EMPTY head m = Some (xs = [])"
  by (cases xs) (auto simp: is_circleq_def cq_access)

lemma CIRCLEQ_FOREACH_ok: "is_circleq m head xs \<Longrightarrow> CIRCLEQ_FOREACH head m = Some xs"
  unfolding CIRCLEQ_FOREACH_def by (rule cq.for_each_all)

lemma CIRCLEQ_FOREACH_REVERSE_ok: "is_circleq m head xs \<Longrightarrow> CIRCLEQ_FOREACH_REVERSE head m = Some (rev xs)"
  unfolding CIRCLEQ_FOREACH_REVERSE_def using cqr.for_each_all [of m head "rev xs"] by simp

lemma CIRCLEQ_INSERT_HEAD_ok:
  assumes "is_circleq m head xs" "is_qentry m x" "x \<notin> set xs" "x \<noteq> head"
  shows "\<exists>m'. CIRCLEQ_INSERT_HEAD head x m = Some m' \<and> is_circleq m' head (x # xs)
              \<and> q_only (insert x (set xs)) {head} m m'"
  using assms
  by (cases xs) (auto simp: CIRCLEQ_INSERT_HEAD_def is_circleq_def is_qentry_def q_only_def cq_access ends_not_head)

lemma CIRCLEQ_INSERT_TAIL_ok:
  assumes "is_circleq m head xs" "is_qentry m x" "x \<notin> set xs" "x \<noteq> head"
  shows "\<exists>m'. CIRCLEQ_INSERT_TAIL head x m = Some m' \<and> is_circleq m' head (xs @ [x])
              \<and> q_only (insert x (set xs)) {head} m m'"
  using assms
  by (cases xs rule: rev_cases)
    (auto simp: CIRCLEQ_INSERT_TAIL_def is_circleq_def is_qentry_def q_only_def cq_access ends_not_head)

lemma CIRCLEQ_INSERT_AFTER_ok:
  assumes "is_circleq m head (xs @ y # ys)" "is_qentry m x" "x \<notin> set (xs @ y # ys)" "x \<noteq> head"
  shows "\<exists>m'. CIRCLEQ_INSERT_AFTER head y x m = Some m' \<and> is_circleq m' head (xs @ y # x # ys)
              \<and> q_only (insert x (set (xs @ y # ys))) {head} m m'"
  using assms
  by (cases ys) (auto simp: CIRCLEQ_INSERT_AFTER_def is_circleq_def is_qentry_def q_only_def cq_access)

lemma CIRCLEQ_INSERT_BEFORE_ok:
  assumes "is_circleq m head (xs @ y # ys)" "is_qentry m x" "x \<notin> set (xs @ y # ys)" "x \<noteq> head"
  shows "\<exists>m'. CIRCLEQ_INSERT_BEFORE head y x m = Some m' \<and> is_circleq m' head (xs @ x # y # ys)
              \<and> q_only (insert x (set (xs @ y # ys))) {head} m m'"
  using assms
  by (cases xs rule: rev_cases)
    (auto simp: CIRCLEQ_INSERT_BEFORE_def is_circleq_def is_qentry_def q_only_def cq_access)

lemma CIRCLEQ_REMOVE_ok:
  assumes "is_circleq m head (xs @ x # ys)"
  shows "\<exists>m'. CIRCLEQ_REMOVE head x m = Some m' \<and> is_circleq m' head (xs @ ys)
              \<and> q_entries m' x = q_entries m x \<and> q_only (set (xs @ x # ys)) {head} m m'"
  using assms
  by (cases xs rule: rev_cases; cases ys)
    (auto simp: CIRCLEQ_REMOVE_def is_circleq_def q_only_def cq_access)

end
