(* ===== verification/Waitq.thy ===== *)
theory Waitq
  imports Tailq
begin

text \<open>
  The four functions at the end of src/cs_scheduler.c through which the schedulers use a tail queue
  (\<open>insert_tail\<close>, \<open>insert_head\<close>, \<open>empty\<close>, \<open>pop\<close>), and the contract \<open>wait_queue\<close> they fulfil.  The
  contract is what the scheduler rests on: whatever its memory looks like, a queue is a list, the two
  insertions add a new element at one end, \<open>pop\<close> takes the first element or returns null, and an
  operation leaves the other queues alone.
\<close>

section \<open>The functions\<close>

definition insert_tail :: "addr \<Rightarrow> addr \<Rightarrow> tqmem \<Rightarrow> tqmem option" where
  "insert_tail queue coro m = TAILQ_INSERT_TAIL queue coro m"

definition insert_head :: "addr \<Rightarrow> addr \<Rightarrow> tqmem \<Rightarrow> tqmem option" where
  "insert_head queue coro m = TAILQ_INSERT_HEAD queue coro m"

definition empty_queue :: "addr \<Rightarrow> tqmem \<Rightarrow> bool option" where
  "empty_queue queue m = TAILQ_EMPTY queue m"

definition pop :: "addr \<Rightarrow> tqmem \<Rightarrow> (addr \<times> tqmem) option" where
  "pop queue m = do {
     h \<leftarrow> TAILQ_FIRST queue m;
     (if h = NULL then Some (NULL, m)
      else do { m \<leftarrow> TAILQ_REMOVE queue h m; Some (h, m) })
   }"

section \<open>The contract\<close>

locale wait_queue =
  fixes holds :: "'m \<Rightarrow> addr \<Rightarrow> addr list \<Rightarrow> bool"
    and entry :: "'m \<Rightarrow> addr \<Rightarrow> bool"
    and only :: "addr set \<Rightarrow> addr set \<Rightarrow> 'm \<Rightarrow> 'm \<Rightarrow> bool"
    and put_tail :: "addr \<Rightarrow> addr \<Rightarrow> 'm \<Rightarrow> 'm option"
    and put_head :: "addr \<Rightarrow> addr \<Rightarrow> 'm \<Rightarrow> 'm option"
    and is_empty :: "addr \<Rightarrow> 'm \<Rightarrow> bool option"
    and take_first :: "addr \<Rightarrow> 'm \<Rightarrow> (addr \<times> 'm) option"
  assumes put_tail: "holds m q xs \<Longrightarrow> entry m x \<Longrightarrow> x \<notin> set xs \<Longrightarrow>
      \<exists>m'. put_tail q x m = Some m' \<and> holds m' q (xs @ [x]) \<and> only (insert x (set xs)) {q} m m'"
    and put_head: "holds m q xs \<Longrightarrow> entry m x \<Longrightarrow> x \<notin> set xs \<Longrightarrow>
      \<exists>m'. put_head q x m = Some m' \<and> holds m' q (x # xs) \<and> only (insert x (set xs)) {q} m m'"
    and is_empty: "holds m q xs \<Longrightarrow> is_empty q m = Some (xs = [])"
    and take_first: "holds m q (x # xs) \<Longrightarrow>
      \<exists>m'. take_first q m = Some (x, m') \<and> holds m' q xs \<and> only (insert x (set xs)) {q} m m'"
    and take_none: "holds m q [] \<Longrightarrow> take_first q m = Some (NULL, m)"
    and elements: "holds m q xs \<Longrightarrow> distinct xs \<and> (\<forall>x\<in>set xs. entry m x \<and> x \<noteq> NULL)"
    and entry_frame: "only A H m m' \<Longrightarrow> entry m' x = entry m x"
    and queue_frame: "only A H m m' \<Longrightarrow> holds m q xs \<Longrightarrow> set xs \<inter> A = {} \<Longrightarrow> q \<notin> H \<Longrightarrow> holds m' q xs"
begin

text \<open>Inserting a list of elements one by one.\<close>

lemma put_all:
  assumes "holds m q xs" "distinct ys" "set xs \<inter> set ys = {}" "\<forall>y\<in>set ys. entry m y"
  shows "\<exists>m'. fold_option (put_tail q) ys m = Some m' \<and> holds m' q (xs @ ys)"
  using assms
proof (induction ys arbitrary: m xs)
  case Nil
  then show ?case by simp
next
  case (Cons y ys)
  then obtain m1 where m1: "put_tail q y m = Some m1" "holds m1 q (xs @ [y])"
    "only (insert y (set xs)) {q} m m1"
    using put_tail [of m q xs y] by auto
  have "\<forall>z\<in>set ys. entry m1 z" using m1(3) entry_frame Cons.prems(4) by auto
  with Cons.IH [of m1 "xs @ [y]"] Cons.prems m1(2) show ?case
    by (auto simp: m1(1))
qed

text \<open>Taking the first element and putting it back at the tail turns the queue by one.\<close>

definition turn :: "addr \<Rightarrow> 'm \<Rightarrow> 'm option" where
  "turn q m = Option.bind (take_first q m) (\<lambda>(x, m'). put_tail q x m')"

lemma turn_rotate1:
  assumes "holds m q xs" "xs \<noteq> []"
  shows "\<exists>m'. turn q m = Some m' \<and> holds m' q (rotate1 xs)"
proof -
  from assms obtain x ys where xs: "xs = x # ys" by (cases xs) auto
  with assms obtain m1 where m1: "take_first q m = Some (x, m1)" "holds m1 q ys"
    "only (insert x (set ys)) {q} m m1"
    using take_first by blast
  have "x \<notin> set ys" "entry m1 x" using elements [OF assms(1)] xs m1(3) entry_frame by auto
  with m1 put_tail [of m1 q ys x] xs show ?thesis by (auto simp: turn_def)
qed

lemma turn_rotate:
  "holds m q xs \<Longrightarrow> xs \<noteq> [] \<Longrightarrow> \<exists>m'. iter_option n (turn q) m = Some m' \<and> holds m' q (rotate n xs)"
proof (induction n arbitrary: m xs)
  case 0
  then show ?case by simp
next
  case (Suc n)
  then obtain m1 where "turn q m = Some m1" "holds m1 q (rotate1 xs)"
    using turn_rotate1 by blast
  with Suc.IH [of m1 "rotate1 xs"] Suc.prems show ?case
    by (auto simp: rotate1_rotate_swap)
qed

end

section \<open>The functions fulfil it\<close>

lemma pop_none: "is_tailq m q [] \<Longrightarrow> pop q m = Some (NULL, m)"
  by (simp add: pop_def is_tailq_first)

lemma pop_first:
  assumes "is_tailq m q (x # xs)"
  shows "\<exists>m'. pop q m = Some (x, m') \<and> is_tailq m' q xs
              \<and> tq_entries m' x = Some \<lparr>tqe_next = NULL, tqe_prev = Link_Null\<rparr>
              \<and> tq_only (insert x (set xs)) {q} m m'"
  using TAILQ_REMOVE_ok [of m q "[]" x xs] is_tailq_first [OF assms] is_tailq_not_null [OF assms] assms
  by (auto simp: pop_def)

interpretation wq: wait_queue is_tailq is_entry tq_only insert_tail insert_head empty_queue pop
proof
  fix m q xs x
  show "is_tailq m q xs \<Longrightarrow> is_entry m x \<Longrightarrow> x \<notin> set xs \<Longrightarrow>
      \<exists>m'. insert_tail q x m = Some m' \<and> is_tailq m' q (xs @ [x]) \<and> tq_only (insert x (set xs)) {q} m m'"
    by (simp add: insert_tail_def TAILQ_INSERT_TAIL_ok)
  show "is_tailq m q xs \<Longrightarrow> is_entry m x \<Longrightarrow> x \<notin> set xs \<Longrightarrow>
      \<exists>m'. insert_head q x m = Some m' \<and> is_tailq m' q (x # xs) \<and> tq_only (insert x (set xs)) {q} m m'"
    by (simp add: insert_head_def TAILQ_INSERT_HEAD_ok)
  show "is_tailq m q xs \<Longrightarrow> empty_queue q m = Some (xs = [])"
    by (simp add: empty_queue_def TAILQ_EMPTY_ok)
  show "is_tailq m q (x # xs) \<Longrightarrow>
      \<exists>m'. pop q m = Some (x, m') \<and> is_tailq m' q xs \<and> tq_only (insert x (set xs)) {q} m m'"
    using pop_first by blast
  show "is_tailq m q [] \<Longrightarrow> pop q m = Some (NULL, m)"
    by (rule pop_none)
  show "is_tailq m q xs \<Longrightarrow> distinct xs \<and> (\<forall>x\<in>set xs. is_entry m x \<and> x \<noteq> NULL)"
    using is_tailq_distinct is_tailq_is_entry is_tailq_not_null by fastforce
qed (auto simp: is_entry_frame is_tailq_frame)

end
