(* ===== verification/Rbtree.thy ===== *)
theory Rbtree
  imports Prelude
begin

text \<open>
  The red-black tree of src/cs_rbtree.c and src/cs_rbtree.h, on an explicit memory of nodes.

  A node has three links, a signed 64-bit key, an opaque pointer and a colour byte; the empty
  subtrees of a tree all are one sentinel node, whose \<open>parent\<close> field the deletion writes.  The model
  keeps the one \<open>struct rbtree\<close> of the program (its root and sentinel pointers) in the same state as
  the nodes, so the functions that take \<open>struct rbnode **root\<close> update \<open>root\<close>.  Reading or writing
  through a null or dangling pointer gives \<open>None\<close>, and so does a loop that does not end: that the
  operations return at all on well-formed trees is part of what Rbtree_Insert and Rbtree_Delete
  prove.
\<close>

record rbnode =
  left :: addr
  right :: addr
  parent :: addr
  key :: "64 word"
  data :: addr
  color :: uint8

record rbtree =
  nodes :: "addr \<rightharpoonup> rbnode"
  root :: addr
  sentinel :: addr

section \<open>Fields and colours\<close>

definition rd :: "(rbnode \<Rightarrow> 'b) \<Rightarrow> addr \<Rightarrow> rbtree \<Rightarrow> 'b option" where
  "rd f a t = map_option f (nodes t a)"

definition wr :: "addr \<Rightarrow> (rbnode \<Rightarrow> rbnode) \<Rightarrow> rbtree \<Rightarrow> rbtree option" where
  "wr a f t = (case nodes t a of None \<Rightarrow> None | Some n \<Rightarrow> Some (t\<lparr>nodes := (nodes t)(a \<mapsto> f n)\<rparr>))"

definition rbtree_red :: "addr \<Rightarrow> rbtree \<Rightarrow> rbtree option" where
  "rbtree_red node t = wr node (color_update (\<lambda>_. 1)) t"

definition rbtree_black :: "addr \<Rightarrow> rbtree \<Rightarrow> rbtree option" where
  "rbtree_black node t = wr node (color_update (\<lambda>_. 0)) t"

definition rbtree_is_red :: "addr \<Rightarrow> rbtree \<Rightarrow> bool option" where
  "rbtree_is_red node t = rd (\<lambda>n. color n \<noteq> 0) node t"

definition rbtree_is_black :: "addr \<Rightarrow> rbtree \<Rightarrow> bool option" where
  "rbtree_is_black node t = map_option Not (rbtree_is_red node t)"

definition rbtree_copy_color :: "addr \<Rightarrow> addr \<Rightarrow> rbtree \<Rightarrow> rbtree option" where
  "rbtree_copy_color n1 n2 t = do { c \<leftarrow> rd color n2 t; wr n1 (color_update (\<lambda>_. c)) t }"

section \<open>Initialisation and search\<close>

text \<open>The colour is left as it is.\<close>

definition rbtree_node_init :: "addr \<Rightarrow> rbtree \<Rightarrow> rbtree option" where
  "rbtree_node_init node t =
     wr node (\<lambda>n. n\<lparr>left := NULL, right := NULL, parent := NULL, key := 0, data := NULL\<rparr>) t"

definition rbtree_init :: "addr \<Rightarrow> rbtree \<Rightarrow> rbtree option" where
  "rbtree_init node t = do {
     t \<leftarrow> rbtree_node_init node t;
     t \<leftarrow> rbtree_black node t;
     Some (t\<lparr>root := node, sentinel := node\<rparr>)
   }"

partial_function (option) rbtree_node_min :: "addr \<Rightarrow> addr \<Rightarrow> rbtree \<Rightarrow> addr option" where
  "rbtree_node_min node s t = do {
     l \<leftarrow> rd left node t;
     (if l \<noteq> s then rbtree_node_min l s t else Some node)
   }"

definition rbtree_min :: "rbtree \<Rightarrow> addr option" where
  "rbtree_min t = (if root t = sentinel t then Some NULL else rbtree_node_min (root t) (sentinel t) t)"

partial_function (option) rbtree_lookup_from :: "addr \<Rightarrow> 64 word \<Rightarrow> rbtree \<Rightarrow> addr option" where
  "rbtree_lookup_from node k t =
     (if node = NULL then Some NULL
      else do {
        nk \<leftarrow> rd key node t;
        (if nk = k then Some node
         else if sint k < sint nk
         then do { l \<leftarrow> rd left node t; rbtree_lookup_from l k t }
         else do { r \<leftarrow> rd right node t; rbtree_lookup_from r k t })
      })"

definition rbtree_lookup :: "rbtree \<Rightarrow> 64 word \<Rightarrow> addr option" where
  "rbtree_lookup t k = rbtree_lookup_from (root t) k t"

section \<open>Rotations\<close>

definition rbtree_left_rotate :: "addr \<Rightarrow> rbtree \<Rightarrow> rbtree option" where
  "rbtree_left_rotate node t = do {
     temp \<leftarrow> rd right node t;
     tl \<leftarrow> rd left temp t;
     t \<leftarrow> wr node (right_update (\<lambda>_. tl)) t;
     t \<leftarrow> (if tl \<noteq> sentinel t then wr tl (parent_update (\<lambda>_. node)) t else Some t);
     np \<leftarrow> rd parent node t;
     t \<leftarrow> wr temp (parent_update (\<lambda>_. np)) t;
     t \<leftarrow> (if node = root t then Some (t\<lparr>root := temp\<rparr>)
           else do {
             npl \<leftarrow> rd left np t;
             (if node = npl then wr np (left_update (\<lambda>_. temp)) t
              else wr np (right_update (\<lambda>_. temp)) t)
           });
     t \<leftarrow> wr temp (left_update (\<lambda>_. node)) t;
     wr node (parent_update (\<lambda>_. temp)) t
   }"

definition rbtree_right_rotate :: "addr \<Rightarrow> rbtree \<Rightarrow> rbtree option" where
  "rbtree_right_rotate node t = do {
     temp \<leftarrow> rd left node t;
     tr \<leftarrow> rd right temp t;
     t \<leftarrow> wr node (left_update (\<lambda>_. tr)) t;
     t \<leftarrow> (if tr \<noteq> sentinel t then wr tr (parent_update (\<lambda>_. node)) t else Some t);
     np \<leftarrow> rd parent node t;
     t \<leftarrow> wr temp (parent_update (\<lambda>_. np)) t;
     t \<leftarrow> (if node = root t then Some (t\<lparr>root := temp\<rparr>)
           else do {
             npr \<leftarrow> rd right np t;
             (if node = npr then wr np (right_update (\<lambda>_. temp)) t
              else wr np (left_update (\<lambda>_. temp)) t)
           });
     t \<leftarrow> wr temp (right_update (\<lambda>_. node)) t;
     wr node (parent_update (\<lambda>_. temp)) t
   }"

section \<open>Insertion\<close>

text \<open>
  The descent.  The C variable \<open>p\<close> is the address of a child link; here it is the node \<open>temp\<close> the
  link belongs to and the side.
\<close>

partial_function (option) rbtree_insert_find :: "addr \<Rightarrow> addr \<Rightarrow> rbtree \<Rightarrow> (addr \<times> bool) option" where
  "rbtree_insert_find node temp t = do {
     nk \<leftarrow> rd key node t;
     tk \<leftarrow> rd key temp t;
     let is_left = sint nk < sint tk;
     p \<leftarrow> (if is_left then rd left temp t else rd right temp t);
     (if p = sentinel t then Some (temp, is_left) else rbtree_insert_find node p t)
   }"

definition rbtree_insert_guard :: "addr \<Rightarrow> rbtree \<Rightarrow> bool option" where
  "rbtree_insert_guard node t =
     (if node = root t then Some False
      else do { p \<leftarrow> rd parent node t; rbtree_is_red p t })"

text \<open>One turn of the re-balancing loop; \<open>p\<close> and \<open>g\<close> are \<open>node->parent\<close> and \<open>node->parent->parent\<close>.\<close>

definition rbtree_insert_step :: "addr \<Rightarrow> rbtree \<Rightarrow> (addr \<times> rbtree) option" where
  "rbtree_insert_step node t = do {
     p \<leftarrow> rd parent node t;
     g \<leftarrow> rd parent p t;
     gl \<leftarrow> rd left g t;
     (if p = gl then do {
        temp \<leftarrow> rd right g t;
        tred \<leftarrow> rbtree_is_red temp t;
        (if tred then do {
           t \<leftarrow> rbtree_black p t;
           t \<leftarrow> rbtree_black temp t;
           t \<leftarrow> rbtree_red g t;
           Some (g, t)
         } else do {
           pr \<leftarrow> rd right p t;
           (node, t) \<leftarrow> (if node = pr then do { t \<leftarrow> rbtree_left_rotate p t; Some (p, t) }
                         else Some (node, t));
           p \<leftarrow> rd parent node t;
           t \<leftarrow> rbtree_black p t;
           g \<leftarrow> rd parent p t;
           t \<leftarrow> rbtree_red g t;
           t \<leftarrow> rbtree_right_rotate g t;
           Some (node, t)
         })
      } else do {
        temp \<leftarrow> rd left g t;
        tred \<leftarrow> rbtree_is_red temp t;
        (if tred then do {
           t \<leftarrow> rbtree_black p t;
           t \<leftarrow> rbtree_black temp t;
           t \<leftarrow> rbtree_red g t;
           Some (g, t)
         } else do {
           pl \<leftarrow> rd left p t;
           (node, t) \<leftarrow> (if node = pl then do { t \<leftarrow> rbtree_right_rotate p t; Some (p, t) }
                         else Some (node, t));
           p \<leftarrow> rd parent node t;
           t \<leftarrow> rbtree_black p t;
           g \<leftarrow> rd parent p t;
           t \<leftarrow> rbtree_red g t;
           t \<leftarrow> rbtree_left_rotate g t;
           Some (node, t)
         })
      })
   }"

partial_function (option) rbtree_insert_fixup :: "addr \<Rightarrow> rbtree \<Rightarrow> rbtree option" where
  "rbtree_insert_fixup node t = do {
     b \<leftarrow> rbtree_insert_guard node t;
     (if b then do { nt \<leftarrow> rbtree_insert_step node t; rbtree_insert_fixup (fst nt) (snd nt) }
      else Some t)
   }"

definition rbtree_insert :: "addr \<Rightarrow> rbtree \<Rightarrow> rbtree option" where
  "rbtree_insert node t =
     (if root t = sentinel t then do {
        t \<leftarrow> wr node (\<lambda>n. n\<lparr>parent := NULL, left := sentinel t, right := sentinel t\<rparr>) t;
        t \<leftarrow> rbtree_black node t;
        Some (t\<lparr>root := node\<rparr>)
      } else do {
        (temp, is_left) \<leftarrow> rbtree_insert_find node (root t) t;
        t \<leftarrow> (if is_left then wr temp (left_update (\<lambda>_. node)) t
              else wr temp (right_update (\<lambda>_. node)) t);
        t \<leftarrow> wr node (\<lambda>n. n\<lparr>parent := temp, left := sentinel t, right := sentinel t\<rparr>) t;
        t \<leftarrow> rbtree_red node t;
        t \<leftarrow> rbtree_insert_fixup node t;
        rbtree_black (root t) t
      })"

section \<open>Deletion\<close>

text \<open>The node that leaves its place (\<open>subst\<close>) and the one that takes that place (\<open>temp\<close>).\<close>

definition rbtree_delete_pick :: "addr \<Rightarrow> rbtree \<Rightarrow> (addr \<times> addr) option" where
  "rbtree_delete_pick node t = do {
     nl \<leftarrow> rd left node t;
     nr \<leftarrow> rd right node t;
     (if nl = sentinel t then Some (nr, node)
      else if nr = sentinel t then Some (nl, node)
      else do {
        subst \<leftarrow> rbtree_node_min nr (sentinel t) t;
        sl \<leftarrow> rd left subst t;
        temp \<leftarrow> (if sl \<noteq> sentinel t then Some sl else rd right subst t);
        Some (temp, subst)
      })
   }"

text \<open>\<open>temp\<close> is linked where \<open>subst\<close> was.\<close>

definition rbtree_delete_unlink :: "addr \<Rightarrow> addr \<Rightarrow> rbtree \<Rightarrow> rbtree option" where
  "rbtree_delete_unlink temp subst t = do {
     sp \<leftarrow> rd parent subst t;
     spl \<leftarrow> rd left sp t;
     (if subst = spl then wr sp (left_update (\<lambda>_. temp)) t
      else wr sp (right_update (\<lambda>_. temp)) t)
   }"

text \<open>\<open>subst\<close> is linked where \<open>node\<close> was, with its colour.\<close>

definition rbtree_delete_replace :: "addr \<Rightarrow> addr \<Rightarrow> rbtree \<Rightarrow> rbtree option" where
  "rbtree_delete_replace node subst t = do {
     nl \<leftarrow> rd left node t;
     t \<leftarrow> wr subst (left_update (\<lambda>_. nl)) t;
     nr \<leftarrow> rd right node t;
     t \<leftarrow> wr subst (right_update (\<lambda>_. nr)) t;
     np \<leftarrow> rd parent node t;
     t \<leftarrow> wr subst (parent_update (\<lambda>_. np)) t;
     t \<leftarrow> rbtree_copy_color subst node t;
     t \<leftarrow> (if node = root t then Some (t\<lparr>root := subst\<rparr>)
           else do {
             npl \<leftarrow> rd left np t;
             (if node = npl then wr np (left_update (\<lambda>_. subst)) t
              else wr np (right_update (\<lambda>_. subst)) t)
           });
     sl \<leftarrow> rd left subst t;
     t \<leftarrow> (if sl \<noteq> sentinel t then wr sl (parent_update (\<lambda>_. subst)) t else Some t);
     sr \<leftarrow> rd right subst t;
     (if sr \<noteq> sentinel t then wr sr (parent_update (\<lambda>_. subst)) t else Some t)
   }"

definition rbtree_delete_splice :: "addr \<Rightarrow> addr \<Rightarrow> addr \<Rightarrow> rbtree \<Rightarrow> rbtree option" where
  "rbtree_delete_splice node temp subst t = do {
     t \<leftarrow> rbtree_delete_unlink temp subst t;
     sp \<leftarrow> rd parent subst t;
     (if subst = node then wr temp (parent_update (\<lambda>_. sp)) t
      else do {
        t \<leftarrow> (if sp = node then wr temp (parent_update (\<lambda>_. subst)) t
              else wr temp (parent_update (\<lambda>_. sp)) t);
        rbtree_delete_replace node subst t
      })
   }"

definition rbtree_delete_guard :: "addr \<Rightarrow> rbtree \<Rightarrow> bool option" where
  "rbtree_delete_guard temp t = (if temp = root t then Some False else rbtree_is_black temp t)"

text \<open>
  One turn of the fixup loop; \<open>p\<close> is \<open>temp->parent\<close>, \<open>w\<close> the sibling.  The two parts of a branch,
  before and after a red sibling is turned up, are separate definitions.
\<close>

definition rbtree_delete_red_left :: "addr \<Rightarrow> addr \<Rightarrow> rbtree \<Rightarrow> (addr \<times> rbtree) option" where
  "rbtree_delete_red_left temp w t = do {
     wred \<leftarrow> rbtree_is_red w t;
     (if wred then do {
        t \<leftarrow> rbtree_black w t;
        p \<leftarrow> rd parent temp t;
        t \<leftarrow> rbtree_red p t;
        t \<leftarrow> rbtree_left_rotate p t;
        p \<leftarrow> rd parent temp t;
        w \<leftarrow> rd right p t;
        Some (w, t)
      } else Some (w, t))
   }"

definition rbtree_delete_black_left :: "addr \<Rightarrow> addr \<Rightarrow> rbtree \<Rightarrow> (addr \<times> rbtree) option" where
  "rbtree_delete_black_left temp w t = do {
     w_left \<leftarrow> rd left w t;
     lb \<leftarrow> rbtree_is_black w_left t;
     w_right \<leftarrow> rd right w t;
     rb \<leftarrow> (if lb then rbtree_is_black w_right t else Some False);
     (if rb then do {
        t \<leftarrow> rbtree_red w t;
        p \<leftarrow> rd parent temp t;
        Some (p, t)
      } else do {
        rb \<leftarrow> rbtree_is_black w_right t;
        (w, t) \<leftarrow> (if rb then do {
                      t \<leftarrow> rbtree_black w_left t;
                      t \<leftarrow> rbtree_red w t;
                      t \<leftarrow> rbtree_right_rotate w t;
                      p \<leftarrow> rd parent temp t;
                      w \<leftarrow> rd right p t;
                      Some (w, t)
                    } else Some (w, t));
        p \<leftarrow> rd parent temp t;
        t \<leftarrow> rbtree_copy_color w p t;
        t \<leftarrow> rbtree_black p t;
        w_right \<leftarrow> rd right w t;
        t \<leftarrow> rbtree_black w_right t;
        t \<leftarrow> rbtree_left_rotate p t;
        Some (root t, t)
      })
   }"

definition rbtree_delete_red_right :: "addr \<Rightarrow> addr \<Rightarrow> rbtree \<Rightarrow> (addr \<times> rbtree) option" where
  "rbtree_delete_red_right temp w t = do {
     wred \<leftarrow> rbtree_is_red w t;
     (if wred then do {
        t \<leftarrow> rbtree_black w t;
        p \<leftarrow> rd parent temp t;
        t \<leftarrow> rbtree_red p t;
        t \<leftarrow> rbtree_right_rotate p t;
        p \<leftarrow> rd parent temp t;
        w \<leftarrow> rd left p t;
        Some (w, t)
      } else Some (w, t))
   }"

definition rbtree_delete_black_right :: "addr \<Rightarrow> addr \<Rightarrow> rbtree \<Rightarrow> (addr \<times> rbtree) option" where
  "rbtree_delete_black_right temp w t = do {
     w_left \<leftarrow> rd left w t;
     lb \<leftarrow> rbtree_is_black w_left t;
     w_right \<leftarrow> rd right w t;
     rb \<leftarrow> (if lb then rbtree_is_black w_right t else Some False);
     (if rb then do {
        t \<leftarrow> rbtree_red w t;
        p \<leftarrow> rd parent temp t;
        Some (p, t)
      } else do {
        lb \<leftarrow> rbtree_is_black w_left t;
        (w, t) \<leftarrow> (if lb then do {
                      t \<leftarrow> rbtree_black w_right t;
                      t \<leftarrow> rbtree_red w t;
                      t \<leftarrow> rbtree_left_rotate w t;
                      p \<leftarrow> rd parent temp t;
                      w \<leftarrow> rd left p t;
                      Some (w, t)
                    } else Some (w, t));
        p \<leftarrow> rd parent temp t;
        t \<leftarrow> rbtree_copy_color w p t;
        t \<leftarrow> rbtree_black p t;
        w_left \<leftarrow> rd left w t;
        t \<leftarrow> rbtree_black w_left t;
        t \<leftarrow> rbtree_right_rotate p t;
        Some (root t, t)
      })
   }"

definition rbtree_delete_step :: "addr \<Rightarrow> rbtree \<Rightarrow> (addr \<times> rbtree) option" where
  "rbtree_delete_step temp t = do {
     p \<leftarrow> rd parent temp t;
     pl \<leftarrow> rd left p t;
     (if temp = pl then do {
        w \<leftarrow> rd right p t;
        (w, t) \<leftarrow> rbtree_delete_red_left temp w t;
        rbtree_delete_black_left temp w t
      } else do {
        w \<leftarrow> rd left p t;
        (w, t) \<leftarrow> rbtree_delete_red_right temp w t;
        rbtree_delete_black_right temp w t
      })
   }"

partial_function (option) rbtree_delete_fixup :: "addr \<Rightarrow> rbtree \<Rightarrow> (addr \<times> rbtree) option" where
  "rbtree_delete_fixup temp t = do {
     b \<leftarrow> rbtree_delete_guard temp t;
     (if b then do { nt \<leftarrow> rbtree_delete_step temp t; rbtree_delete_fixup (fst nt) (snd nt) }
      else Some (temp, t))
   }"

definition rbtree_delete :: "addr \<Rightarrow> rbtree \<Rightarrow> rbtree option" where
  "rbtree_delete node t = do {
     (temp, subst) \<leftarrow> rbtree_delete_pick node t;
     (if subst = root t then do {
        t \<leftarrow> Some (t\<lparr>root := temp\<rparr>);
        t \<leftarrow> rbtree_black temp t;
        rbtree_node_init node t
      } else do {
        red \<leftarrow> rbtree_is_red subst t;
        t \<leftarrow> rbtree_delete_splice node temp subst t;
        t \<leftarrow> rbtree_node_init node t;
        (if red then Some t
         else do {
           (temp, t) \<leftarrow> rbtree_delete_fixup temp t;
           rbtree_black temp t
         })
      })
   }"

end
