(* ===== verification/Rbtree_Repr.thy ===== *)
theory Rbtree_Repr
  imports Rbtree
begin

text \<open>
  What a memory of nodes stands for.  A functional tree \<open>rbt\<close> carries at each node the item (the
  node's address, key and opaque pointer) and whether it is red; \<open>rb_repr t sp p0 T\<close> says that the
  memory \<open>t\<close> holds exactly the tree \<open>T\<close>, every link and parent link set, where \<open>sp\<close> is what the
  sentinel's \<open>parent\<close> field holds (the deletion uses it) and \<open>p0\<close> what the root's does (it may be
  stale).  A position in a tree is a subtree and a context (\<open>frame\<close>s from the position up); with it
  the rotations and colour changes of the C code, which work at a node in the middle of a tree,
  are refined to equations on functional trees.
\<close>

record item =
  i_addr :: addr
  i_key :: "64 word"
  i_data :: addr

datatype rbt = Leaf | Node rbt item bool rbt

datatype frame = FL item bool rbt | FR rbt item bool

fun inorder :: "rbt \<Rightarrow> item list" where
  "inorder Leaf = []"
| "inorder (Node l x c r) = inorder l @ x # inorder r"

fun plug :: "rbt \<Rightarrow> frame list \<Rightarrow> rbt" where
  "plug t [] = t"
| "plug t (FL x c r # C) = plug (Node t x c r) C"
| "plug t (FR l x c # C) = plug (Node l x c t) C"

fun addrs :: "rbt \<Rightarrow> addr list" where
  "addrs Leaf = []"
| "addrs (Node l x c r) = i_addr x # addrs l @ addrs r"

fun caddrs :: "frame list \<Rightarrow> addr list" where
  "caddrs [] = []"
| "caddrs (FL x c r # C) = i_addr x # addrs r @ caddrs C"
| "caddrs (FR l x c # C) = i_addr x # addrs l @ caddrs C"

fun ptr :: "addr \<Rightarrow> rbt \<Rightarrow> addr" where
  "ptr s Leaf = s"
| "ptr s (Node l x c r) = i_addr x"

fun cpar :: "addr \<Rightarrow> frame list \<Rightarrow> addr" where
  "cpar p0 [] = p0"
| "cpar p0 (FL x c r # C) = i_addr x"
| "cpar p0 (FR l x c # C) = i_addr x"

definition mk_node :: "item \<Rightarrow> bool \<Rightarrow> addr \<Rightarrow> addr \<Rightarrow> addr \<Rightarrow> rbnode" where
  "mk_node x c l r p =
     \<lparr>left = l, right = r, parent = p, key = i_key x, data = i_data x, color = (if c then 1 else 0)\<rparr>"

definition sentinel_node :: "addr \<Rightarrow> rbnode" where
  "sentinel_node sp =
     \<lparr>left = NULL, right = NULL, parent = sp, key = 0, data = NULL, color = 0\<rparr>"

text \<open>The subtree below a pointer, and the rest of the tree around it.\<close>

fun sub :: "(addr \<rightharpoonup> rbnode) \<Rightarrow> addr \<Rightarrow> addr \<Rightarrow> rbt \<Rightarrow> bool" where
  "sub N s p Leaf \<longleftrightarrow> True"
| "sub N s p (Node l x c r) \<longleftrightarrow>
     N (i_addr x) = Some (mk_node x c (ptr s l) (ptr s r) p)
     \<and> sub N s (i_addr x) l \<and> sub N s (i_addr x) r"

fun around :: "(addr \<rightharpoonup> rbnode) \<Rightarrow> addr \<Rightarrow> addr \<Rightarrow> addr \<Rightarrow> frame list \<Rightarrow> bool" where
  "around N s p0 q [] \<longleftrightarrow> True"
| "around N s p0 q (FL x c r # C) \<longleftrightarrow>
     N (i_addr x) = Some (mk_node x c q (ptr s r) (cpar p0 C))
     \<and> sub N s (i_addr x) r \<and> around N s p0 (i_addr x) C"
| "around N s p0 q (FR l x c # C) \<longleftrightarrow>
     N (i_addr x) = Some (mk_node x c (ptr s l) q (cpar p0 C))
     \<and> sub N s (i_addr x) l \<and> around N s p0 (i_addr x) C"

fun croot :: "addr \<Rightarrow> frame list \<Rightarrow> addr" where
  "croot q [] = q"
| "croot q (FL x c r # C) = croot (i_addr x) C"
| "croot q (FR l x c # C) = croot (i_addr x) C"

definition rb_repr :: "rbtree \<Rightarrow> addr \<Rightarrow> addr \<Rightarrow> rbt \<Rightarrow> bool" where
  "rb_repr t sp p0 T \<longleftrightarrow>
     sub (nodes t) (sentinel t) p0 T \<and> root t = ptr (sentinel t) T
     \<and> nodes t (sentinel t) = Some (sentinel_node sp) \<and> sentinel t \<noteq> NULL
     \<and> distinct (addrs T) \<and> sentinel t \<notin> set (addrs T) \<and> NULL \<notin> set (addrs T)"

section \<open>Positions\<close>

lemma sub_plug:
  "sub N s p0 (plug T C) \<longleftrightarrow> sub N s (cpar p0 C) T \<and> around N s p0 (ptr s T) C"
proof (induction C arbitrary: T)
  case Nil
  show ?case by simp
next
  case (Cons f C)
  then show ?case by (cases f) auto
qed

lemma ptr_plug: "ptr s (plug T C) = croot (ptr s T) C"
proof (induction C arbitrary: T)
  case Nil
  show ?case by simp
next
  case (Cons f C)
  then show ?case by (cases f) auto
qed

lemma set_addrs_plug: "set (addrs (plug T C)) = set (addrs T) \<union> set (caddrs C)"
proof (induction C arbitrary: T)
  case Nil
  show ?case by simp
next
  case (Cons f C)
  then show ?case by (cases f) auto
qed

lemma distinct_plug:
  "distinct (addrs (plug T C))
     \<longleftrightarrow> distinct (addrs T) \<and> distinct (caddrs C) \<and> set (addrs T) \<inter> set (caddrs C) = {}"
proof (induction C arbitrary: T)
  case Nil
  show ?case by simp
next
  case (Cons f C)
  then show ?case by (cases f) auto
qed

lemma croot_in: "C \<noteq> [] \<Longrightarrow> croot q C \<in> set (caddrs C)"
proof (induction C arbitrary: q)
  case Nil
  then show ?case by simp
next
  case (Cons f C)
  then show ?case by (cases f; cases C) auto
qed

lemma croot_eq [simp]:
  assumes "a \<notin> set (caddrs C)"
  shows "a = croot q C \<longleftrightarrow> C = [] \<and> a = q" and "croot q C = a \<longleftrightarrow> C = [] \<and> a = q"
  using croot_in [of C q] assms by (cases "C = []"; auto)+

lemma sub_upd [simp, frame]: "a \<notin> set (addrs T) \<Longrightarrow> sub (N(a := v)) s p T = sub N s p T"
  by (induction T arbitrary: p) auto

lemma around_upd [simp, frame]:
  "a \<notin> set (caddrs C) \<Longrightarrow> around (N(a := v)) s p0 q C = around N s p0 q C"
proof (induction C arbitrary: q)
  case Nil
  show ?case by simp
next
  case (Cons f C)
  then show ?case by (cases f) (auto simp del: fun_upd_apply simp add: upd_known)
qed

lemma ptr_in: "T \<noteq> Leaf \<Longrightarrow> ptr s T \<in> set (addrs T)"
  by (cases T) auto

lemma ptr_eq [simp]:
  assumes "a \<notin> set (addrs T)"
  shows "a = ptr s T \<longleftrightarrow> T = Leaf \<and> a = s" and "ptr s T = a \<longleftrightarrow> T = Leaf \<and> a = s"
  using assms by (cases T; auto)+

lemma mk_node_sel [simp]:
  "left (mk_node x c l r p) = l" "right (mk_node x c l r p) = r"
  "parent (mk_node x c l r p) = p" "key (mk_node x c l r p) = i_key x"
  "data (mk_node x c l r p) = i_data x" "color (mk_node x c l r p) = (if c then 1 else 0)"
  by (simp_all add: mk_node_def)

lemma mk_node_upd [simp]:
  "(mk_node x c l r p)\<lparr>left := l'\<rparr> = mk_node x c l' r p"
  "(mk_node x c l r p)\<lparr>right := r'\<rparr> = mk_node x c l r' p"
  "(mk_node x c l r p)\<lparr>parent := p'\<rparr> = mk_node x c l r p'"
  "(mk_node x c l r p)\<lparr>color := 1\<rparr> = mk_node x True l r p"
  "(mk_node x c l r p)\<lparr>color := 0\<rparr> = mk_node x False l r p"
  "(mk_node x c l r p)\<lparr>color := (if c' then 1 else 0)\<rparr> = mk_node x c' l r p"
  by (simp_all add: mk_node_def)

lemma sentinel_node_sel [simp]:
  "left (sentinel_node sp) = NULL" "right (sentinel_node sp) = NULL"
  "parent (sentinel_node sp) = sp" "key (sentinel_node sp) = 0"
  "data (sentinel_node sp) = NULL" "color (sentinel_node sp) = 0"
  by (simp_all add: sentinel_node_def)

lemma sentinel_node_upd [simp]:
  "(sentinel_node sp)\<lparr>parent := p\<rparr> = sentinel_node p"
  "(sentinel_node sp)\<lparr>color := 0\<rparr> = sentinel_node sp"
  by (simp_all add: sentinel_node_def)

section \<open>Rotations\<close>

lemmas rb_unfold = rb_repr_def sub_plug ptr_plug set_addrs_plug distinct_plug rd_def wr_def

declare fun_upd_apply [simp del]
declare upd_known [simp]

lemma left_rotate_repr:
  assumes "rb_repr t sp p0 (plug (Node a x cx (Node b y cy d)) C)"
  shows "\<exists>t'. rbtree_left_rotate (i_addr x) t = Some t'
           \<and> rb_repr t' sp p0 (plug (Node (Node a x cx b) y cy d) C)
           \<and> sentinel t' = sentinel t"
proof (cases C)
  case Nil
  with assms show ?thesis
    by (cases b; simp add: rb_unfold rbtree_left_rotate_def; (elim conjE)?; simp)
next
  case (Cons f C')
  then show ?thesis
  proof (cases f)
    case (FL z cz e)
    with assms Cons show ?thesis
    by (cases b; simp add: rb_unfold rbtree_left_rotate_def; (elim conjE)?; simp)
  next
    case (FR e z cz)
    with assms Cons show ?thesis
    by (cases b; simp add: rb_unfold rbtree_left_rotate_def; (elim conjE)?; simp)
  qed
qed

lemma right_rotate_repr:
  assumes "rb_repr t sp p0 (plug (Node (Node a x cx b) y cy d) C)"
  shows "\<exists>t'. rbtree_right_rotate (i_addr y) t = Some t'
           \<and> rb_repr t' sp p0 (plug (Node a x cx (Node b y cy d)) C)
           \<and> sentinel t' = sentinel t"
proof (cases C)
  case Nil
  with assms show ?thesis
    by (cases b; simp add: rb_unfold rbtree_right_rotate_def; (elim conjE)?; simp)
next
  case (Cons f C')
  then show ?thesis
  proof (cases f)
    case (FL z cz e)
    with assms Cons show ?thesis
    by (cases b; simp add: rb_unfold rbtree_right_rotate_def; (elim conjE)?; simp)
  next
    case (FR e z cz)
    with assms Cons show ?thesis
    by (cases b; simp add: rb_unfold rbtree_right_rotate_def; (elim conjE)?; simp)
  qed
qed

section \<open>Reading and colouring at a position\<close>

fun is_red :: "rbt \<Rightarrow> bool" where
  "is_red Leaf = False"
| "is_red (Node l x c r) = c"

fun paint :: "bool \<Rightarrow> rbt \<Rightarrow> rbt" where
  "paint c Leaf = Leaf"
| "paint c (Node l x c' r) = Node l x c r"

lemma rd_at:
  assumes "rb_repr t sp p0 (plug (Node l x c r) C)"
  shows "rd left (i_addr x) t = Some (ptr (sentinel t) l)"
    and "rd right (i_addr x) t = Some (ptr (sentinel t) r)"
    and "rd parent (i_addr x) t = Some (cpar p0 C)"
    and "rd key (i_addr x) t = Some (i_key x)"
    and "rd color (i_addr x) t = Some (if c then 1 else 0)"
    and "rd data (i_addr x) t = Some (i_data x)"
  using assms by (simp_all add: rb_unfold)

lemma rd_sentinel:
  assumes "rb_repr t sp p0 T"
  shows "rd left (sentinel t) t = Some NULL" "rd right (sentinel t) t = Some NULL"
    "rd key (sentinel t) t = Some 0" "rd parent (sentinel t) t = Some sp"
    "rd data (sentinel t) t = Some NULL"
  using assms by (simp_all add: rb_unfold)

lemma is_red_at:
  "rb_repr t sp p0 (plug T C) \<Longrightarrow> rbtree_is_red (ptr (sentinel t) T) t = Some (is_red T)"
  by (cases T) (simp_all add: rb_unfold rbtree_is_red_def)

lemma is_black_at:
  "rb_repr t sp p0 (plug T C) \<Longrightarrow> rbtree_is_black (ptr (sentinel t) T) t = Some (\<not> is_red T)"
  by (simp add: rbtree_is_black_def is_red_at)

lemma root_at: "rb_repr t sp p0 T \<Longrightarrow> root t = ptr (sentinel t) T"
  by (simp add: rb_repr_def)

lemma not_root_at:
  assumes "rb_repr t sp p0 (plug T (f # C))"
  shows "root t \<noteq> ptr (sentinel t) T" and "T \<noteq> Leaf \<Longrightarrow> ptr (sentinel t) T \<noteq> sentinel t"
proof -
  have "root t = croot (ptr (sentinel t) T) (f # C)"
    using assms by (simp add: rb_repr_def ptr_plug)
  moreover have "ptr (sentinel t) T \<notin> set (caddrs (f # C))"
    using assms by (cases T) (auto simp: rb_repr_def set_addrs_plug distinct_plug)
  ultimately show "root t \<noteq> ptr (sentinel t) T" by simp
  show "T \<noteq> Leaf \<Longrightarrow> ptr (sentinel t) T \<noteq> sentinel t"
    using assms by (cases T) (auto simp: rb_repr_def set_addrs_plug)
qed

lemma root_iff_at: "rb_repr t sp p0 (plug T C) \<Longrightarrow> ptr (sentinel t) T = root t \<longleftrightarrow> C = []"
  using not_root_at(1) root_at by (cases C) fastforce+

lemma red_repr:
  assumes "rb_repr t sp p0 (plug (Node l x c r) C)"
  shows "\<exists>t'. rbtree_red (i_addr x) t = Some t' \<and> rb_repr t' sp p0 (plug (Node l x True r) C)
              \<and> sentinel t' = sentinel t"
  using assms by (simp add: rb_unfold rbtree_red_def; (elim conjE)?; simp)

lemma black_node_repr:
  assumes "rb_repr t sp p0 (plug (Node l x c r) C)"
  shows "\<exists>t'. rbtree_black (i_addr x) t = Some t' \<and> rb_repr t' sp p0 (plug (Node l x False r) C)
              \<and> sentinel t' = sentinel t"
  using assms by (simp add: rb_unfold rbtree_black_def; (elim conjE)?; simp)

lemma black_repr:
  assumes "rb_repr t sp p0 (plug T C)"
  shows "\<exists>t'. rbtree_black (ptr (sentinel t) T) t = Some t' \<and> rb_repr t' sp p0 (plug (paint False T) C)
              \<and> sentinel t' = sentinel t"
proof (cases T)
  case Leaf
  with assms show ?thesis
    by (simp add: rb_unfold rbtree_black_def; (elim conjE)?; simp)
next
  case (Node l x c r)
  with black_node_repr assms show ?thesis by simp
qed

lemma copy_color_repr:
  assumes "rb_repr t sp p0 (plug (Node l x c r) C)" "rd color b t = Some (if c' then 1 else 0)"
  shows "\<exists>t'. rbtree_copy_color (i_addr x) b t = Some t' \<and> rb_repr t' sp p0 (plug (Node l x c' r) C)
              \<and> sentinel t' = sentinel t"
  using assms by (simp add: rb_unfold rbtree_copy_color_def; (elim conjE exE)?; simp)

end
