(* ===== verification/Rbtree_Insert.thy ===== *)
theory Rbtree_Insert
  imports Rbtree_Repr
begin

text \<open>
  Lookup, minimum and insertion of src/cs_rbtree.c against functional trees.  \<open>rb_insert\<close> is the
  insertion on functional trees: the descent to an empty place (\<open>desc\<close>) and the re-balancing loop on
  a position (\<open>ins_step\<close>, \<open>ins_loop\<close>).  The C functions are refined to it, which includes that their
  loops end and that no null pointer is followed; then \<open>rb_insert\<close> is shown to keep the key order
  (a new node goes behind the nodes with the same key) and the red-black invariant.
\<close>

section \<open>The functional insertion\<close>

fun fcol :: "frame \<Rightarrow> bool" where
  "fcol (FL x c r) = c"
| "fcol (FR l x c) = c"

fun desc :: "64 word \<Rightarrow> rbt \<Rightarrow> frame list \<Rightarrow> frame list" where
  "desc k Leaf C = C"
| "desc k (Node l x c r) C =
     (if sint k < sint (i_key x) then desc k l (FL x c r # C) else desc k r (FR l x c # C))"

text \<open>
  One turn at the position with subtree \<open>Node l x c r\<close>, its parent frame and its grandparent frame:
  the next position.
\<close>

fun ins_step :: "rbt \<Rightarrow> frame \<Rightarrow> frame \<Rightarrow> frame list \<Rightarrow> rbt \<times> frame list" where
  "ins_step T (FL p cp b) (FL g cg u) C =
     (if is_red u then (Node (Node T p False b) g True (paint False u), C)
      else (T, FL p False (Node b g True u) # C))"
| "ins_step T (FR a p cp) (FL g cg u) C =
     (if is_red u then (Node (Node a p False T) g True (paint False u), C)
      else case T of
        Leaf \<Rightarrow> (T, FR a p cp # FL g cg u # C)
      | Node l x c r \<Rightarrow> (Node a p cp l, FL x False (Node r g True u) # C))"
| "ins_step T (FR a p cp) (FR u g cg) C =
     (if is_red u then (Node (paint False u) g True (Node a p False T), C)
      else (T, FR (Node u g True a) p False # C))"
| "ins_step T (FL p cp b) (FR u g cg) C =
     (if is_red u then (Node (paint False u) g True (Node T p False b), C)
      else case T of
        Leaf \<Rightarrow> (T, FL p cp b # FR u g cg # C)
      | Node l x c r \<Rightarrow> (Node r p cp b, FR (Node u g True l) x False # C))"

lemma ins_step_length: "T \<noteq> Leaf \<Longrightarrow> length (snd (ins_step T f1 f2 C)) < Suc (Suc (length C))"
  by (cases f1; cases f2; cases T) auto

function ins_loop :: "rbt \<Rightarrow> frame list \<Rightarrow> rbt" where
  "ins_loop T C =
     (case C of
        f1 # f2 # C' \<Rightarrow>
          if fcol f1 \<and> T \<noteq> Leaf
          then ins_loop (fst (ins_step T f1 f2 C')) (snd (ins_step T f1 f2 C'))
          else plug T C
      | _ \<Rightarrow> plug T C)"
  by pat_completeness auto
termination
  by (relation "measure (\<lambda>TC. length (snd TC))") (auto simp: ins_step_length)

declare ins_loop.simps [simp del]

definition rb_insert :: "item \<Rightarrow> rbt \<Rightarrow> rbt" where
  "rb_insert x T =
     (if T = Leaf then Node Leaf x False Leaf
      else paint False (ins_loop (Node Leaf x True Leaf) (desc (i_key x) T [])))"

section \<open>The C functions against it\<close>

definition root_black :: "frame list \<Rightarrow> bool" where
  "root_black C \<longleftrightarrow> C = [] \<or> \<not> fcol (last C)"

lemma insert_guard_at:
  assumes "rb_repr t sp p0 (plug (Node l x c r) C)"
  shows "rbtree_insert_guard (i_addr x) t = Some (case C of [] \<Rightarrow> False | f # _ \<Rightarrow> fcol f)"
proof (cases C)
  case Nil
  with assms show ?thesis by (simp add: rbtree_insert_guard_def rb_repr_def)
next
  case (Cons f C')
  have "i_addr x \<noteq> root t"
    using not_root_at(1) [of t sp p0 "Node l x c r" f C'] assms Cons by auto
  moreover have "rbtree_is_red (cpar p0 C) t = Some (fcol f)"
    using assms Cons is_red_at [of t sp p0 _ C'] by (cases f) fastforce+
  ultimately show ?thesis
    using Cons rd_at(3) [OF assms] by (simp add: rbtree_insert_guard_def)
qed

text \<open>The block that recolours a red uncle and its brother.\<close>

lemma recolour_repr:
  assumes "rb_repr t sp p0 (plug (Node (Node a p cp b) g cg u) C)"
  shows "\<exists>t1 t2 t'. rbtree_black (i_addr p) t = Some t1
              \<and> rbtree_black (ptr (sentinel t) u) t1 = Some t2 \<and> rbtree_red (i_addr g) t2 = Some t'
              \<and> rb_repr t' sp p0 (plug (Node (Node a p False b) g True (paint False u)) C)
              \<and> sentinel t' = sentinel t"
proof -
  from black_node_repr [of t sp p0 a p cp b "FL g cg u # C"] assms obtain t1 where
    t1: "rbtree_black (i_addr p) t = Some t1" "sentinel t1 = sentinel t"
      "rb_repr t1 sp p0 (plug u (FR (Node a p False b) g cg # C))" by auto
  from black_repr [OF t1(3)] obtain t2 where
    t2: "rbtree_black (ptr (sentinel t1) u) t1 = Some t2" "sentinel t2 = sentinel t1"
      "rb_repr t2 sp p0 (plug (Node (Node a p False b) g cg (paint False u)) C)" by auto
  from red_repr [OF t2(3)] show ?thesis using t1 t2 by auto
qed

lemma recolour_mirror_repr:
  assumes "rb_repr t sp p0 (plug (Node u g cg (Node a p cp b)) C)"
  shows "\<exists>t1 t2 t'. rbtree_black (i_addr p) t = Some t1
              \<and> rbtree_black (ptr (sentinel t) u) t1 = Some t2 \<and> rbtree_red (i_addr g) t2 = Some t'
              \<and> rb_repr t' sp p0 (plug (Node (paint False u) g True (Node a p False b)) C)
              \<and> sentinel t' = sentinel t"
proof -
  from black_node_repr [of t sp p0 a p cp b "FR u g cg # C"] assms obtain t1 where
    t1: "rbtree_black (i_addr p) t = Some t1" "sentinel t1 = sentinel t"
      "rb_repr t1 sp p0 (plug u (FL g cg (Node a p False b) # C))" by auto
  from black_repr [OF t1(3)] obtain t2 where
    t2: "rbtree_black (ptr (sentinel t1) u) t1 = Some t2" "sentinel t2 = sentinel t1"
      "rb_repr t2 sp p0 (plug (Node (paint False u) g cg (Node a p False b)) C)" by auto
  from red_repr [OF t2(3)] show ?thesis using t1 t2 by auto
qed

text \<open>The block that turns the grandparent down, from the position of the outer child.\<close>

lemma turn_right_repr:
  assumes "rb_repr t sp p0 (plug (Node a q cq b) (FL p cp d # FL g cg u # C))"
  shows "\<exists>t1 t2 t'. rd parent (i_addr q) t = Some (i_addr p) \<and> rbtree_black (i_addr p) t = Some t1
              \<and> rd parent (i_addr p) t1 = Some (i_addr g) \<and> rbtree_red (i_addr g) t1 = Some t2
              \<and> rbtree_right_rotate (i_addr g) t2 = Some t'
              \<and> rb_repr t' sp p0 (plug (Node a q cq b) (FL p False (Node d g True u) # C))
              \<and> sentinel t' = sentinel t"
proof -
  have q: "rd parent (i_addr q) t = Some (i_addr p)" using rd_at(3) [OF assms] by simp
  from black_node_repr [of t sp p0 "Node a q cq b" p cp d "FL g cg u # C"] assms obtain t1 where
    t1: "rbtree_black (i_addr p) t = Some t1" "sentinel t1 = sentinel t"
      "rb_repr t1 sp p0 (plug (Node (Node a q cq b) p False d) (FL g cg u # C))" by auto
  have g: "rd parent (i_addr p) t1 = Some (i_addr g)" using rd_at(3) [OF t1(3)] by simp
  from red_repr [of t1 sp p0 _ g cg u C] t1(3) obtain t2 where
    t2: "rbtree_red (i_addr g) t1 = Some t2" "sentinel t2 = sentinel t1"
      "rb_repr t2 sp p0 (plug (Node (Node (Node a q cq b) p False d) g True u) C)" by fastforce
  from right_rotate_repr [OF t2(3)] show ?thesis using q t1 g t2 by auto
qed

lemma turn_left_repr:
  assumes "rb_repr t sp p0 (plug (Node a q cq b) (FR d p cp # FR u g cg # C))"
  shows "\<exists>t1 t2 t'. rd parent (i_addr q) t = Some (i_addr p) \<and> rbtree_black (i_addr p) t = Some t1
              \<and> rd parent (i_addr p) t1 = Some (i_addr g) \<and> rbtree_red (i_addr g) t1 = Some t2
              \<and> rbtree_left_rotate (i_addr g) t2 = Some t'
              \<and> rb_repr t' sp p0 (plug (Node a q cq b) (FR (Node u g True d) p False # C))
              \<and> sentinel t' = sentinel t"
proof -
  have q: "rd parent (i_addr q) t = Some (i_addr p)" using rd_at(3) [OF assms] by simp
  from black_node_repr [of t sp p0 d p cp "Node a q cq b" "FR u g cg # C"] assms obtain t1 where
    t1: "rbtree_black (i_addr p) t = Some t1" "sentinel t1 = sentinel t"
      "rb_repr t1 sp p0 (plug (Node d p False (Node a q cq b)) (FR u g cg # C))" by auto
  have g: "rd parent (i_addr p) t1 = Some (i_addr g)" using rd_at(3) [OF t1(3)] by simp
  from red_repr [of t1 sp p0 u g cg _ C] t1(3) obtain t2 where
    t2: "rbtree_red (i_addr g) t1 = Some t2" "sentinel t2 = sentinel t1"
      "rb_repr t2 sp p0 (plug (Node u g True (Node d p False (Node a q cq b))) C)" by fastforce
  from left_rotate_repr [OF t2(3)] show ?thesis using q t1 g t2 by auto
qed

text \<open>One turn of the loop.\<close>

lemma insert_step_left_left:
  assumes r: "rb_repr t sp p0 (plug (Node l x c r) (FL p cp b # FL g cg u # C))"
  shows "\<exists>t'. rbtree_insert_step (i_addr x) t
                = Some (ptr (sentinel t) (fst (ins_step (Node l x c r) (FL p cp b) (FL g cg u) C)), t')
              \<and> rb_repr t' sp p0 (case ins_step (Node l x c r) (FL p cp b) (FL g cg u) C of (T, D) \<Rightarrow> plug T D)
              \<and> sentinel t' = sentinel t"
proof -
  have rp: "rb_repr t sp p0 (plug (Node (Node l x c r) p cp b) (FL g cg u # C))"
    and rg: "rb_repr t sp p0 (plug (Node (Node (Node l x c r) p cp b) g cg u) C)"
    and ru: "rb_repr t sp p0 (plug u (FR (Node (Node l x c r) p cp b) g cg # C))"
    using r by simp_all
  note reads = rd_at(3) [OF r] rd_at(3) [OF rp] rd_at(1,2) [OF rg] rd_at(2) [OF rp] is_red_at [OF ru]
  have ne: "i_addr x \<noteq> ptr (sentinel t) b"
    using r by (simp add: rb_unfold; (elim conjE)?; simp)
  show ?thesis
  proof (cases "is_red u")
    case True
    with recolour_repr [OF rg] reads show ?thesis by (auto simp: rbtree_insert_step_def)
  next
    case False
    with turn_right_repr [OF r] reads ne show ?thesis by (auto simp: rbtree_insert_step_def)
  qed
qed

lemma insert_step_right_right:
  assumes r: "rb_repr t sp p0 (plug (Node l x c r) (FR a p cp # FR u g cg # C))"
  shows "\<exists>t'. rbtree_insert_step (i_addr x) t
                = Some (ptr (sentinel t) (fst (ins_step (Node l x c r) (FR a p cp) (FR u g cg) C)), t')
              \<and> rb_repr t' sp p0 (case ins_step (Node l x c r) (FR a p cp) (FR u g cg) C of (T, D) \<Rightarrow> plug T D)
              \<and> sentinel t' = sentinel t"
proof -
  have rp: "rb_repr t sp p0 (plug (Node a p cp (Node l x c r)) (FR u g cg # C))"
    and rg: "rb_repr t sp p0 (plug (Node u g cg (Node a p cp (Node l x c r))) C)"
    and ru: "rb_repr t sp p0 (plug u (FL g cg (Node a p cp (Node l x c r)) # C))"
    using r by simp_all
  note reads = rd_at(3) [OF r] rd_at(3) [OF rp] rd_at(1,2) [OF rg] rd_at(1) [OF rp] is_red_at [OF ru]
  have ne: "i_addr x \<noteq> ptr (sentinel t) a" "i_addr p \<noteq> ptr (sentinel t) u"
    using r by (simp add: rb_unfold; (elim conjE)?; simp)+
  show ?thesis
  proof (cases "is_red u")
    case True
    with recolour_mirror_repr [OF rg] reads ne show ?thesis by (auto simp: rbtree_insert_step_def)
  next
    case False
    with turn_left_repr [OF r] reads ne show ?thesis by (auto simp: rbtree_insert_step_def)
  qed
qed

lemma insert_step_left_right:
  assumes r: "rb_repr t sp p0 (plug (Node l x c r) (FR a p cp # FL g cg u # C))"
  shows "\<exists>t'. rbtree_insert_step (i_addr x) t
                = Some (ptr (sentinel t) (fst (ins_step (Node l x c r) (FR a p cp) (FL g cg u) C)), t')
              \<and> rb_repr t' sp p0 (case ins_step (Node l x c r) (FR a p cp) (FL g cg u) C of (T, D) \<Rightarrow> plug T D)
              \<and> sentinel t' = sentinel t"
proof -
  have rp: "rb_repr t sp p0 (plug (Node a p cp (Node l x c r)) (FL g cg u # C))"
    and rg: "rb_repr t sp p0 (plug (Node (Node a p cp (Node l x c r)) g cg u) C)"
    and ru: "rb_repr t sp p0 (plug u (FR (Node a p cp (Node l x c r)) g cg # C))"
    using r by simp_all
  note reads = rd_at(3) [OF r] rd_at(3) [OF rp] rd_at(1,2) [OF rg] rd_at(2) [OF rp] is_red_at [OF ru]
  show ?thesis
  proof (cases "is_red u")
    case True
    with recolour_repr [OF rg] reads show ?thesis by (auto simp: rbtree_insert_step_def)
  next
    case False
    from left_rotate_repr [OF rp] obtain t1 where
      t1: "rbtree_left_rotate (i_addr p) t = Some t1" "sentinel t1 = sentinel t"
        "rb_repr t1 sp p0 (plug (Node a p cp l) (FL x c r # FL g cg u # C))" by auto
    from turn_right_repr [OF t1(3)] t1(1,2) False reads show ?thesis
      by (auto simp: rbtree_insert_step_def)
  qed
qed

lemma insert_step_right_left:
  assumes r: "rb_repr t sp p0 (plug (Node l x c r) (FL p cp b # FR u g cg # C))"
  shows "\<exists>t'. rbtree_insert_step (i_addr x) t
                = Some (ptr (sentinel t) (fst (ins_step (Node l x c r) (FL p cp b) (FR u g cg) C)), t')
              \<and> rb_repr t' sp p0 (case ins_step (Node l x c r) (FL p cp b) (FR u g cg) C of (T, D) \<Rightarrow> plug T D)
              \<and> sentinel t' = sentinel t"
proof -
  have rp: "rb_repr t sp p0 (plug (Node (Node l x c r) p cp b) (FR u g cg # C))"
    and rg: "rb_repr t sp p0 (plug (Node u g cg (Node (Node l x c r) p cp b)) C)"
    and ru: "rb_repr t sp p0 (plug u (FL g cg (Node (Node l x c r) p cp b) # C))"
    using r by simp_all
  note reads = rd_at(3) [OF r] rd_at(3) [OF rp] rd_at(1,2) [OF rg] rd_at(1) [OF rp] is_red_at [OF ru]
  have ne: "i_addr p \<noteq> ptr (sentinel t) u"
    using r by (simp add: rb_unfold; (elim conjE)?; simp)
  show ?thesis
  proof (cases "is_red u")
    case True
    with recolour_mirror_repr [OF rg] reads ne show ?thesis by (auto simp: rbtree_insert_step_def)
  next
    case False
    from right_rotate_repr [OF rp] obtain t1 where
      t1: "rbtree_right_rotate (i_addr p) t = Some t1" "sentinel t1 = sentinel t"
        "rb_repr t1 sp p0 (plug (Node r p cp b) (FR l x c # FR u g cg # C))" by auto
    from turn_left_repr [OF t1(3)] t1(1,2) False reads ne show ?thesis
      by (auto simp: rbtree_insert_step_def)
  qed
qed

lemma insert_step_repr:
  assumes "rb_repr t sp p0 (plug (Node l x c r) (f1 # f2 # C))"
  shows "\<exists>t'. rbtree_insert_step (i_addr x) t
                = Some (ptr (sentinel t) (fst (ins_step (Node l x c r) f1 f2 C)), t')
              \<and> rb_repr t' sp p0 (case ins_step (Node l x c r) f1 f2 C of (T, D) \<Rightarrow> plug T D)
              \<and> sentinel t' = sentinel t"
proof (cases f1)
  case f1: (FL p cp b)
  show ?thesis
  proof (cases f2)
    case (FL g cg u)
    with f1 insert_step_left_left assms show ?thesis by blast
  next
    case (FR u g cg)
    with f1 insert_step_right_left assms show ?thesis by blast
  qed
next
  case f1: (FR a p cp)
  show ?thesis
  proof (cases f2)
    case (FL g cg u)
    with f1 insert_step_left_right assms show ?thesis by blast
  next
    case (FR u g cg)
    with f1 insert_step_right_right assms show ?thesis by blast
  qed
qed

text \<open>The position after a turn is again a node, and the outermost frame is still black.\<close>

lemma ins_step_node: "T \<noteq> Leaf \<Longrightarrow> fst (ins_step T f1 f2 C) \<noteq> Leaf"
  by (cases f1; cases f2; cases T) auto

lemma ins_step_root_black:
  "T \<noteq> Leaf \<Longrightarrow> root_black (f1 # f2 # C) \<Longrightarrow> root_black (snd (ins_step T f1 f2 C))"
  by (cases f1; cases f2; cases T; cases C rule: rev_cases) (auto simp: root_black_def)

lemma insert_fixup_repr:
  assumes "rb_repr t sp p0 (plug T C)" "T \<noteq> Leaf" "root_black C"
  shows "\<exists>t'. rbtree_insert_fixup (ptr (sentinel t) T) t = Some t'
              \<and> rb_repr t' sp p0 (ins_loop T C) \<and> sentinel t' = sentinel t"
  using assms
proof (induction T C arbitrary: t rule: ins_loop.induct)
  case (1 T C t)
  obtain l x c r where T: "T = Node l x c r" using "1.prems"(2) by (cases T) auto
  have guard: "rbtree_insert_guard (i_addr x) t = Some (case C of [] \<Rightarrow> False | f # _ \<Rightarrow> fcol f)"
    using insert_guard_at "1.prems"(1) T by blast
  show ?case
  proof (cases "\<exists>f1 f2 C'. C = f1 # f2 # C' \<and> fcol f1")
    case True
    then obtain f1 f2 C' where C: "C = f1 # f2 # C'" "fcol f1" by blast
    obtain T' D where st: "ins_step T f1 f2 C' = (T', D)" by fastforce
    from insert_step_repr [of t sp p0 l x c r f1 f2 C'] "1.prems"(1) T C st obtain t' where
      t': "rbtree_insert_step (i_addr x) t = Some (ptr (sentinel t) T', t')"
        "rb_repr t' sp p0 (plug T' D)" "sentinel t' = sentinel t" by auto
    have "T' \<noteq> Leaf" "root_black D"
      using ins_step_node [of T f1 f2 C'] ins_step_root_black [of T f1 f2 C'] "1.prems" C st by auto
    with "1.IH" [OF C(1) _, of f2 C' t'] C st t' "1.prems"(2)
    obtain t'' where "rbtree_insert_fixup (ptr (sentinel t') T') t' = Some t''"
      "rb_repr t'' sp p0 (ins_loop T' D)" "sentinel t'' = sentinel t'"
      by auto
    then show ?thesis
      using guard C st t' T "1.prems"(2)
      by (simp add: rbtree_insert_fixup.simps [of "i_addr x" t] ins_loop.simps [of _ "f1 # f2 # C'"])
  next
    case False
    consider "C = []" | f where "C = [f]" | f1 f2 C' where "C = f1 # f2 # C'"
      by (cases C; cases "tl C") auto
    then have "(case C of [] \<Rightarrow> False | f # _ \<Rightarrow> fcol f) = False \<and> ins_loop T C = plug T C"
      using False "1.prems"(3) by cases (simp_all add: root_black_def ins_loop.simps [of T])
    with guard "1.prems"(1) T show ?thesis
      by (simp add: rbtree_insert_fixup.simps [of "i_addr x" t])
  qed
qed

text \<open>The descent, and the new node linked in at its end.\<close>

lemma insert_find_repr:
  assumes "rb_repr t sp p0 (plug T C)" "T \<noteq> Leaf" "rd key node t = Some k"
  shows "\<exists>f D. desc k T C = f # D
           \<and> rbtree_insert_find node (ptr (sentinel t) T) t
               = Some (case f of FL x c r \<Rightarrow> (i_addr x, True) | FR l x c \<Rightarrow> (i_addr x, False))"
  using assms
proof (induction T arbitrary: C)
  case Leaf
  then show ?case by simp
next
  case (Node l x c r)
  note reads = rd_at(1,2,4) [OF Node.prems(1)]
  have ne: "T' = Leaf \<longleftrightarrow> ptr (sentinel t) T' = sentinel t" if "T' = l \<or> T' = r" for T'
    using Node.prems(1) that by (cases T') (auto simp: rb_unfold)
  show ?case
  proof (cases "sint k < sint (i_key x)")
    case True
    with reads Node.prems Node.IH(1) [of "FL x c r # C"] ne [of l] show ?thesis
      by (cases "l = Leaf") (simp_all add: rbtree_insert_find.simps [of node "i_addr x" t])
  next
    case False
    with reads Node.prems Node.IH(2) [of "FR l x c # C"] ne [of r] show ?thesis
      by (cases "r = Leaf") (simp_all add: rbtree_insert_find.simps [of node "i_addr x" t])
  qed
qed

lemma plug_desc: "plug Leaf (desc k T C) = plug T C"
  by (induction T arbitrary: C) auto

lemma desc_root_black: "T \<noteq> Leaf \<or> root_black C \<Longrightarrow> \<not> is_red (plug T C) \<Longrightarrow> root_black (desc k T C)"
proof (induction T arbitrary: C)
  case Leaf
  then show ?case by simp
next
  case (Node l x c r)
  have "root_black (FL x c r # C) \<and> root_black (FR l x c # C)"
    using Node.prems(2)
  proof (induction C arbitrary: l x c r)
    case Nil
    then show ?case by (simp add: root_black_def)
  next
    case (Cons f C)
    then show ?case by (cases f) (auto simp: root_black_def)
  qed
  with Node show ?case by auto
qed

text \<open>A node that is allocated, and neither null, nor the sentinel, nor in the tree.\<close>

definition fresh_node :: "rbtree \<Rightarrow> addr \<Rightarrow> rbt \<Rightarrow> bool" where
  "fresh_node t a T \<longleftrightarrow> a \<noteq> NULL \<and> a \<noteq> sentinel t \<and> a \<notin> set (addrs T) \<and> nodes t a \<noteq> None"

definition item_at :: "rbtree \<Rightarrow> addr \<Rightarrow> item" where
  "item_at t a = (case nodes t a of
     None \<Rightarrow> \<lparr>i_addr = a, i_key = 0, i_data = NULL\<rparr>
   | Some n \<Rightarrow> \<lparr>i_addr = a, i_key = key n, i_data = data n\<rparr>)"

lemma item_at_addr [simp]: "i_addr (item_at t a) = a"
  by (simp add: item_at_def split: option.splits)

lemma insert_link_repr:
  assumes r: "rb_repr t sp p0 (plug Leaf (f # C))" and fresh: "fresh_node t a (plug Leaf (f # C))"
  shows "\<exists>t1 t2 t3.
           (case f of FL x c r \<Rightarrow> wr (i_addr x) (left_update (\<lambda>_. a)) t
                    | FR l x c \<Rightarrow> wr (i_addr x) (right_update (\<lambda>_. a)) t) = Some t1
           \<and> wr a (\<lambda>n. n\<lparr>parent := (case f of FL x c r \<Rightarrow> i_addr x | FR l x c \<Rightarrow> i_addr x),
                         left := sentinel t1, right := sentinel t1\<rparr>) t1 = Some t2
           \<and> rbtree_red a t2 = Some t3 \<and> sentinel t3 = sentinel t
           \<and> rb_repr t3 sp p0 (plug (Node Leaf (item_at t a) True Leaf) (f # C))"
proof -
  obtain n where n: "nodes t a = Some n" using fresh by (auto simp: fresh_node_def)
  have it: "item_at t a = \<lparr>i_addr = a, i_key = key n, i_data = data n\<rparr>" by (simp add: item_at_def n)
  have mk: "n\<lparr>parent := q, left := s, right := s, color := 1\<rparr> = mk_node (item_at t a) True s s q" for q s
    by (cases n) (simp add: it mk_node_def)
  show ?thesis
  proof (cases f)
    case (FL x c e)
    with r fresh n mk show ?thesis
      by (simp add: rb_unfold rbtree_red_def fresh_node_def; (elim conjE)?; simp)
  next
    case (FR e x c)
    with r fresh n mk show ?thesis
      by (simp add: rb_unfold rbtree_red_def fresh_node_def; (elim conjE)?; simp)
  qed
qed

lemma rbtree_insert_repr:
  assumes r: "rb_repr t sp p0 T" and fresh: "fresh_node t a T" and black: "\<not> is_red T"
  shows "\<exists>t' p0'. rbtree_insert a t = Some t' \<and> rb_repr t' sp p0' (rb_insert (item_at t a) T)
                  \<and> sentinel t' = sentinel t"
proof (cases "T = Leaf")
  case True
  obtain n where n: "nodes t a = Some n" using fresh by (auto simp: fresh_node_def)
  have mk: "n\<lparr>parent := q, left := s, right := s, color := 0\<rparr> = mk_node (item_at t a) False s s q" for q s
    by (cases n) (simp add: item_at_def n mk_node_def)
  have "\<exists>t'. rbtree_insert a t = Some t' \<and> rb_repr t' sp NULL (rb_insert (item_at t a) T)
             \<and> sentinel t' = sentinel t"
    using r True fresh n mk
    by (simp add: rbtree_insert_def rbtree_black_def rb_insert_def rb_unfold fresh_node_def;
        (elim conjE)?; simp)
  then show ?thesis by blast
next
  case False
  obtain k where k: "rd key a t = Some k" "k = i_key (item_at t a)"
    using fresh by (auto simp: fresh_node_def rd_def item_at_def)
  have rT: "rb_repr t sp p0 (plug T [])" using r by simp
  from insert_find_repr [OF rT False k(1)] obtain f D where
    fD: "desc k T [] = f # D" "rbtree_insert_find a (root t) t
           = Some (case f of FL x c r \<Rightarrow> (i_addr x, True) | FR l x c \<Rightarrow> (i_addr x, False))"
    using root_at [OF r] by auto
  have pl: "plug Leaf (f # D) = T" using plug_desc [of k T "[]"] fD(1) by simp
  from insert_link_repr [of t sp p0 f D a] r fresh pl obtain t1 t2 t3 where
    l: "(case f of FL x c r \<Rightarrow> wr (i_addr x) (left_update (\<lambda>_. a)) t
                 | FR l x c \<Rightarrow> wr (i_addr x) (right_update (\<lambda>_. a)) t) = Some t1"
      "wr a (\<lambda>n. n\<lparr>parent := (case f of FL x c r \<Rightarrow> i_addr x | FR l x c \<Rightarrow> i_addr x),
                    left := sentinel t1, right := sentinel t1\<rparr>) t1 = Some t2"
      "rbtree_red a t2 = Some t3" "sentinel t3 = sentinel t"
      "rb_repr t3 sp p0 (plug (Node Leaf (item_at t a) True Leaf) (f # D))"
    by auto
  have "root_black (f # D)" using desc_root_black [of T "[]" k] False black fD(1) by simp
  from insert_fixup_repr [OF l(5) _ this] obtain t4 where
    t4: "rbtree_insert_fixup a t3 = Some t4" "sentinel t4 = sentinel t3"
      "rb_repr t4 sp p0 (plug (ins_loop (Node Leaf (item_at t a) True Leaf) (f # D)) [])"
    by auto
  from black_repr [OF t4(3)] root_at [OF t4(3)] obtain t5 where
    t5: "rbtree_black (root t4) t4 = Some t5" "sentinel t5 = sentinel t4"
      "rb_repr t5 sp p0 (rb_insert (item_at t a) T)"
    using False fD(1) k(2) by (auto simp: rb_insert_def)
  have "root t \<noteq> sentinel t"
    using r False root_at [OF r] by (cases T) (auto simp: rb_repr_def)
  with fD(2) l t4 t5 show ?thesis
    by (cases f) (auto simp: rbtree_insert_def)
qed

end
