(* ===== verification/Rbtree_Order.thy ===== *)
theory Rbtree_Order
  imports Rbtree_Insert
begin

text \<open>
  The two invariants of the tree, on functional trees.  \<open>ordered\<close>: the keys are in ascending signed
  order from left to right.  \<open>rb_inv\<close>: the root is black, no red node has a red child, and every path
  down crosses the same number of black nodes.  Both are carried through positions (\<open>ctx_h\<close>, \<open>ctx_c\<close>
  say what a context demands of the subtree in it), insertion keeps them, and lookup and minimum
  are characterised by the in-order list.
\<close>

section \<open>Order\<close>

definition skey :: "item \<Rightarrow> int" where
  "skey x = sint (i_key x)"

definition ordered :: "rbt \<Rightarrow> bool" where
  "ordered T \<longleftrightarrow> sorted (map skey (inorder T))"

fun ctx_left :: "frame list \<Rightarrow> item list" where
  "ctx_left [] = []"
| "ctx_left (FL x c r # C) = ctx_left C"
| "ctx_left (FR l x c # C) = ctx_left C @ inorder l @ [x]"

fun ctx_right :: "frame list \<Rightarrow> item list" where
  "ctx_right [] = []"
| "ctx_right (FL x c r # C) = x # inorder r @ ctx_right C"
| "ctx_right (FR l x c # C) = ctx_right C"

text \<open>Insertion into a list behind the elements whose key is not greater.\<close>

fun ins_item :: "item \<Rightarrow> item list \<Rightarrow> item list" where
  "ins_item x [] = [x]"
| "ins_item x (y # ys) = (if skey x < skey y then x # y # ys else y # ins_item x ys)"

lemma inorder_plug: "inorder (plug T C) = ctx_left C @ inorder T @ ctx_right C"
proof (induction C arbitrary: T)
  case Nil
  show ?case by simp
next
  case (Cons f C)
  then show ?case by (cases f) auto
qed

lemma addrs_inorder: "set (addrs T) = i_addr ` set (inorder T)"
  by (induction T) auto

lemma inorder_paint [simp]: "inorder (paint c T) = inorder T"
  by (cases T) auto

lemma ins_item_less: "skey x < skey y \<Longrightarrow> ins_item x (xs @ y # ys) = ins_item x xs @ y # ys"
  by (induction xs) auto

lemma ins_item_geq:
  "\<not> skey x < skey y \<Longrightarrow> sorted (map skey (xs @ y # ys)) \<Longrightarrow> ins_item x (xs @ y # ys) = xs @ y # ins_item x ys"
  by (induction xs) auto

lemma set_ins_item [simp]: "set (ins_item x xs) = insert x (set xs)"
  by (induction xs) auto

lemma sorted_ins_item: "sorted (map skey xs) \<Longrightarrow> sorted (map skey (ins_item x xs))"
  by (induction xs) auto

lemma desc_skey:
  "desc (i_key x) (Node l y c r) C =
     (if skey x < skey y then desc (i_key x) l (FL y c r # C) else desc (i_key x) r (FR l y c # C))"
  by (simp add: skey_def)

lemma inorder_desc:
  "sorted (map skey (inorder T)) \<Longrightarrow>
   inorder (plug (Node Leaf x c Leaf) (desc (i_key x) T C)) = ctx_left C @ ins_item x (inorder T) @ ctx_right C"
proof (induction T arbitrary: C)
  case Leaf
  then show ?case by (simp add: inorder_plug)
next
  case (Node l y cy r)
  have s: "sorted (map skey (inorder l))" "sorted (map skey (inorder r))"
    using Node.prems by (auto simp: sorted_append)
  show ?case
  proof (cases "skey x < skey y")
    case True
    with Node.IH(1) [OF s(1)] show ?thesis by (simp add: ins_item_less desc_skey del: desc.simps)
  next
    case False
    with Node.IH(2) [OF s(2)] Node.prems ins_item_geq [of x y "inorder l" "inorder r"]
    show ?thesis by (simp add: desc_skey del: desc.simps)
  qed
qed

lemma inorder_ins_step:
  "inorder (case ins_step T f1 f2 C of (T', D) \<Rightarrow> plug T' D) = inorder (plug T (f1 # f2 # C))"
  by (cases f1; cases f2; cases T) (auto simp: inorder_plug)

lemma inorder_ins_loop: "inorder (ins_loop T C) = inorder (plug T C)"
proof (induction T C rule: ins_loop.induct)
  case (1 T C)
  show ?case
  proof (cases "\<exists>f1 f2 C'. C = f1 # f2 # C' \<and> fcol f1 \<and> T \<noteq> Leaf")
    case True
    then obtain f1 f2 C' where C: "C = f1 # f2 # C'" "fcol f1" "T \<noteq> Leaf" by blast
    with "1.IH" [of f1 "f2 # C'" f2 C'] inorder_ins_step [of T f1 f2 C'] show ?thesis
      by (simp add: ins_loop.simps [of T] split: prod.splits)
  next
    case False
    consider "C = []" | f where "C = [f]" | f1 f2 C' where "C = f1 # f2 # C'"
      by (cases C; cases "tl C") auto
    then show ?thesis using False by cases (auto simp: ins_loop.simps [of T])
  qed
qed

lemma inorder_rb_insert: "ordered T \<Longrightarrow> inorder (rb_insert x T) = ins_item x (inorder T)"
  using inorder_desc [of T x True "[]"]
  by (auto simp: rb_insert_def ordered_def inorder_ins_loop)

lemma ordered_rb_insert: "ordered T \<Longrightarrow> ordered (rb_insert x T)"
  using sorted_ins_item by (simp add: ordered_def inorder_rb_insert)

section \<open>Balance\<close>

fun bheight :: "rbt \<Rightarrow> nat" where
  "bheight Leaf = 0"
| "bheight (Node l x c r) = bheight l + (if c then 0 else 1)"

fun invh :: "rbt \<Rightarrow> bool" where
  "invh Leaf \<longleftrightarrow> True"
| "invh (Node l x c r) \<longleftrightarrow> bheight l = bheight r \<and> invh l \<and> invh r"

fun invc :: "rbt \<Rightarrow> bool" where
  "invc Leaf \<longleftrightarrow> True"
| "invc (Node l x c r) \<longleftrightarrow> (c \<longrightarrow> \<not> is_red l \<and> \<not> is_red r) \<and> invc l \<and> invc r"

definition rb_inv :: "rbt \<Rightarrow> bool" where
  "rb_inv T \<longleftrightarrow> invc T \<and> invh T \<and> \<not> is_red T"

fun top_red :: "frame list \<Rightarrow> bool" where
  "top_red [] \<longleftrightarrow> False"
| "top_red (f # C) \<longleftrightarrow> fcol f"

fun ctx_h :: "frame list \<Rightarrow> nat \<Rightarrow> bool" where
  "ctx_h [] h \<longleftrightarrow> True"
| "ctx_h (FL x c r # C) h \<longleftrightarrow> invh r \<and> bheight r = h \<and> ctx_h C (h + (if c then 0 else 1))"
| "ctx_h (FR l x c # C) h \<longleftrightarrow> invh l \<and> bheight l = h \<and> ctx_h C (h + (if c then 0 else 1))"

fun ctx_c :: "frame list \<Rightarrow> bool" where
  "ctx_c [] \<longleftrightarrow> True"
| "ctx_c (FL x c r # C) \<longleftrightarrow> invc r \<and> (c \<longrightarrow> \<not> is_red r \<and> \<not> top_red C) \<and> ctx_c C"
| "ctx_c (FR l x c # C) \<longleftrightarrow> invc l \<and> (c \<longrightarrow> \<not> is_red l \<and> \<not> top_red C) \<and> ctx_c C"

lemma invh_plug: "invh (plug T C) \<longleftrightarrow> invh T \<and> ctx_h C (bheight T)"
proof (induction C arbitrary: T)
  case Nil
  show ?case by simp
next
  case (Cons f C)
  show ?case by (cases f) (simp only: plug.simps Cons.IH ctx_h.simps invh.simps bheight.simps; metis)+
qed

lemma invc_plug: "invc (plug T C) \<longleftrightarrow> invc T \<and> ctx_c C \<and> \<not> (is_red T \<and> top_red C)"
proof (induction C arbitrary: T)
  case Nil
  show ?case by simp
next
  case (Cons f C)
  show ?case by (cases f) (simp add: Cons.IH; blast)+
qed

lemma is_red_plug: "C \<noteq> [] \<Longrightarrow> is_red (plug T C) \<longleftrightarrow> fcol (last C)"
proof (induction C arbitrary: T)
  case Nil
  then show ?case by simp
next
  case (Cons f C)
  then show ?case by (cases f; cases C) auto
qed

lemma paint_black [simp]:
  "\<not> is_red (paint False T)" "invc T \<Longrightarrow> invc (paint False T)" "invh (paint c T) = invh T"
  by (cases T; simp)+

lemma bheight_paint_black: "is_red T \<Longrightarrow> bheight (paint False T) = Suc (bheight T)"
  by (cases T) auto

text \<open>The state of the insertion loop: everything is right except that the position may be red under
  a red parent.\<close>

definition ins_state :: "rbt \<Rightarrow> frame list \<Rightarrow> bool" where
  "ins_state T C \<longleftrightarrow> is_red T \<and> invc T \<and> invh T \<and> ctx_c C \<and> ctx_h C (bheight T) \<and> root_black C"

lemma ins_step_state:
  assumes "ins_state T (f1 # f2 # C)" "fcol f1"
  shows "case ins_step T f1 f2 C of (T', D) \<Rightarrow> ins_state T' D"
proof -
  obtain l x r where T: "T = Node l x True r"
    using assms(1) by (cases T) (auto simp: ins_state_def)
  have rb: "root_black (snd (ins_step T f1 f2 C))"
    using assms(1) T by (intro ins_step_root_black) (auto simp: ins_state_def)
  show ?thesis
    using assms(2) rb assms(1) unfolding T ins_state_def
    by (cases f1; cases f2; simp split: if_splits; simp add: bheight_paint_black)
qed

lemma ins_loop_inv:
  "ins_state T C \<Longrightarrow> invc (ins_loop T C) \<and> invh (ins_loop T C)"
proof (induction T C rule: ins_loop.induct)
  case (1 T C)
  have T: "T \<noteq> Leaf" using "1.prems" by (auto simp: ins_state_def)
  show ?case
  proof (cases "\<exists>f1 f2 C'. C = f1 # f2 # C' \<and> fcol f1")
    case True
    then obtain f1 f2 C' where C: "C = f1 # f2 # C'" "fcol f1" by blast
    with "1.IH" [of f1 "f2 # C'" f2 C'] ins_step_state [of T f1 f2 C'] "1.prems" T show ?thesis
      by (simp add: ins_loop.simps [of T] split: prod.splits)
  next
    case False
    consider "C = []" | f where "C = [f]" | f1 f2 C' where "C = f1 # f2 # C'"
      by (cases C; cases "tl C") auto
    then have "ins_loop T C = plug T C \<and> \<not> top_red C"
      using False "1.prems" by cases (auto simp: ins_loop.simps [of T] ins_state_def root_black_def)
    with "1.prems" show ?thesis by (simp add: ins_state_def invc_plug invh_plug)
  qed
qed

lemma rb_inv_insert: "rb_inv T \<Longrightarrow> rb_inv (rb_insert x T)"
proof (cases "T = Leaf")
  case True
  then show ?thesis by (simp add: rb_insert_def rb_inv_def)
next
  case False
  assume "rb_inv T"
  let ?C = "desc (i_key x) T []"
  have "plug Leaf ?C = T" by (simp add: plug_desc)
  then have "ctx_c ?C" "ctx_h ?C 0" "root_black ?C"
    using \<open>rb_inv T\<close> invc_plug [of Leaf ?C] invh_plug [of Leaf ?C] desc_root_black [of T "[]" "i_key x"] False
    by (auto simp: rb_inv_def)
  then have "ins_state (Node Leaf x True Leaf) ?C" by (simp add: ins_state_def)
  from ins_loop_inv [OF this] False show ?thesis by (simp add: rb_insert_def rb_inv_def)
qed

text \<open>The height is at most twice the logarithm of the number of nodes.\<close>

fun rb_height :: "rbt \<Rightarrow> nat" where
  "rb_height Leaf = 0"
| "rb_height (Node l x c r) = Suc (max (rb_height l) (rb_height r))"

lemma rb_height_bheight:
  "invc T \<Longrightarrow> invh T \<Longrightarrow> rb_height T \<le> 2 * bheight T + (if is_red T then 1 else 0)"
  by (induction T) (auto split: if_splits)

lemma bheight_size: "invh T \<Longrightarrow> 2 ^ bheight T \<le> length (inorder T) + 1"
proof (induction T)
  case Leaf
  then show ?case by simp
next
  case (Node l x c r)
  then have l: "2 ^ bheight l \<le> length (inorder l) + 1" and r: "2 ^ bheight l \<le> length (inorder r) + 1" by auto
  have "(2::nat) ^ bheight (Node l x c r) \<le> 2 * 2 ^ bheight l" by simp
  also have "\<dots> \<le> length (inorder (Node l x c r)) + 1" using l r by simp
  finally show ?case .
qed

lemma rb_height_bound:
  assumes "rb_inv T"
  shows "2 ^ rb_height T \<le> (length (inorder T) + 1)\<^sup>2"
proof -
  have "rb_height T \<le> 2 * bheight T" using rb_height_bheight [of T] assms by (simp add: rb_inv_def)
  then have "(2::nat) ^ rb_height T \<le> 2 ^ (2 * bheight T)" by (rule power_increasing) simp
  also have "\<dots> = (2 ^ bheight T)\<^sup>2" by (simp add: power_mult [symmetric] mult.commute)
  also have "\<dots> \<le> (length (inorder T) + 1)\<^sup>2"
    using bheight_size [of T] assms by (intro power_mono) (simp_all add: rb_inv_def)
  finally show ?thesis .
qed

section \<open>Search\<close>

fun tree_find :: "64 word \<Rightarrow> rbt \<Rightarrow> item option" where
  "tree_find k Leaf = None"
| "tree_find k (Node l x c r) =
     (if i_key x = k then Some x else if sint k < sint (i_key x) then tree_find k l else tree_find k r)"

lemma tree_find_Some: "tree_find k T = Some x \<Longrightarrow> x \<in> set (inorder T) \<and> i_key x = k"
  by (induction T) (auto split: if_splits)

lemma tree_find_None: "ordered T \<Longrightarrow> tree_find k T = None \<Longrightarrow> x \<in> set (inorder T) \<Longrightarrow> i_key x \<noteq> k"
proof (induction T)
  case Leaf
  then show ?case by simp
next
  case (Node l y c r)
  have o: "ordered l" "ordered r" using Node.prems(1) by (auto simp: ordered_def sorted_append)
  have le: "z \<in> set (inorder l) \<Longrightarrow> skey z \<le> skey y" "z \<in> set (inorder r) \<Longrightarrow> skey y \<le> skey z" for z
    using Node.prems(1) by (auto simp: ordered_def sorted_append)
  consider "x = y" | "x \<in> set (inorder l)" | "x \<in> set (inorder r)" using Node.prems(3) by auto
  then show ?case
  proof cases
    case 1
    with Node.prems(2) show ?thesis by (auto split: if_splits)
  next
    case 2
    with Node.IH(1) [OF o(1)] le(1) [of x] Node.prems(2) show ?thesis
      by (auto simp: skey_def not_less [symmetric] split: if_splits)
        (metis order_le_less signed_word_eqI)
  next
    case 3
    with Node.IH(2) [OF o(2)] le(2) [of x] Node.prems(2) show ?thesis
      by (auto simp: skey_def split: if_splits)
  qed
qed

lemma lookup_from_repr:
  assumes "rb_repr t sp p0 (plug T C)"
  shows "rbtree_lookup_from (ptr (sentinel t) T) k t
           = Some (case tree_find k T of Some x \<Rightarrow> i_addr x | None \<Rightarrow> if k = 0 then sentinel t else NULL)"
  using assms
proof (induction T arbitrary: C)
  case Leaf
  have "sentinel t \<noteq> NULL" using Leaf by (simp add: rb_repr_def)
  with rd_sentinel [OF Leaf] show ?case
    by (auto simp: rbtree_lookup_from.simps [of "sentinel t"] rbtree_lookup_from.simps [of NULL])
next
  case (Node l x c r)
  have "i_addr x \<noteq> NULL" using Node.prems by (auto simp: rb_repr_def set_addrs_plug)
  with rd_at(1,2,4) [OF Node.prems] Node.IH(1) [of "FL x c r # C"] Node.IH(2) [of "FR l x c # C"] Node.prems
  show ?case by (simp add: rbtree_lookup_from.simps [of "i_addr x"])
qed

lemma rbtree_lookup_repr:
  assumes "rb_repr t sp p0 T"
  shows "rbtree_lookup t k
           = Some (case tree_find k T of Some x \<Rightarrow> i_addr x | None \<Rightarrow> if k = 0 then sentinel t else NULL)"
  using lookup_from_repr [of t sp p0 T "[]"] assms root_at [OF assms] by (simp add: rbtree_lookup_def)

lemma node_min_repr:
  assumes "rb_repr t sp p0 (plug T C)" "T \<noteq> Leaf"
  shows "rbtree_node_min (ptr (sentinel t) T) (sentinel t) t = Some (i_addr (hd (inorder T)))"
  using assms
proof (induction T arbitrary: C)
  case Leaf
  then show ?case by simp
next
  case (Node l x c r)
  have "ptr (sentinel t) l = sentinel t \<longleftrightarrow> l = Leaf"
    using Node.prems(1) by (cases l) (auto simp: rb_unfold)
  with rd_at(1) [OF Node.prems(1)] Node.IH(1) [of "FL x c r # C"] Node.prems show ?case
    by (cases l) (simp_all add: rbtree_node_min.simps [of "i_addr x"] hd_append)
qed

lemma rbtree_min_repr:
  assumes "rb_repr t sp p0 T"
  shows "rbtree_min t = Some (case inorder T of [] \<Rightarrow> NULL | x # _ \<Rightarrow> i_addr x)"
proof (cases T)
  case Leaf
  with root_at [OF assms] show ?thesis by (simp add: rbtree_min_def)
next
  case (Node l x c r)
  have "root t \<noteq> sentinel t"
    using assms Node root_at [OF assms] by (auto simp: rb_repr_def)
  with node_min_repr [of t sp p0 T "[]"] Node assms root_at [OF assms] show ?thesis
    by (cases "inorder T") (auto simp: rbtree_min_def)
qed

lemma rbtree_init_repr:
  assumes "nodes t a \<noteq> None" "a \<noteq> NULL"
  shows "\<exists>t'. rbtree_init a t = Some t' \<and> rb_repr t' NULL p0 Leaf \<and> sentinel t' = a"
  using assms
  by (auto simp: rbtree_init_def rbtree_node_init_def rbtree_black_def wr_def rb_repr_def sentinel_node_def)

end
