(* ===== verification/Rbtree_Delete.thy ===== *)
theory Rbtree_Delete
  imports Rbtree_Order
begin

text \<open>
  Deletion of src/cs_rbtree.c against functional trees.  \<open>rb_delete a T\<close> takes the node at address
  \<open>a\<close> out of \<open>T\<close>: the node itself, or the leftmost node of its right subtree moved into its place;
  \<open>del_loop\<close> then repairs a position whose subtree is one black node short.  The loop is shown to end,
  to keep the in-order list and to restore the red-black invariant; the C functions are refined to
  it, which needs the invariant: it is what guarantees that the sibling the code dereferences is a
  node and not the sentinel.
\<close>

section \<open>The functional deletion\<close>

fun del_base :: "rbt \<Rightarrow> frame \<Rightarrow> frame list \<Rightarrow> rbt \<times> frame list" where
  "del_base T (FL p cp (Node wa x cx wb)) C =
     (if \<not> is_red wa \<and> \<not> is_red wb then (Node T p cp (Node wa x True wb), C)
      else if \<not> is_red wb
      then (case wa of
              Leaf \<Rightarrow> (plug T (FL p cp (Node wa x cx wb) # C), [])
            | Node a y cy b \<Rightarrow> (plug (Node (Node T p False a) y cp (Node b x False wb)) C, []))
      else (plug (Node (Node T p False wa) x cp (paint False wb)) C, []))"
| "del_base T (FR (Node wa x cx wb) p cp) C =
     (if \<not> is_red wa \<and> \<not> is_red wb then (Node (Node wa x True wb) p cp T, C)
      else if \<not> is_red wa
      then (case wb of
              Leaf \<Rightarrow> (plug T (FR (Node wa x cx wb) p cp # C), [])
            | Node a y cy b \<Rightarrow> (plug (Node (Node wa x False a) y cp (Node b p False T)) C, []))
      else (plug (Node (paint False wa) x cp (Node wb p False T)) C, []))"
| "del_base T f C = (plug T (f # C), [])"

fun del_step :: "rbt \<Rightarrow> frame \<Rightarrow> frame list \<Rightarrow> rbt \<times> frame list" where
  "del_step T (FL p cp (Node wa x True wb)) C = del_base T (FL p True wa) (FL x False wb # C)"
| "del_step T (FR (Node wa x True wb) p cp) C = del_base T (FR wb p True) (FR wa x False # C)"
| "del_step T f C = del_base T f C"

definition del_size :: "rbt \<times> frame list \<Rightarrow> nat" where
  "del_size TC = 2 * length (snd TC) + (if is_red (fst TC) then 0 else 1)"

lemma del_base_size:
  "snd (del_base T f C) = [] \<or> snd (del_base T f C) = C \<and> (\<forall>b p. f = FL p True b \<or> f = FR b p True \<longrightarrow> is_red (fst (del_base T f C)))"
  by (cases "(T, f, C)" rule: del_base.cases) (auto split: rbt.splits)

lemma del_step_size:
  assumes "\<not> is_red T"
  shows "del_size (del_step T f C) < del_size (T, f # C)"
proof (cases "(T, f, C)" rule: del_step.cases)
  case (1 T' p cp wa x wb C')
  then show ?thesis using del_base_size [of T "FL p True wa" "FL x False wb # C"] assms
    by (auto simp: del_size_def)
next
  case (2 T' wa x wb p cp C')
  then show ?thesis using del_base_size [of T "FR wb p True" "FR wa x False # C"] assms
    by (auto simp: del_size_def)
qed (use del_base_size [of T f C] assms in \<open>auto simp: del_size_def\<close>)

function del_loop :: "rbt \<Rightarrow> frame list \<Rightarrow> rbt" where
  "del_loop T C =
     (case C of
        [] \<Rightarrow> paint False T
      | f # C' \<Rightarrow>
          if is_red T then plug (paint False T) C
          else del_loop (fst (del_step T f C')) (snd (del_step T f C')))"
  by pat_completeness auto
termination
  by (relation "measure del_size") (auto simp: del_step_size)

declare del_loop.simps [simp del]

fun focus :: "addr \<Rightarrow> rbt \<Rightarrow> frame list \<Rightarrow> rbt \<times> frame list" where
  "focus a Leaf C = (Leaf, C)"
| "focus a (Node l x c r) C =
     (if i_addr x = a then (Node l x c r, C)
      else if a \<in> set (addrs l) then focus a l (FL x c r # C)
      else focus a r (FR l x c # C))"

fun min_pos :: "rbt \<Rightarrow> frame list \<Rightarrow> rbt \<times> frame list" where
  "min_pos Leaf D = (Leaf, D)"
| "min_pos (Node l x c r) D = (if l = Leaf then (Node l x c r, D) else min_pos l (FL x c r # D))"

text \<open>The position that is left, whether the node that left its place was red.\<close>

fun del_take :: "rbt \<Rightarrow> frame list \<Rightarrow> rbt \<times> frame list \<times> bool" where
  "del_take Leaf C = (Leaf, C, True)"
| "del_take (Node l x c r) C =
     (if l = Leaf then (r, C, c)
      else if r = Leaf then (l, C, c)
      else case min_pos r [] of
        (Leaf, D) \<Rightarrow> (Leaf, C, True)
      | (Node a y cy b, D) \<Rightarrow> (b, D @ FR l y c # C, cy))"

definition rb_delete :: "addr \<Rightarrow> rbt \<Rightarrow> rbt" where
  "rb_delete a T =
     (case focus a T [] of (S, C) \<Rightarrow> case del_take S C of (T', C', red) \<Rightarrow>
        if red \<and> C' \<noteq> [] then plug T' C' else del_loop T' C')"

section \<open>Order\<close>

lemma inorder_del_base:
  "inorder (case del_base T f C of (T', D) \<Rightarrow> plug T' D) = inorder (plug T (f # C))"
  by (cases "(T, f, C)" rule: del_base.cases) (auto simp: inorder_plug split: rbt.splits)

lemma inorder_del_step:
  "inorder (case del_step T f C of (T', D) \<Rightarrow> plug T' D) = inorder (plug T (f # C))"
  by (cases "(T, f, C)" rule: del_step.cases) (simp_all add: inorder_del_base inorder_plug del: del_base.simps)

lemma inorder_del_loop: "inorder (del_loop T C) = inorder (plug T C)"
proof (induction T C rule: del_loop.induct)
  case (1 T C)
  show ?case
  proof (cases C)
    case Nil
    then show ?thesis by (simp add: del_loop.simps [of T])
  next
    case (Cons f C')
    with "1.IH" [OF Cons] inorder_del_step [of T f C'] show ?thesis
      by (cases "is_red T") (auto simp: del_loop.simps [of T "f # C'"] Cons inorder_plug split: prod.splits)
  qed
qed

lemma focus_pos:
  assumes "a \<in> set (addrs T)" "distinct (addrs T)"
  shows "\<exists>l x c r D. focus a T C = (Node l x c r, D) \<and> plug (Node l x c r) D = plug T C \<and> i_addr x = a"
  using assms
proof (induction T arbitrary: C)
  case Leaf
  then show ?case by simp
next
  case (Node l x c r)
  then show ?case
    using Node.IH(1) [of "FL x c r # C"] Node.IH(2) [of "FR l x c # C"] by auto
qed

lemma min_pos_pos:
  assumes "T \<noteq> Leaf"
  shows "\<exists>y c r D. min_pos T C = (Node Leaf y c r, D @ C) \<and> plug (Node Leaf y c r) (D @ C) = plug T C
            \<and> ctx_left D = [] \<and> y = hd (inorder T)"
  using assms
proof (induction T arbitrary: C)
  case Leaf
  then show ?case by simp
next
  case (Node l x c r)
  show ?case
  proof (cases "l = Leaf")
    case True
    then show ?thesis by (auto intro: exI [of _ "[]"])
  next
    case False
    from Node.IH(1) [OF this, of "FL x c r # C"] obtain y cy ry D where
      "min_pos l (FL x c r # C) = (Node Leaf y cy ry, D @ FL x c r # C)"
      "plug (Node Leaf y cy ry) (D @ FL x c r # C) = plug l (FL x c r # C)" "ctx_left D = []"
      "y = hd (inorder l)"
      by blast
    moreover have "ctx_left (D @ [FL x c r]) = []" using \<open>ctx_left D = []\<close>
      by (induction D rule: ctx_left.induct) auto
    moreover have "inorder l \<noteq> []" using False by (cases l) auto
    ultimately show ?thesis using False by (auto intro!: exI [of _ "D @ [FL x c r]"])
  qed
qed

lemma ctx_left_append [simp]: "ctx_left (D @ C) = ctx_left C @ ctx_left D"
  by (induction D rule: ctx_left.induct) auto

lemma ctx_right_append [simp]: "ctx_right (D @ C) = ctx_right D @ ctx_right C"
  by (induction D rule: ctx_right.induct) auto

lemma plug_append: "plug T (D @ C) = plug (plug T D) C"
  by (induction T D rule: plug.induct) auto

lemma inorder_del_take:
  assumes "del_take (Node l x c r) C = (T', C', red)"
  shows "inorder (plug T' C') = ctx_left C @ inorder l @ inorder r @ ctx_right C"
proof -
  consider "l = Leaf \<or> r = Leaf" | "l \<noteq> Leaf" "r \<noteq> Leaf" by blast
  then show ?thesis
  proof cases
    case 1
    with assms show ?thesis by (auto simp: inorder_plug split: if_splits)
  next
    case 2
    from min_pos_pos [OF 2(2), of "[]"] obtain y cy b D where
      m: "min_pos r [] = (Node Leaf y cy b, D)" "plug (Node Leaf y cy b) D = r" "ctx_left D = []" by auto
    have "inorder r = y # inorder b @ ctx_right D" using m(2,3) inorder_plug [of "Node Leaf y cy b" D] by simp
    with assms 2 m(1,3) show ?thesis by (auto simp: inorder_plug)
  qed
qed

lemma inorder_rb_delete:
  assumes "a \<in> set (addrs T)" "distinct (addrs T)"
  shows "inorder (rb_delete a T) = filter (\<lambda>x. i_addr x \<noteq> a) (inorder T)"
proof -
  from focus_pos [OF assms, of "[]"] obtain l x c r C where
    f: "focus a T [] = (Node l x c r, C)" "plug (Node l x c r) C = T" "i_addr x = a" by auto
  obtain T' C' red where d: "del_take (Node l x c r) C = (T', C', red)" by (metis prod_cases3)
  have T: "inorder T = ctx_left C @ inorder l @ x # inorder r @ ctx_right C"
    using f(2) inorder_plug [of "Node l x c r" C] by simp
  have "distinct (map i_addr (inorder S))" if "distinct (addrs S)" for S
    using that by (induction S) (auto simp: addrs_inorder)
  from this [OF assms(2)] have "i_addr x \<notin> i_addr ` set (ctx_left C @ inorder l @ inorder r @ ctx_right C)"
    unfolding T by auto
  then have "\<forall>z \<in> set (ctx_left C @ inorder l @ inorder r @ ctx_right C). i_addr z \<noteq> a"
    using f(3) by (metis image_eqI)
  then have "filter (\<lambda>z. i_addr z \<noteq> a) (ctx_left C @ inorder l @ inorder r @ ctx_right C)
              = ctx_left C @ inorder l @ inorder r @ ctx_right C"
    by (simp only: filter_id_conv)
  then have "filter (\<lambda>z. i_addr z \<noteq> a) (inorder T) = ctx_left C @ inorder l @ inorder r @ ctx_right C"
    using f(3) unfolding T by simp
  then show ?thesis
    using inorder_del_take [OF d] by (simp add: rb_delete_def f(1) d inorder_del_loop del: del_take.simps)
qed

lemma ordered_rb_delete:
  assumes "ordered T" "a \<in> set (addrs T)" "distinct (addrs T)"
  shows "ordered (rb_delete a T)"
  using assms sorted_filter [of skey "inorder T"] by (simp add: ordered_def inorder_rb_delete)

section \<open>Balance\<close>

text \<open>The position is one black node short: its context expects one more than the subtree has.  Its
  root may be red with a red child; painting it black, which ends the loop, makes up for both.\<close>

definition del_state :: "rbt \<Rightarrow> frame list \<Rightarrow> bool" where
  "del_state T C \<longleftrightarrow> invc (paint False T) \<and> invh T \<and> ctx_c C \<and> ctx_h C (Suc (bheight T)) \<and> root_black C"

fun sibling :: "frame \<Rightarrow> rbt" where
  "sibling (FL x c r) = r"
| "sibling (FR l x c) = l"

lemma root_black_tl: "root_black (f # C) \<Longrightarrow> root_black C"
  by (cases C) (auto simp: root_black_def)

lemma del_state_sibling: "del_state T (f # C) \<Longrightarrow> sibling f \<noteq> Leaf"
  by (cases f) (auto simp: del_state_def)

lemma paint_black_id [simp]: "\<not> is_red T \<Longrightarrow> paint False T = T"
  by (cases T) auto

lemma del_base_state:
  assumes "del_state T (f # C)" "\<not> is_red T" "\<not> is_red (sibling f)"
  shows "case del_base T f C of (T', D) \<Rightarrow>
           if D = [] then invc (paint False T') \<and> invh T' else del_state T' D"
  using assms root_black_tl [of f C]
  by (cases "(T, f, C)" rule: del_base.cases)
     (auto simp: del_state_def invc_plug invh_plug bheight_paint_black split: rbt.splits)

definition del_ok :: "rbt \<Rightarrow> frame list \<Rightarrow> bool" where
  "del_ok T C \<longleftrightarrow> (if C = [] then invc (paint False T) \<and> invh T else del_state T C)"

lemma del_base_ok:
  assumes "del_state T (f # C)" "\<not> is_red T" "\<not> is_red (sibling f)"
  shows "case del_base T f C of (T', D) \<Rightarrow> del_ok T' D"
  using del_base_state [OF assms] by (simp add: del_ok_def split: prod.splits)

lemma del_step_ok:
  assumes "del_state T (f # C)" "\<not> is_red T"
  shows "case del_step T f C of (T', D) \<Rightarrow> del_ok T' D"
proof (cases "(T, f, C)" rule: del_step.cases)
  case (1 T' p cp wa x wb C')
  have "del_state T (FL p True wa # FL x False wb # C)"
    using assms 1 by (auto simp: del_state_def root_black_def)
  moreover have "\<not> is_red wa" using assms 1 by (auto simp: del_state_def)
  ultimately show ?thesis using del_base_ok assms(2) 1 by (simp del: del_base.simps)
next
  case (2 T' wa x wb p cp C')
  have "del_state T (FR wb p True # FR wa x False # C)"
    using assms 2 by (auto simp: del_state_def root_black_def)
  moreover have "\<not> is_red wb" using assms 2 by (auto simp: del_state_def)
  ultimately show ?thesis using del_base_ok assms(2) 2 by (simp del: del_base.simps)
qed (use del_base_ok assms in \<open>simp del: del_base.simps\<close>)+

lemma del_loop_inv:
  "del_ok T C \<Longrightarrow> rb_inv (del_loop T C)"
proof (induction T C rule: del_loop.induct)
  case (1 T C)
  show ?case
  proof (cases C)
    case Nil
    with "1.prems" show ?thesis by (simp add: del_loop.simps [of T] rb_inv_def del_ok_def)
  next
    case (Cons f C')
    then have st: "del_state T (f # C')" using "1.prems" by (simp add: del_ok_def)
    show ?thesis
    proof (cases "is_red T")
      case True
      then show ?thesis using st
        by (simp add: del_loop.simps [of T] Cons rb_inv_def del_state_def invc_plug invh_plug
            bheight_paint_black is_red_plug root_black_def)
    next
      case False
      with "1.IH" [OF Cons False] del_step_ok [OF st False] show ?thesis
        by (simp add: del_loop.simps [of T "f # C'"] Cons split: prod.splits)
    qed
  qed
qed

lemma ctx_item:
  "ctx_h (D @ FR l y c # C) h = ctx_h (D @ FR l x c # C) h"
  "ctx_c (D @ FR l y c # C) = ctx_c (D @ FR l x c # C)"
  "top_red (D @ FR l y c # C) = top_red (D @ FR l x c # C)"
  "root_black (D @ FR l y c # C) = root_black (D @ FR l x c # C)"
proof -
  show t: "top_red (D @ FR l y c # C) = top_red (D @ FR l x c # C)" for D by (cases D) auto
  show "root_black (D @ FR l y c # C) = root_black (D @ FR l x c # C)" by (simp add: root_black_def)
  show "ctx_h (D @ FR l y c # C) h = ctx_h (D @ FR l x c # C) h"
    by (induction D h rule: ctx_h.induct) auto
  show "ctx_c (D @ FR l y c # C) = ctx_c (D @ FR l x c # C)"
    by (induction D rule: ctx_c.induct) (simp_all add: t)
qed

lemma plug_root_black: "\<not> is_red (plug T C) \<Longrightarrow> root_black C"
  using is_red_plug [of C T] by (auto simp: root_black_def)

text \<open>A position with a node that has at most one subtree: what is left when it is taken out.\<close>

lemma take_short_ok:
  assumes "rb_inv (plug (Node l y c r) C)" "l = Leaf \<and> T = r \<or> r = Leaf \<and> T = l"
  shows "if c then rb_inv (plug T C) else del_ok T C"
proof -
  have "root_black C" using assms(1) plug_root_black by (auto simp: rb_inv_def)
  moreover have "invc T" "invh T" "bheight T = 0" "ctx_c C" "c \<longrightarrow> \<not> is_red T \<and> \<not> top_red C"
    "ctx_h C (if c then 0 else 1)"
    using assms by (auto simp: rb_inv_def invc_plug invh_plug)
  moreover have "invc (paint False T)" using \<open>invc T\<close> by simp
  ultimately show ?thesis
    using is_red_plug [of C T]
    by (cases "C = []") (auto simp: rb_inv_def del_ok_def del_state_def invc_plug invh_plug root_black_def)
qed

lemma del_take_ok:
  assumes inv: "rb_inv (plug (Node l x c r) C)" and d: "del_take (Node l x c r) C = (T', C', red)"
  shows "if red then rb_inv (plug T' C') else del_ok T' C'"
proof -
  consider "l = Leaf \<or> r = Leaf" | "l \<noteq> Leaf" "r \<noteq> Leaf" by blast
  then show ?thesis
  proof cases
    case 1
    with take_short_ok [OF inv, of T'] d show ?thesis by (auto split: if_splits)
  next
    case 2
    from min_pos_pos [OF 2(2), of "[]"] obtain y cy b D where
      m: "min_pos r [] = (Node Leaf y cy b, D)" "plug (Node Leaf y cy b) D = r" by auto
    have d': "T' = b" "C' = D @ FR l y c # C" "red = cy" using d 2 m(1) by auto
    have "rb_inv (plug (Node Leaf y cy b) (D @ FR l x c # C))"
      using inv m(2) by (simp add: plug_append)
    then have "rb_inv (plug (Node Leaf y cy b) (D @ FR l y c # C))"
      by (cases "C = []"; cases c)
        (simp_all add: rb_inv_def invc_plug invh_plug ctx_item [where y = y and x = x] is_red_plug)
    from take_short_ok [OF this] show ?thesis by (simp add: d')
  qed
qed

lemma rb_inv_delete:
  assumes "rb_inv T" "a \<in> set (addrs T)" "distinct (addrs T)"
  shows "rb_inv (rb_delete a T)"
proof -
  from focus_pos [OF assms(2,3), of "[]"] obtain l x c r C where
    f: "focus a T [] = (Node l x c r, C)" "plug (Node l x c r) C = T" by auto
  obtain T' C' red where d: "del_take (Node l x c r) C = (T', C', red)" by (metis prod_cases3)
  have "if red then rb_inv (plug T' C') else del_ok T' C'"
    using del_take_ok [OF _ d] assms(1) f(2) by simp
  moreover have "rb_inv (plug T' []) \<Longrightarrow> del_ok T' []" by (simp add: rb_inv_def del_ok_def)
  ultimately show ?thesis
    using del_loop_inv [of T' C'] by (auto simp: rb_delete_def f(1) d simp del: del_take.simps split: if_splits)
qed

end
