(* ===== verification/Rbtree_Delete_Repr.thy ===== *)
theory Rbtree_Delete_Repr
  imports Rbtree_Delete
begin

text \<open>
  The C functions of the deletion against \<open>rb_delete\<close>.  \<open>rb_at t p0 T C\<close> is a position of the fixup
  loop: the memory holds \<open>plug T C\<close>, and when the subtree is empty the sentinel's \<open>parent\<close> field holds
  the node above the position, which is how the code finds its way up from the sentinel.
\<close>

definition rb_at :: "rbtree \<Rightarrow> addr \<Rightarrow> rbt \<Rightarrow> frame list \<Rightarrow> bool" where
  "rb_at t p0 T C \<longleftrightarrow>
     (\<exists>sp. rb_repr t sp p0 (plug T C) \<and> (T = Leaf \<longrightarrow> C \<noteq> [] \<longrightarrow> sp = cpar p0 C))"

lemma rb_at_parent:
  assumes "rb_at t p0 T (f # C)"
  shows "rd parent (ptr (sentinel t) T) t = Some (cpar p0 (f # C))"
proof (cases T)
  case Leaf
  with assms rd_sentinel(4) show ?thesis by (auto simp: rb_at_def)
next
  case (Node l x c r)
  with assms rd_at(3) show ?thesis by (fastforce simp: rb_at_def)
qed

section \<open>The turns of the fixup loop\<close>

text \<open>A red sibling is turned up; the position is below it afterwards, with a black sibling.\<close>

lemma red_sibling_left:
  assumes "rb_at t p0 T (FL p cp (Node wa x True wb) # C)"
  shows "\<exists>t1 t2 t3. rbtree_black (i_addr x) t = Some t1
     \<and> rd parent (ptr (sentinel t) T) t1 = Some (i_addr p)
     \<and> rbtree_red (i_addr p) t1 = Some t2 \<and> rbtree_left_rotate (i_addr p) t2 = Some t3
     \<and> rb_at t3 p0 T (FL p True wa # FL x False wb # C) \<and> sentinel t3 = sentinel t"
proof -
  from assms obtain sp where r: "rb_repr t sp p0 (plug (Node wa x True wb) (FR T p cp # C))"
    and sp: "T = Leaf \<longrightarrow> sp = i_addr p" by (auto simp: rb_at_def)
  from black_node_repr [OF r] obtain t1 where
    t1: "rbtree_black (i_addr x) t = Some t1" "sentinel t1 = sentinel t"
      "rb_repr t1 sp p0 (plug (Node T p cp (Node wa x False wb)) C)" by auto
  have p: "rd parent (ptr (sentinel t) T) t1 = Some (i_addr p)"
    using rb_at_parent [of t1 p0 T "FL p cp (Node wa x False wb)" C] t1(2,3) sp
    by (auto simp: rb_at_def)
  from red_repr [OF t1(3)] obtain t2 where
    t2: "rbtree_red (i_addr p) t1 = Some t2" "sentinel t2 = sentinel t1"
      "rb_repr t2 sp p0 (plug (Node T p True (Node wa x False wb)) C)" by auto
  from left_rotate_repr [OF t2(3)] show ?thesis using t1 p t2 sp by (auto simp: rb_at_def)
qed

lemma red_sibling_right:
  assumes "rb_at t p0 T (FR (Node wa x True wb) p cp # C)"
  shows "\<exists>t1 t2 t3. rbtree_black (i_addr x) t = Some t1
     \<and> rd parent (ptr (sentinel t) T) t1 = Some (i_addr p)
     \<and> rbtree_red (i_addr p) t1 = Some t2 \<and> rbtree_right_rotate (i_addr p) t2 = Some t3
     \<and> rb_at t3 p0 T (FR wb p True # FR wa x False # C) \<and> sentinel t3 = sentinel t"
proof -
  from assms obtain sp where r: "rb_repr t sp p0 (plug (Node wa x True wb) (FL p cp T # C))"
    and sp: "T = Leaf \<longrightarrow> sp = i_addr p" by (auto simp: rb_at_def)
  from black_node_repr [OF r] obtain t1 where
    t1: "rbtree_black (i_addr x) t = Some t1" "sentinel t1 = sentinel t"
      "rb_repr t1 sp p0 (plug (Node (Node wa x False wb) p cp T) C)" by auto
  have p: "rd parent (ptr (sentinel t) T) t1 = Some (i_addr p)"
    using rb_at_parent [of t1 p0 T "FR (Node wa x False wb) p cp" C] t1(2,3) sp
    by (auto simp: rb_at_def)
  from red_repr [OF t1(3)] obtain t2 where
    t2: "rbtree_red (i_addr p) t1 = Some t2" "sentinel t2 = sentinel t1"
      "rb_repr t2 sp p0 (plug (Node (Node wa x False wb) p True T) C)" by auto
  from right_rotate_repr [OF t2(3)] show ?thesis using t1 p t2 sp by (auto simp: rb_at_def)
qed

text \<open>A black sibling with black children turns red; the position moves up.\<close>

lemma black_sibling_left:
  assumes "rb_at t p0 T (FL p cp (Node wa x cx wb) # C)"
  shows "\<exists>t1. rbtree_red (i_addr x) t = Some t1
     \<and> rd parent (ptr (sentinel t) T) t1 = Some (i_addr p)
     \<and> rb_at t1 p0 (Node T p cp (Node wa x True wb)) C \<and> sentinel t1 = sentinel t"
proof -
  from assms obtain sp where r: "rb_repr t sp p0 (plug (Node wa x cx wb) (FR T p cp # C))"
    and sp: "T = Leaf \<longrightarrow> sp = i_addr p" by (auto simp: rb_at_def)
  from red_repr [OF r] obtain t1 where
    t1: "rbtree_red (i_addr x) t = Some t1" "sentinel t1 = sentinel t"
      "rb_repr t1 sp p0 (plug (Node T p cp (Node wa x True wb)) C)" by auto
  with rb_at_parent [of t1 p0 T "FL p cp (Node wa x True wb)" C] sp show ?thesis
    by (auto simp: rb_at_def)
qed

lemma black_sibling_right:
  assumes "rb_at t p0 T (FR (Node wa x cx wb) p cp # C)"
  shows "\<exists>t1. rbtree_red (i_addr x) t = Some t1
     \<and> rd parent (ptr (sentinel t) T) t1 = Some (i_addr p)
     \<and> rb_at t1 p0 (Node (Node wa x True wb) p cp T) C \<and> sentinel t1 = sentinel t"
proof -
  from assms obtain sp where r: "rb_repr t sp p0 (plug (Node wa x cx wb) (FL p cp T # C))"
    and sp: "T = Leaf \<longrightarrow> sp = i_addr p" by (auto simp: rb_at_def)
  from red_repr [OF r] obtain t1 where
    t1: "rbtree_red (i_addr x) t = Some t1" "sentinel t1 = sentinel t"
      "rb_repr t1 sp p0 (plug (Node (Node wa x True wb) p cp T) C)" by auto
  with rb_at_parent [of t1 p0 T "FR (Node wa x True wb) p cp" C] sp show ?thesis
    by (auto simp: rb_at_def)
qed

text \<open>The inner child of the sibling is turned out.\<close>

lemma turn_inner_left:
  assumes "rb_at t p0 T (FL p cp (Node (Node a y cy b) x cx wb) # C)"
  shows "\<exists>t1 t2 t3. rbtree_black (i_addr y) t = Some t1 \<and> rbtree_red (i_addr x) t1 = Some t2
     \<and> rbtree_right_rotate (i_addr x) t2 = Some t3
     \<and> rb_at t3 p0 T (FL p cp (Node a y False (Node b x True wb)) # C) \<and> sentinel t3 = sentinel t"
proof -
  from assms obtain sp where r: "rb_repr t sp p0 (plug (Node a y cy b) (FL x cx wb # FR T p cp # C))"
    and sp: "T = Leaf \<longrightarrow> sp = i_addr p" by (auto simp: rb_at_def)
  from black_node_repr [OF r] obtain t1 where
    t1: "rbtree_black (i_addr y) t = Some t1" "sentinel t1 = sentinel t"
      "rb_repr t1 sp p0 (plug (Node (Node a y False b) x cx wb) (FR T p cp # C))" by auto
  from red_repr [OF t1(3)] obtain t2 where
    t2: "rbtree_red (i_addr x) t1 = Some t2" "sentinel t2 = sentinel t1"
      "rb_repr t2 sp p0 (plug (Node (Node a y False b) x True wb) (FR T p cp # C))" by auto
  from right_rotate_repr [OF t2(3)] show ?thesis using t1 t2 sp by (auto simp: rb_at_def)
qed

lemma turn_inner_right:
  assumes "rb_at t p0 T (FR (Node wa x cx (Node a y cy b)) p cp # C)"
  shows "\<exists>t1 t2 t3. rbtree_black (i_addr y) t = Some t1 \<and> rbtree_red (i_addr x) t1 = Some t2
     \<and> rbtree_left_rotate (i_addr x) t2 = Some t3
     \<and> rb_at t3 p0 T (FR (Node (Node wa x True a) y False b) p cp # C) \<and> sentinel t3 = sentinel t"
proof -
  from assms obtain sp where r: "rb_repr t sp p0 (plug (Node a y cy b) (FR wa x cx # FL p cp T # C))"
    and sp: "T = Leaf \<longrightarrow> sp = i_addr p" by (auto simp: rb_at_def)
  from black_node_repr [OF r] obtain t1 where
    t1: "rbtree_black (i_addr y) t = Some t1" "sentinel t1 = sentinel t"
      "rb_repr t1 sp p0 (plug (Node wa x cx (Node a y False b)) (FL p cp T # C))" by auto
  from red_repr [OF t1(3)] obtain t2 where
    t2: "rbtree_red (i_addr x) t1 = Some t2" "sentinel t2 = sentinel t1"
      "rb_repr t2 sp p0 (plug (Node wa x True (Node a y False b)) (FL p cp T # C))" by auto
  from left_rotate_repr [OF t2(3)] show ?thesis using t1 t2 sp by (auto simp: rb_at_def)
qed

text \<open>The sibling takes the parent's place and colour; the tree is repaired.\<close>

lemma last_turn_left:
  assumes "rb_at t p0 T (FL p cp (Node wa x cx wb) # C)"
  shows "\<exists>t1 t2 t3 t4. rbtree_copy_color (i_addr x) (i_addr p) t = Some t1
     \<and> rbtree_black (i_addr p) t1 = Some t2 \<and> rd right (i_addr x) t2 = Some (ptr (sentinel t) wb)
     \<and> rbtree_black (ptr (sentinel t) wb) t2 = Some t3
     \<and> rbtree_left_rotate (i_addr p) t3 = Some t4
     \<and> rb_at t4 p0 (plug (Node (Node T p False wa) x cp (paint False wb)) C) []
     \<and> root t4 = ptr (sentinel t) (plug (Node (Node T p False wa) x cp (paint False wb)) C)
     \<and> sentinel t4 = sentinel t"
proof -
  from assms obtain sp where r: "rb_repr t sp p0 (plug (Node wa x cx wb) (FR T p cp # C))"
    by (auto simp: rb_at_def)
  have "rd color (i_addr p) t = Some (if cp then 1 else 0)"
    using rd_at(5) [of t sp p0 T p cp "Node wa x cx wb" C] r by simp
  from copy_color_repr [OF r this] obtain t1 where
    t1: "rbtree_copy_color (i_addr x) (i_addr p) t = Some t1" "sentinel t1 = sentinel t"
      "rb_repr t1 sp p0 (plug (Node T p cp (Node wa x cp wb)) C)" by auto
  from black_node_repr [OF t1(3)] obtain t2 where
    t2: "rbtree_black (i_addr p) t1 = Some t2" "sentinel t2 = sentinel t1"
      "rb_repr t2 sp p0 (plug wb (FR wa x cp # FR T p False # C))" by auto
  have w: "rd right (i_addr x) t2 = Some (ptr (sentinel t) wb)"
    using rd_at(2) [of t2 sp p0 wa x cp wb "FR T p False # C"] t2 t1 by simp
  from black_repr [OF t2(3)] obtain t3 where
    t3: "rbtree_black (ptr (sentinel t2) wb) t2 = Some t3" "sentinel t3 = sentinel t2"
      "rb_repr t3 sp p0 (plug (Node T p False (Node wa x cp (paint False wb))) C)" by auto
  from left_rotate_repr [OF t3(3)] obtain t4 where
    t4: "rbtree_left_rotate (i_addr p) t3 = Some t4" "sentinel t4 = sentinel t3"
      "rb_repr t4 sp p0 (plug (Node (Node T p False wa) x cp (paint False wb)) C)" by auto
  show ?thesis using t1 t2 w t3 t4 root_at [OF t4(3)] by (auto simp: rb_at_def)
qed

lemma last_turn_right:
  assumes "rb_at t p0 T (FR (Node wa x cx wb) p cp # C)"
  shows "\<exists>t1 t2 t3 t4. rbtree_copy_color (i_addr x) (i_addr p) t = Some t1
     \<and> rbtree_black (i_addr p) t1 = Some t2 \<and> rd left (i_addr x) t2 = Some (ptr (sentinel t) wa)
     \<and> rbtree_black (ptr (sentinel t) wa) t2 = Some t3
     \<and> rbtree_right_rotate (i_addr p) t3 = Some t4
     \<and> rb_at t4 p0 (plug (Node (paint False wa) x cp (Node wb p False T)) C) []
     \<and> root t4 = ptr (sentinel t) (plug (Node (paint False wa) x cp (Node wb p False T)) C)
     \<and> sentinel t4 = sentinel t"
proof -
  from assms obtain sp where r: "rb_repr t sp p0 (plug (Node wa x cx wb) (FL p cp T # C))"
    by (auto simp: rb_at_def)
  have "rd color (i_addr p) t = Some (if cp then 1 else 0)"
    using rd_at(5) [of t sp p0 "Node wa x cx wb" p cp T C] r by simp
  from copy_color_repr [OF r this] obtain t1 where
    t1: "rbtree_copy_color (i_addr x) (i_addr p) t = Some t1" "sentinel t1 = sentinel t"
      "rb_repr t1 sp p0 (plug (Node (Node wa x cp wb) p cp T) C)" by auto
  from black_node_repr [OF t1(3)] obtain t2 where
    t2: "rbtree_black (i_addr p) t1 = Some t2" "sentinel t2 = sentinel t1"
      "rb_repr t2 sp p0 (plug wa (FL x cp wb # FL p False T # C))" by auto
  have w: "rd left (i_addr x) t2 = Some (ptr (sentinel t) wa)"
    using rd_at(1) [of t2 sp p0 wa x cp wb "FL p False T # C"] t2 t1 by simp
  from black_repr [OF t2(3)] obtain t3 where
    t3: "rbtree_black (ptr (sentinel t2) wa) t2 = Some t3" "sentinel t3 = sentinel t2"
      "rb_repr t3 sp p0 (plug (Node (Node (paint False wa) x cp wb) p False T) C)" by auto
  from right_rotate_repr [OF t3(3)] obtain t4 where
    t4: "rbtree_right_rotate (i_addr p) t3 = Some t4" "sentinel t4 = sentinel t3"
      "rb_repr t4 sp p0 (plug (Node (paint False wa) x cp (Node wb p False T)) C)" by auto
  show ?thesis using t1 t2 w t3 t4 root_at [OF t4(3)] by (auto simp: rb_at_def)
qed

text \<open>One turn, the two sides of a position.\<close>

lemma rb_at_reads:
  assumes "rb_at t p0 T (f # C)"
  shows "case f of
      FL p cp w \<Rightarrow> rd left (i_addr p) t = Some (ptr (sentinel t) T)
                  \<and> rd right (i_addr p) t = Some (ptr (sentinel t) w)
                  \<and> rbtree_is_red (ptr (sentinel t) w) t = Some (is_red w)
    | FR w p cp \<Rightarrow> rd left (i_addr p) t = Some (ptr (sentinel t) w)
                  \<and> rd right (i_addr p) t = Some (ptr (sentinel t) T)
                  \<and> rbtree_is_red (ptr (sentinel t) w) t = Some (is_red w)
                  \<and> (w \<noteq> Leaf \<longrightarrow> ptr (sentinel t) T \<noteq> ptr (sentinel t) w)"
proof (cases f)
  case (FL p cp w)
  with assms obtain sp where r: "rb_repr t sp p0 (plug (Node T p cp w) C)" by (auto simp: rb_at_def)
  from rd_at(1,2) [OF r] is_red_at [of t sp p0 w "FR T p cp # C"] r FL show ?thesis by simp
next
  case (FR w p cp)
  with assms obtain sp where r: "rb_repr t sp p0 (plug (Node w p cp T) C)" by (auto simp: rb_at_def)
  have "w \<noteq> Leaf \<Longrightarrow> ptr (sentinel t) T \<noteq> ptr (sentinel t) w"
    using r by (cases w; cases T) (auto simp: rb_repr_def set_addrs_plug distinct_plug)
  with rd_at(1,2) [OF r] is_red_at [of t sp p0 w "FL p cp T # C"] r FR show ?thesis by simp
qed

lemma rb_at_nephews:
  assumes "rb_at t p0 T (f # C)" "sibling f = Node wa x cx wb"
  shows "rd left (i_addr x) t = Some (ptr (sentinel t) wa)"
    "rd right (i_addr x) t = Some (ptr (sentinel t) wb)"
    "rbtree_is_black (ptr (sentinel t) wa) t = Some (\<not> is_red wa)"
    "rbtree_is_black (ptr (sentinel t) wb) t = Some (\<not> is_red wb)"
proof -
  obtain D sp where D: "rb_repr t sp p0 (plug (Node wa x cx wb) D)"
    using assms by (cases f) (auto simp: rb_at_def intro: that [of _ "FR T _ _ # C"] that [of _ "FL _ _ T # C"])
  from rd_at(1,2) [OF D] is_black_at [of t sp p0 wa "FL x cx wb # D"]
    is_black_at [of t sp p0 wb "FR wa x cx # D"] D
  show "rd left (i_addr x) t = Some (ptr (sentinel t) wa)"
    "rd right (i_addr x) t = Some (ptr (sentinel t) wb)"
    "rbtree_is_black (ptr (sentinel t) wa) t = Some (\<not> is_red wa)"
    "rbtree_is_black (ptr (sentinel t) wb) t = Some (\<not> is_red wb)" by simp_all
qed

lemma delete_black_left_repr:
  assumes at: "rb_at t p0 T (FL p cp (Node wa x False wb) # C)"
  shows "\<exists>t'. rbtree_delete_black_left (ptr (sentinel t) T) (i_addr x) t
                = Some (ptr (sentinel t) (fst (del_base T (FL p cp (Node wa x False wb)) C)), t')
              \<and> (case del_base T (FL p cp (Node wa x False wb)) C of (T', D) \<Rightarrow> rb_at t' p0 T' D)
              \<and> sentinel t' = sentinel t"
proof -
  note n = rb_at_nephews [OF at, of wa x False wb, simplified]
  consider (both) "\<not> is_red wa" "\<not> is_red wb" | (outer) "is_red wb"
    | (inner) a y b where "wa = Node a y True b" "\<not> is_red wb"
    by (cases wa) auto
  then show ?thesis
  proof cases
    case both
    with black_sibling_left [OF at] n show ?thesis by (auto simp: rbtree_delete_black_left_def)
  next
    case outer
    from last_turn_left [OF at] rb_at_parent [OF at] n outer show ?thesis
      by (auto simp: rbtree_delete_black_left_def)
  next
    case inner
    from turn_inner_left [of t p0 T p cp a y True b x False wb C] at inner obtain t1 t2 t3 where
      t3: "rbtree_black (i_addr y) t = Some t1" "rbtree_red (i_addr x) t1 = Some t2"
        "rbtree_right_rotate (i_addr x) t2 = Some t3" "sentinel t3 = sentinel t"
        "rb_at t3 p0 T (FL p cp (Node a y False (Node b x True wb)) # C)" by auto
    from last_turn_left [OF t3(5)] rb_at_parent [OF t3(5)] rb_at_reads [OF t3(5)] t3 n inner
    show ?thesis by (auto simp: rbtree_delete_black_left_def)
  qed
qed

lemma delete_black_right_repr:
  assumes at: "rb_at t p0 T (FR (Node wa x False wb) p cp # C)"
  shows "\<exists>t'. rbtree_delete_black_right (ptr (sentinel t) T) (i_addr x) t
                = Some (ptr (sentinel t) (fst (del_base T (FR (Node wa x False wb) p cp) C)), t')
              \<and> (case del_base T (FR (Node wa x False wb) p cp) C of (T', D) \<Rightarrow> rb_at t' p0 T' D)
              \<and> sentinel t' = sentinel t"
proof -
  note n = rb_at_nephews [OF at, of wa x False wb, simplified]
  consider (both) "\<not> is_red wa" "\<not> is_red wb" | (outer) "is_red wa"
    | (inner) a y b where "wb = Node a y True b" "\<not> is_red wa"
    by (cases wb) auto
  then show ?thesis
  proof cases
    case both
    with black_sibling_right [OF at] n show ?thesis by (auto simp: rbtree_delete_black_right_def)
  next
    case outer
    from last_turn_right [OF at] rb_at_parent [OF at] n outer show ?thesis
      by (auto simp: rbtree_delete_black_right_def)
  next
    case inner
    from turn_inner_right [of t p0 T wa x False a y True b p cp C] at inner obtain t1 t2 t3 where
      t3: "rbtree_black (i_addr y) t = Some t1" "rbtree_red (i_addr x) t1 = Some t2"
        "rbtree_left_rotate (i_addr x) t2 = Some t3" "sentinel t3 = sentinel t"
        "rb_at t3 p0 T (FR (Node (Node wa x True a) y False b) p cp # C)" by auto
    from last_turn_right [OF t3(5)] rb_at_parent [OF t3(5)] rb_at_reads [OF t3(5)] t3 n inner
    show ?thesis by (auto simp: rbtree_delete_black_right_def)
  qed
qed

lemma delete_step_repr:
  assumes at: "rb_at t p0 T (f # C)" and st: "del_state T (f # C)"
  shows "\<exists>t'. rbtree_delete_step (ptr (sentinel t) T) t
                = Some (ptr (sentinel t) (fst (del_step T f C)), t')
              \<and> (case del_step T f C of (T', D) \<Rightarrow> rb_at t' p0 T' D) \<and> sentinel t' = sentinel t"
proof -
  obtain wa x c wb where w: "sibling f = Node wa x c wb"
    using del_state_sibling [OF st] by (cases "sibling f") auto
  note reads = rb_at_parent [OF at] rb_at_reads [OF at]
  show ?thesis
  proof (cases f)
    case (FL p cp w')
    then have f: "f = FL p cp (Node wa x c wb)" using w by simp
    show ?thesis
    proof (cases c)
      case True
      from red_sibling_left [of t p0 T p cp wa x wb C] at f True obtain t1 t2 t3 where
        t3: "rbtree_black (i_addr x) t = Some t1" "rd parent (ptr (sentinel t) T) t1 = Some (i_addr p)"
          "rbtree_red (i_addr p) t1 = Some t2" "rbtree_left_rotate (i_addr p) t2 = Some t3"
          "rb_at t3 p0 T (FL p True wa # FL x False wb # C)" "sentinel t3 = sentinel t" by auto
      obtain a y b where wa: "wa = Node a y False b"
        using st f True by (cases wa) (auto simp: del_state_def)
      from delete_black_left_repr [of t3 p0 T p True a y b "FL x False wb # C"] t3(5) wa
        rb_at_parent [OF t3(5)] rb_at_reads [OF t3(5)] reads f True t3
      show ?thesis
        by (auto simp: rbtree_delete_step_def rbtree_delete_red_left_def simp del: del_base.simps)
    next
      case False
      with delete_black_left_repr [of t p0 T p cp wa x wb C] at f reads show ?thesis
        by (auto simp: rbtree_delete_step_def rbtree_delete_red_left_def simp del: del_base.simps)
    qed
  next
    case (FR w' p cp)
    then have f: "f = FR (Node wa x c wb) p cp" using w by simp
    show ?thesis
    proof (cases c)
      case True
      from red_sibling_right [of t p0 T wa x wb p cp C] at f True obtain t1 t2 t3 where
        t3: "rbtree_black (i_addr x) t = Some t1" "rd parent (ptr (sentinel t) T) t1 = Some (i_addr p)"
          "rbtree_red (i_addr p) t1 = Some t2" "rbtree_right_rotate (i_addr p) t2 = Some t3"
          "rb_at t3 p0 T (FR wb p True # FR wa x False # C)" "sentinel t3 = sentinel t" by auto
      obtain a y b where wb: "wb = Node a y False b"
        using st f True by (cases wb) (auto simp: del_state_def)
      from delete_black_right_repr [of t3 p0 T a y b p True "FR wa x False # C"] t3(5) wb
        rb_at_parent [OF t3(5)] rb_at_reads [OF t3(5)] reads f True t3
      show ?thesis
        by (auto simp: rbtree_delete_step_def rbtree_delete_red_right_def simp del: del_base.simps)
    next
      case False
      with delete_black_right_repr [of t p0 T wa x wb p cp C] at f reads show ?thesis
        by (auto simp: rbtree_delete_step_def rbtree_delete_red_right_def simp del: del_base.simps)
    qed
  qed
qed

lemma delete_fixup_repr:
  assumes "rb_at t p0 T C" "del_ok T C"
  shows "\<exists>a t1 t'. rbtree_delete_fixup (ptr (sentinel t) T) t = Some (a, t1)
              \<and> rbtree_black a t1 = Some t' \<and> sentinel t' = sentinel t
              \<and> (\<exists>sp. rb_repr t' sp p0 (del_loop T C))"
  using assms
proof (induction T C arbitrary: t rule: del_loop.induct)
  case (1 T C t)
  from "1.prems"(1) obtain sp where r: "rb_repr t sp p0 (plug T C)" by (auto simp: rb_at_def)
  have g: "rbtree_delete_guard (ptr (sentinel t) T) t = Some (C \<noteq> [] \<and> \<not> is_red T)"
    using root_iff_at [OF r] is_black_at [OF r] by (auto simp: rbtree_delete_guard_def)
  show ?case
  proof (cases "C \<noteq> [] \<and> \<not> is_red T")
    case False
    then have "del_loop T C = plug (paint False T) C"
      by (cases C) (auto simp: del_loop.simps [of T])
    with black_repr [OF r] g False show ?thesis
      by (auto simp: rbtree_delete_fixup.simps [of _ t])
  next
    case True
    then obtain f C' where C: "C = f # C'" by (cases C) auto
    with "1.prems" True have st: "rb_at t p0 T (f # C')" "del_state T (f # C')" by (auto simp: del_ok_def)
    obtain T' D where d: "del_step T f C' = (T', D)" by fastforce
    from delete_step_repr [OF st] d obtain t' where
      t': "rbtree_delete_step (ptr (sentinel t) T) t = Some (ptr (sentinel t) T', t')"
        "rb_at t' p0 T' D" "sentinel t' = sentinel t" by auto
    have "del_ok T' D" using del_step_ok [OF st(2)] True d by simp
    with "1.IH" [OF C, of t'] True t' d have
      "\<exists>a t1 t''. rbtree_delete_fixup (ptr (sentinel t') T') t' = Some (a, t1)
              \<and> rbtree_black a t1 = Some t'' \<and> sentinel t'' = sentinel t'
              \<and> (\<exists>sp. rb_repr t'' sp p0 (del_loop T' D))" by simp
    then show ?thesis
      using g True t' d C by (simp add: rbtree_delete_fixup.simps [of _ t] del_loop.simps [of T "f # C'"])
  qed
qed

end
