(* ===== verification/Rbtree_Delete_Splice.thy ===== *)
theory Rbtree_Delete_Splice
  imports Rbtree_Delete_Repr
begin

text \<open>
  How the deletion takes a node out: the place of a node with at most one subtree is given to that
  subtree; the place of a node with two is given to the leftmost node of the right one.  Then the
  whole deletion against \<open>rb_delete\<close>.
\<close>

lemma sentinel_node_ex [simp]: "\<exists>sp'. sentinel_node sp = sentinel_node sp'"
  by blast

section \<open>Taking the node out\<close>

text \<open>The place of a node with one subtree is given to that subtree.\<close>

lemma unlink_right_repr:
  assumes r: "rb_repr t sp p0 (plug (Node Leaf y c T) (f # C))"
  shows "\<exists>t1 t2. rbtree_delete_unlink (ptr (sentinel t) T) (i_addr y) t = Some t1
             \<and> rd parent (i_addr y) t1 = Some (cpar p0 (f # C))
             \<and> wr (ptr (sentinel t) T) (parent_update (\<lambda>_. cpar p0 (f # C))) t1 = Some t2
             \<and> rb_at t2 p0 T (f # C) \<and> sentinel t2 = sentinel t \<and> sentinel t1 = sentinel t
             \<and> nodes t2 (i_addr y) = nodes t (i_addr y)"
proof (cases f)
  case (FL z cz e)
  with r show ?thesis
    by (cases T; simp add: rb_at_def rb_unfold rbtree_delete_unlink_def; (elim conjE)?; simp)
next
  case (FR e z cz)
  with r show ?thesis
    by (cases T; simp add: rb_at_def rb_unfold rbtree_delete_unlink_def; (elim conjE)?; simp)
qed

lemma unlink_left_repr:
  assumes r: "rb_repr t sp p0 (plug (Node T y c Leaf) (f # C))"
  shows "\<exists>t1 t2. rbtree_delete_unlink (ptr (sentinel t) T) (i_addr y) t = Some t1
             \<and> rd parent (i_addr y) t1 = Some (cpar p0 (f # C))
             \<and> wr (ptr (sentinel t) T) (parent_update (\<lambda>_. cpar p0 (f # C))) t1 = Some t2
             \<and> rb_at t2 p0 T (f # C) \<and> sentinel t2 = sentinel t \<and> sentinel t1 = sentinel t
             \<and> nodes t2 (i_addr y) = nodes t (i_addr y)"
proof (cases f)
  case (FL z cz e)
  with r show ?thesis
    by (cases T; simp add: rb_at_def rb_unfold rbtree_delete_unlink_def; (elim conjE)?; simp)
next
  case (FR e z cz)
  with r show ?thesis
    by (cases T; simp add: rb_at_def rb_unfold rbtree_delete_unlink_def; (elim conjE)?; simp)
qed

text \<open>
  \<open>subst\<close> takes the place of \<open>node\<close>.  The right subtree may hang below \<open>node\<close> or already below
  \<open>subst\<close> (when \<open>subst\<close> was its root): \<open>q\<close> is the node its root points up to.
\<close>

definition half_taken :: "rbtree \<Rightarrow> addr \<Rightarrow> addr \<Rightarrow> addr \<Rightarrow> rbt \<Rightarrow> item \<Rightarrow> bool \<Rightarrow> rbt \<Rightarrow> frame list \<Rightarrow> bool" where
  "half_taken t sp p0 q l x c r C \<longleftrightarrow>
     nodes t (i_addr x) = Some (mk_node x c (ptr (sentinel t) l) (ptr (sentinel t) r) (cpar p0 C))
     \<and> sub (nodes t) (sentinel t) (i_addr x) l \<and> sub (nodes t) (sentinel t) q r
     \<and> around (nodes t) (sentinel t) p0 (i_addr x) C \<and> root t = croot (i_addr x) C
     \<and> nodes t (sentinel t) = Some (sentinel_node sp) \<and> sentinel t \<noteq> NULL
     \<and> distinct (addrs (plug (Node l x c r) C)) \<and> sentinel t \<notin> set (addrs (plug (Node l x c r) C))
     \<and> NULL \<notin> set (addrs (plug (Node l x c r) C))"

lemma half_taken_repr: "rb_repr t sp p0 (plug (Node l x c r) C) \<Longrightarrow> half_taken t sp p0 (i_addr x) l x c r C"
  by (simp add: half_taken_def rb_repr_def sub_plug ptr_plug)

lemma replace_repr:
  assumes "half_taken t sp p0 q l x c r C" "nodes t (i_addr y) = Some (mk_node y cy yl yr yp)"
    "i_addr y \<noteq> NULL" "i_addr y \<noteq> sentinel t" "i_addr y \<notin> set (addrs (plug (Node l x c r) C))"
  shows "\<exists>t'. rbtree_delete_replace (i_addr x) (i_addr y) t = Some t'
            \<and> rb_repr t' sp p0 (plug (Node l y c r) C) \<and> sentinel t' = sentinel t
            \<and> nodes t' (i_addr x) \<noteq> None"
proof (cases C)
  case Nil
  with assms show ?thesis
    by (cases l; cases r; simp add: half_taken_def rb_unfold rbtree_delete_replace_def rbtree_copy_color_def;
        (elim conjE)?; simp)
next
  case (Cons f C')
  show ?thesis
  proof (cases f)
    case (FL z cz e)
    with assms Cons show ?thesis
      by (cases l; cases r; simp add: half_taken_def rb_unfold rbtree_delete_replace_def rbtree_copy_color_def;
          (elim conjE)?; simp)
  next
    case (FR e z cz)
    with assms Cons show ?thesis
      by (cases l; cases r; simp add: half_taken_def rb_unfold rbtree_delete_replace_def rbtree_copy_color_def;
          (elim conjE)?; simp)
  qed
qed

lemma splice_short_repr:
  assumes "rb_repr t sp p0 (plug (Node l x c r) (f # C))" "l = Leaf \<and> T = r \<or> r = Leaf \<and> T = l"
  shows "\<exists>t'. rbtree_delete_splice (i_addr x) (ptr (sentinel t) T) (i_addr x) t = Some t'
            \<and> rb_at t' p0 T (f # C) \<and> sentinel t' = sentinel t \<and> nodes t' (i_addr x) \<noteq> None"
proof -
  have "nodes t (i_addr x) \<noteq> None" using assms(1) by (simp add: rb_repr_def sub_plug)
  with assms unlink_right_repr [of t sp p0 x c r f C] unlink_left_repr [of t sp p0 l x c f C]
  show ?thesis by (auto simp: rbtree_delete_splice_def)
qed

text \<open>The leftmost node is the root of the right subtree.\<close>

lemma unlink_near_repr:
  assumes r: "rb_repr t sp p0 (plug (Node l x c (Node Leaf y cy b)) C)"
  shows "\<exists>t1 t2 sp'. rbtree_delete_unlink (ptr (sentinel t) b) (i_addr y) t = Some t1
             \<and> rd parent (i_addr y) t1 = Some (i_addr x)
             \<and> wr (ptr (sentinel t) b) (parent_update (\<lambda>_. i_addr y)) t1 = Some t2
             \<and> half_taken t2 sp' p0 (i_addr y) l x c b C \<and> (b = Leaf \<longrightarrow> sp' = i_addr y)
             \<and> sentinel t2 = sentinel t \<and> nodes t2 (i_addr y) = nodes t (i_addr y)"
proof (cases b)
  case Leaf
  have "\<exists>t1 t2. rbtree_delete_unlink (ptr (sentinel t) b) (i_addr y) t = Some t1
             \<and> rd parent (i_addr y) t1 = Some (i_addr x)
             \<and> wr (ptr (sentinel t) b) (parent_update (\<lambda>_. i_addr y)) t1 = Some t2
             \<and> half_taken t2 (i_addr y) p0 (i_addr y) l x c b C
             \<and> sentinel t2 = sentinel t \<and> nodes t2 (i_addr y) = nodes t (i_addr y)"
    using r Leaf
    by (simp add: half_taken_def rb_unfold rbtree_delete_unlink_def; (elim conjE)?; simp)
  then show ?thesis by blast
next
  case (Node bl z cz br)
  have "\<exists>t1 t2. rbtree_delete_unlink (ptr (sentinel t) b) (i_addr y) t = Some t1
             \<and> rd parent (i_addr y) t1 = Some (i_addr x)
             \<and> wr (ptr (sentinel t) b) (parent_update (\<lambda>_. i_addr y)) t1 = Some t2
             \<and> half_taken t2 sp p0 (i_addr y) l x c b C
             \<and> sentinel t2 = sentinel t \<and> nodes t2 (i_addr y) = nodes t (i_addr y)"
    using r Node
    by (simp add: half_taken_def rb_unfold rbtree_delete_unlink_def; (elim conjE)?; simp)
  then show ?thesis using Node by blast
qed

lemma splice_near_repr:
  assumes r: "rb_repr t sp p0 (plug (Node l x c (Node Leaf y cy b)) C)"
  shows "\<exists>t'. rbtree_delete_splice (i_addr x) (ptr (sentinel t) b) (i_addr y) t = Some t'
            \<and> rb_at t' p0 b (FR l y c # C) \<and> sentinel t' = sentinel t \<and> nodes t' (i_addr x) \<noteq> None"
proof -
  from unlink_near_repr [OF r] obtain t1 t2 sp' where
    u: "rbtree_delete_unlink (ptr (sentinel t) b) (i_addr y) t = Some t1"
      "rd parent (i_addr y) t1 = Some (i_addr x)"
      "wr (ptr (sentinel t) b) (parent_update (\<lambda>_. i_addr y)) t1 = Some t2"
      "half_taken t2 sp' p0 (i_addr y) l x c b C" "b = Leaf \<longrightarrow> sp' = i_addr y"
      "sentinel t2 = sentinel t" "nodes t2 (i_addr y) = nodes t (i_addr y)" by blast
  have y: "nodes t2 (i_addr y) = Some (mk_node y cy (sentinel t) (ptr (sentinel t) b) (i_addr x))"
    using r u(7) by (simp add: rb_repr_def sub_plug)
  have "i_addr y \<noteq> NULL" "i_addr y \<noteq> sentinel t2" "i_addr y \<notin> set (addrs (plug (Node l x c b) C))"
    "i_addr y \<noteq> i_addr x"
    using r u(6) by (auto simp: rb_repr_def set_addrs_plug distinct_plug)
  with replace_repr [OF u(4) y] u show ?thesis
    by (auto simp: rbtree_delete_splice_def rb_at_def)
qed

text \<open>It is further down.\<close>

lemma splice_far_repr:
  assumes r: "rb_repr t sp p0 (plug (Node l x c (plug (Node Leaf y cy b) (f # D))) C)"
  shows "\<exists>t'. rbtree_delete_splice (i_addr x) (ptr (sentinel t) b) (i_addr y) t = Some t'
            \<and> rb_at t' p0 b (f # D @ FR l y c # C) \<and> sentinel t' = sentinel t
            \<and> nodes t' (i_addr x) \<noteq> None"
proof -
  have r': "rb_repr t sp p0 (plug (Node Leaf y cy b) (f # D @ FR l x c # C))"
    using r plug_append [of "Node Leaf y cy b" "f # D" "FR l x c # C"] by simp
  from unlink_right_repr [OF r'] obtain t1 t2 where
    u: "rbtree_delete_unlink (ptr (sentinel t) b) (i_addr y) t = Some t1"
      "rd parent (i_addr y) t1 = Some (cpar p0 (f # D @ FR l x c # C))"
      "wr (ptr (sentinel t) b) (parent_update (\<lambda>_. cpar p0 (f # D @ FR l x c # C))) t1 = Some t2"
      "rb_at t2 p0 b (f # D @ FR l x c # C)" "sentinel t2 = sentinel t"
      "nodes t2 (i_addr y) = nodes t (i_addr y)" by blast
  let ?r = "plug (Node Leaf y cy b) (f # D)"
  have outer: "distinct (addrs (Node l x c ?r))" "set (addrs (Node l x c ?r)) \<inter> set (caddrs C) = {}"
    "NULL \<notin> set (addrs (Node l x c ?r))" "sentinel t \<notin> set (addrs (Node l x c ?r))"
    using r unfolding rb_repr_def distinct_plug set_addrs_plug [of "Node l x c ?r"] by blast+
  have yr: "i_addr y \<in> set (addrs ?r)" unfolding set_addrs_plug by simp
  have yin: "i_addr y \<in> set (addrs (Node l x c ?r))" using yr by simp
  have xr: "i_addr x \<notin> set (addrs ?r)" and lr: "set (addrs l) \<inter> set (addrs ?r) = {}"
    and dr: "distinct (addrs ?r)"
    using outer(1) unfolding addrs.simps distinct.simps distinct_append set_append by blast+
  have "i_addr x \<notin> set (caddrs (f # D))" using xr unfolding set_addrs_plug by blast
  moreover have "i_addr y \<noteq> i_addr x" using xr yr by metis
  moreover have "i_addr y \<notin> set (addrs b)" "i_addr y \<notin> set (caddrs (f # D))"
    using dr by (simp_all add: distinct_plug)
  moreover have "i_addr y \<notin> set (addrs l)" using lr yr by blast
  moreover have "i_addr y \<notin> set (caddrs C)" using outer(2) yin by (metis disjoint_iff)
  moreover have "i_addr y \<noteq> NULL" using outer(3) yin by metis
  moreover have "i_addr y \<noteq> sentinel t" using outer(4) yin by metis
  ultimately have dist: "i_addr x \<notin> set (caddrs (f # D)) \<and> i_addr y \<noteq> i_addr x
      \<and> i_addr y \<notin> set (addrs b) \<and> i_addr y \<notin> set (caddrs (f # D)) \<and> i_addr y \<notin> set (addrs l)
      \<and> i_addr y \<notin> set (caddrs C) \<and> i_addr y \<noteq> NULL \<and> i_addr y \<noteq> sentinel t"
    by blast
  have cp: "cpar p0 (f # D @ E) = cpar p0 [f]" for E by (cases f) auto
  have "cpar p0 [f] \<in> set (caddrs (f # D))" by (cases f) auto
  moreover have "i_addr x \<notin> set (caddrs (f # D))"
    using dist by blast
  ultimately have far: "cpar p0 [f] \<noteq> i_addr x" by metis
  from u(4) obtain sp' where
    t2: "rb_repr t2 sp' p0 (plug (Node l x c (plug b (f # D))) C)" "b = Leaf \<longrightarrow> sp' = cpar p0 [f]"
    using plug_append [of b "f # D" "FR l x c # C"] by (auto simp: rb_at_def cp)
  have y: "nodes t2 (i_addr y) = Some (mk_node y cy (sentinel t) (ptr (sentinel t) b) (cpar p0 [f]))"
    using r' u(6) by (simp add: rb_repr_def sub_plug cp)
  have "i_addr y \<noteq> NULL" "i_addr y \<noteq> sentinel t2" "i_addr y \<noteq> i_addr x"
    "i_addr y \<notin> set (addrs (plug (Node l x c (plug b (f # D))) C))"
    using dist u(5) unfolding set_addrs_plug addrs.simps list.set set_append by auto
  with replace_repr [OF half_taken_repr [OF t2(1)] y] obtain t' where
    t': "rbtree_delete_replace (i_addr x) (i_addr y) t2 = Some t'" "sentinel t' = sentinel t2"
      "rb_repr t' sp' p0 (plug (Node l y c (plug b (f # D))) C)" "nodes t' (i_addr x) \<noteq> None" by blast
  have "rb_at t' p0 b (f # D @ FR l y c # C)"
    using t'(3) t2(2) plug_append [of b "f # D" "FR l y c # C"] by (auto simp: rb_at_def cp)
  with u t' far \<open>i_addr y \<noteq> i_addr x\<close> show ?thesis by (auto simp: rbtree_delete_splice_def cp)
qed

section \<open>The whole deletion\<close>

lemma node_init_repr:
  assumes "rb_repr t sp p0 T" "a \<notin> set (addrs T)" "a \<noteq> sentinel t" "nodes t a \<noteq> None"
  shows "\<exists>t'. rbtree_node_init a t = Some t' \<and> rb_repr t' sp p0 T \<and> sentinel t' = sentinel t
            \<and> nodes t' a \<noteq> None"
  using assms by (auto simp: rbtree_node_init_def rb_repr_def wr_def)

lemma delete_pick_repr:
  assumes r: "rb_repr t sp p0 (plug (Node l x c r) C)"
  shows "rbtree_delete_pick (i_addr x) t =
     Some (if l = Leaf then (ptr (sentinel t) r, i_addr x)
           else if r = Leaf then (ptr (sentinel t) l, i_addr x)
           else (case fst (min_pos r []) of
                   Leaf \<Rightarrow> (ptr (sentinel t) r, i_addr x)
                 | Node a y cy b \<Rightarrow> (ptr (sentinel t) b, i_addr y)))"
proof -
  have ne: "ptr (sentinel t) S = sentinel t \<longleftrightarrow> S = Leaf" if "S = l \<or> S = r" for S
    using r that by (cases S) (auto simp: rb_repr_def set_addrs_plug)
  show ?thesis
  proof (cases "l = Leaf \<or> r = Leaf")
    case True
    with rd_at(1,2) [OF r] ne show ?thesis by (auto simp: rbtree_delete_pick_def)
  next
    case False
    then obtain y cy b D where
      m: "min_pos r [] = (Node Leaf y cy b, D)" "plug (Node Leaf y cy b) D = r" "y = hd (inorder r)"
      using min_pos_pos [of r "[]"] by auto
    have "rb_repr t sp p0 (plug r (FR l x c # C))"
      "rb_repr t sp p0 (plug (Node Leaf y cy b) (D @ FR l x c # C))"
      using r m(2) by (simp_all add: plug_append)
    with rd_at(1,2) [OF r] ne node_min_repr [of t sp p0 r "FR l x c # C"] m False
      rd_at(1,2) [of t sp p0 Leaf y cy b "D @ FR l x c # C"]
    show ?thesis by (simp add: rbtree_delete_pick_def)
  qed
qed

text \<open>Everything but the root of a tree that has at most one subtree.\<close>

lemma delete_inner_repr:
  assumes r: "rb_repr t sp p0 (plug (Node l x c r) C)"
    and d: "del_take (Node l x c r) C = (T', C', red)" and "C' \<noteq> []"
  shows "\<exists>subst t'. rbtree_delete_pick (i_addr x) t = Some (ptr (sentinel t) T', subst)
            \<and> subst \<noteq> root t \<and> rbtree_is_red subst t = Some red
            \<and> rbtree_delete_splice (i_addr x) (ptr (sentinel t) T') subst t = Some t'
            \<and> rb_at t' p0 T' C' \<and> sentinel t' = sentinel t \<and> nodes t' (i_addr x) \<noteq> None"
proof -
  consider "l = Leaf \<or> r = Leaf" | "l \<noteq> Leaf" "r \<noteq> Leaf" by blast
  then show ?thesis
  proof cases
    case 1
    then have d': "C' = C" "red = c" "l = Leaf \<and> T' = r \<or> r = Leaf \<and> T' = l"
      using d by (auto split: if_splits)
    then obtain f D where C: "C = f # D" using \<open>C' \<noteq> []\<close> by (cases C) auto
    from splice_short_repr [of t sp p0 l x c r f D T'] r C d'(3)
      not_root_at(1) [of t sp p0 "Node l x c r" f D] is_red_at [OF r] delete_pick_repr [OF r] d'
    show ?thesis by auto
  next
    case 2
    then obtain y cy b D where
      m: "min_pos r [] = (Node Leaf y cy b, D)" "plug (Node Leaf y cy b) D = r"
      using min_pos_pos [of r "[]"] by auto
    have d': "T' = b" "C' = D @ FR l y c # C" "red = cy" using d 2 m(1) by auto
    have y: "rb_repr t sp p0 (plug (Node Leaf y cy b) (D @ FR l x c # C))"
      using r m(2) by (simp add: plug_append)
    have "\<exists>t'. rbtree_delete_splice (i_addr x) (ptr (sentinel t) b) (i_addr y) t = Some t'
            \<and> rb_at t' p0 b (D @ FR l y c # C) \<and> sentinel t' = sentinel t \<and> nodes t' (i_addr x) \<noteq> None"
      using splice_near_repr [of t sp p0 l x c y cy b C] splice_far_repr [of t sp p0 l x c y cy b _ _ C] r m(2)
      by (cases D) auto
    moreover have "i_addr y \<noteq> root t"
      using root_iff_at [OF y] by auto
    ultimately show ?thesis
      using delete_pick_repr [OF r] is_red_at [OF y] 2 m(1) d' by auto
  qed
qed

lemma delete_root_repr:
  assumes r: "rb_repr t sp p0 (Node l x c r)" and T: "l = Leaf \<and> T = r \<or> r = Leaf \<and> T = l"
  shows "\<exists>t'. rbtree_black (ptr (sentinel t) T) (t\<lparr>root := ptr (sentinel t) T\<rparr>) = Some t'
            \<and> rb_repr t' sp (i_addr x) (paint False T) \<and> sentinel t' = sentinel t
            \<and> nodes t' (i_addr x) \<noteq> None"
proof -
  let ?t = "t\<lparr>root := ptr (sentinel t) T\<rparr>"
  have "rb_repr ?t sp (i_addr x) T" using r T by (auto simp: rb_repr_def)
  from black_repr [of ?t sp "i_addr x" T "[]"] this obtain t' where
    t': "rbtree_black (ptr (sentinel t) T) ?t = Some t'" "rb_repr t' sp (i_addr x) (paint False T)"
      "sentinel t' = sentinel t" by auto
  have "nodes t (i_addr x) \<noteq> None" using r by (simp add: rb_repr_def)
  with t'(1) have "nodes t' (i_addr x) \<noteq> None"
    by (auto simp: rbtree_black_def wr_def fun_upd_apply split: option.splits)
  with t' show ?thesis by auto
qed

lemma addrs_delete_out:
  assumes "del_take (Node l x c r) C = (T', C', red)" "distinct (addrs (plug (Node l x c r) C))"
  shows "i_addr x \<notin> set (addrs (plug T' C'))"
proof -
  have "distinct (map i_addr (inorder S))" if "distinct (addrs S)" for S
    using that by (induction S) (auto simp: addrs_inorder)
  from this [OF assms(2)] show ?thesis
    unfolding addrs_inorder inorder_del_take [OF assms(1)] by (auto simp: inorder_plug)
qed

lemma rbtree_delete_repr:
  assumes r: "rb_repr t sp p0 T" and inv: "rb_inv T" and a: "a \<in> set (addrs T)"
  shows "\<exists>t' sp' p0'. rbtree_delete a t = Some t' \<and> rb_repr t' sp' p0' (rb_delete a T)
            \<and> sentinel t' = sentinel t"
proof -
  have dist: "distinct (addrs T)" "a \<noteq> sentinel t" using r a by (auto simp: rb_repr_def)
  from focus_pos [OF a dist(1), of "[]"] obtain l x c e C where
    f: "focus a T [] = (Node l x c e, C)" "plug (Node l x c e) C = T" "i_addr x = a" by auto
  obtain T' C' red where d: "del_take (Node l x c e) C = (T', C', red)" by (metis prod_cases3)
  have out: "a \<notin> set (addrs (plug T' C'))" using addrs_delete_out [OF d] f dist(1) by simp
  have r': "rb_repr t sp p0 (plug (Node l x c e) C)" using r f(2) by simp
  show ?thesis
  proof (cases "C' = []")
    case True
    have C: "C = []" "l = Leaf \<and> T' = e \<or> e = Leaf \<and> T' = l"
      using d True min_pos_pos [of e "[]"] by (auto split: if_splits prod.splits rbt.splits)
    have "rbtree_delete_pick a t = Some (ptr (sentinel t) T', a)"
      using delete_pick_repr [OF r'] C(2) f(3) by auto
    moreover from delete_root_repr [of t sp p0 l x c e T'] r' C obtain t1 where
      t1: "rbtree_black (ptr (sentinel t) T') (t\<lparr>root := ptr (sentinel t) T'\<rparr>) = Some t1"
        "rb_repr t1 sp (i_addr x) (paint False T')" "sentinel t1 = sentinel t" "nodes t1 a \<noteq> None"
      using f(3) by auto
    moreover from node_init_repr [OF t1(2)] t1(3,4) out dist(2) True obtain t2 where
      "rbtree_node_init a t1 = Some t2" "rb_repr t2 sp (i_addr x) (paint False T')" "sentinel t2 = sentinel t1"
      by (cases T') auto
    moreover have "a = root t" using root_iff_at [OF r'] C(1) f(3) by simp
    moreover have "rb_delete a T = paint False T'"
      by (simp add: rb_delete_def f(1) d True del_loop.simps [of T'] del: del_take.simps)
    ultimately show ?thesis by (auto simp: rbtree_delete_def)
  next
    case False
    from delete_inner_repr [OF r' d False, unfolded f(3)] obtain subst t1 where
      t1: "rbtree_delete_pick a t = Some (ptr (sentinel t) T', subst)" "subst \<noteq> root t"
        "rbtree_is_red subst t = Some red"
        "rbtree_delete_splice a (ptr (sentinel t) T') subst t = Some t1"
        "rb_at t1 p0 T' C'" "sentinel t1 = sentinel t" "nodes t1 a \<noteq> None" by blast
    from t1(5) obtain sp1 where "rb_repr t1 sp1 p0 (plug T' C')" "T' = Leaf \<longrightarrow> sp1 = cpar p0 C'"
      using False by (auto simp: rb_at_def)
    with node_init_repr [of t1 sp1 p0 "plug T' C'" a] out dist(2) t1(6,7) obtain t2 where
      t2: "rbtree_node_init a t1 = Some t2" "rb_repr t2 sp1 p0 (plug T' C')" "sentinel t2 = sentinel t"
        "rb_at t2 p0 T' C'" by (auto simp: rb_at_def)
    have "\<not> red \<Longrightarrow> del_ok T' C'" using del_take_ok [OF _ d] inv f(2) by simp
    note del = t1 t2 False f(1) d
    show ?thesis
    proof (cases red)
      case True
      with del show ?thesis
        by (auto simp: rbtree_delete_def rb_delete_def simp del: del_take.simps)
    next
      case red: False
      with delete_fixup_repr [OF t2(4)] \<open>\<not> red \<Longrightarrow> del_ok T' C'\<close> obtain b t3 t4 sp4 where
        "rbtree_delete_fixup (ptr (sentinel t2) T') t2 = Some (b, t3)" "rbtree_black b t3 = Some t4"
        "sentinel t4 = sentinel t2" "rb_repr t4 sp4 p0 (del_loop T' C')" by blast
      with red del have "rbtree_delete a t = Some t4 \<and> rb_repr t4 sp4 p0 (rb_delete a T)
          \<and> sentinel t4 = sentinel t"
        by (simp add: rbtree_delete_def rb_delete_def del: del_take.simps)
      then show ?thesis by blast
    qed
  qed
qed

end
