(* ===== verification/Registry.thy ===== *)
theory Registry
  imports Rbtree_Delete_Splice
begin

text \<open>
  The registry of coroutines: what src/cs_scheduler.c relies on when it keeps every coroutine in the
  red-black tree of src/cs_rbtree.c, stated as the contract \<open>registry\<close> on the list of registered
  items in ascending key order.  Its client lemmas say that what was inserted is found, that what was
  deleted is not, and that deleting undoes inserting.  The contract is interpreted on the pointer
  model of the tree, where \<open>rb_holds t xs\<close> means that the memory is a well-formed, ordered and
  balanced tree with exactly the items \<open>xs\<close>.
\<close>

section \<open>The contract\<close>

locale registry =
  fixes holds :: "'m \<Rightarrow> item list \<Rightarrow> bool"
    and fresh :: "'m \<Rightarrow> item \<Rightarrow> item list \<Rightarrow> bool"
    and put :: "addr \<Rightarrow> 'm \<Rightarrow> 'm option"
    and remove :: "addr \<Rightarrow> 'm \<Rightarrow> 'm option"
    and look :: "'m \<Rightarrow> 64 word \<Rightarrow> addr option"
  assumes put: "holds m xs \<Longrightarrow> fresh m x xs \<Longrightarrow> \<exists>m'. put (i_addr x) m = Some m' \<and> holds m' (ins_item x xs)"
    and remove: "holds m xs \<Longrightarrow> a \<in> i_addr ` set xs \<Longrightarrow>
      \<exists>m'. remove a m = Some m' \<and> holds m' (filter (\<lambda>x. i_addr x \<noteq> a) xs)"
    and look_hit: "holds m xs \<Longrightarrow> k \<in> i_key ` set xs \<Longrightarrow> \<exists>x\<in>set xs. i_key x = k \<and> look m k = Some (i_addr x)"
    and look_miss: "holds m xs \<Longrightarrow> k \<notin> i_key ` set xs \<Longrightarrow> k \<noteq> 0 \<Longrightarrow> look m k = Some NULL"
    and fresh_out: "fresh m x xs \<Longrightarrow> i_addr x \<notin> i_addr ` set xs"
    and holds_sorted: "holds m xs \<Longrightarrow> sorted (map skey xs)"
begin

lemma look_unique:
  assumes "holds m xs" "distinct (map i_key xs)" "x \<in> set xs"
  shows "look m (i_key x) = Some (i_addr x)"
proof -
  from look_hit [OF assms(1), of "i_key x"] assms(3) obtain y where
    "y \<in> set xs" "i_key y = i_key x" "look m (i_key x) = Some (i_addr y)" by auto
  moreover from this assms(2,3) have "y = x" by (auto simp: distinct_map dest: inj_onD)
  ultimately show ?thesis by simp
qed

lemma put_look:
  assumes "holds m xs" "fresh m x xs" "i_key x \<notin> i_key ` set xs"
  shows "\<exists>m'. put (i_addr x) m = Some m' \<and> look m' (i_key x) = Some (i_addr x)"
proof -
  from put [OF assms(1,2)] obtain m' where
    m': "put (i_addr x) m = Some m'" "holds m' (ins_item x xs)" by blast
  from look_hit [OF m'(2), of "i_key x"] obtain y where
    "y \<in> insert x (set xs)" "i_key y = i_key x" "look m' (i_key x) = Some (i_addr y)" by auto
  moreover from this assms(3) have "y = x" by (metis image_eqI insertE)
  ultimately show ?thesis using m'(1) by auto
qed

lemma filter_ins_item:
  "i_addr x \<notin> i_addr ` set xs \<Longrightarrow> filter (\<lambda>y. i_addr y \<noteq> i_addr x) (ins_item x xs) = xs"
proof (induction xs)
  case Nil
  then show ?case by simp
next
  case (Cons y ys)
  then have "\<forall>z\<in>set (y # ys). i_addr z \<noteq> i_addr x" by (metis image_eqI)
  then have "filter (\<lambda>z. i_addr z \<noteq> i_addr x) (y # ys) = y # ys" by (simp only: filter_id_conv)
  with Cons show ?case by auto
qed

lemma put_remove:
  assumes "holds m xs" "fresh m x xs"
  shows "\<exists>m' m''. put (i_addr x) m = Some m' \<and> remove (i_addr x) m' = Some m'' \<and> holds m'' xs"
proof -
  from put [OF assms] obtain m' where
    m': "put (i_addr x) m = Some m'" "holds m' (ins_item x xs)" by blast
  from remove [OF m'(2), of "i_addr x"] m'(1) show ?thesis
    using filter_ins_item [OF fresh_out [OF assms(2)]] by auto
qed

lemma remove_look:
  assumes "holds m xs" "distinct (map i_key xs)" "x \<in> set xs" "i_key x \<noteq> 0"
  shows "\<exists>m'. remove (i_addr x) m = Some m' \<and> look m' (i_key x) = Some NULL"
proof -
  from remove [OF assms(1), of "i_addr x"] assms(3) obtain m' where
    m': "remove (i_addr x) m = Some m'" "holds m' (filter (\<lambda>y. i_addr y \<noteq> i_addr x) xs)" by auto
  have "i_key x \<notin> i_key ` set (filter (\<lambda>y. i_addr y \<noteq> i_addr x) xs)"
    using assms(2,3) by (auto simp: distinct_map dest: inj_onD)
  from look_miss [OF m'(2) this assms(4)] m'(1) show ?thesis by blast
qed

text \<open>Whatever the order in which all items are deleted, the registry ends up empty.\<close>

lemma remove_all:
  assumes "holds m xs" "distinct as" "set as = i_addr ` set xs"
  shows "\<exists>m'. fold_option remove as m = Some m' \<and> holds m' []"
  using assms
proof (induction as arbitrary: m xs)
  case Nil
  then show ?case by simp
next
  case (Cons a as)
  from remove [OF Cons.prems(1), of a] Cons.prems(3) obtain m' where
    m': "remove a m = Some m'" "holds m' (filter (\<lambda>x. i_addr x \<noteq> a) xs)" by auto
  have "set as = i_addr ` set (filter (\<lambda>x. i_addr x \<noteq> a) xs)"
    using Cons.prems(2,3) by auto
  from Cons.IH [OF m'(2) _ this] Cons.prems(2) m'(1) show ?case by simp
qed

end

section \<open>The tree fulfils it\<close>

definition rb_holds :: "rbtree \<Rightarrow> item list \<Rightarrow> bool" where
  "rb_holds t xs \<longleftrightarrow> (\<exists>sp p0 T. rb_repr t sp p0 T \<and> rb_inv T \<and> ordered T \<and> inorder T = xs)"

text \<open>A node in memory that carries the item and is not in the tree.\<close>

definition rb_fresh :: "rbtree \<Rightarrow> item \<Rightarrow> item list \<Rightarrow> bool" where
  "rb_fresh t x xs \<longleftrightarrow>
     i_addr x \<noteq> NULL \<and> i_addr x \<noteq> sentinel t \<and> i_addr x \<notin> i_addr ` set xs
     \<and> nodes t (i_addr x) \<noteq> None \<and> item_at t (i_addr x) = x"

lemma rb_insert_holds:
  assumes "rb_holds t xs" "rb_fresh t x xs"
  shows "\<exists>t'. rbtree_insert (i_addr x) t = Some t' \<and> rb_holds t' (ins_item x xs) \<and> sentinel t' = sentinel t"
proof -
  from assms(1) obtain sp p0 T where
    T: "rb_repr t sp p0 T" "rb_inv T" "ordered T" "inorder T = xs" by (auto simp: rb_holds_def)
  have "fresh_node t (i_addr x) T"
    using assms(2) T(4) by (auto simp: rb_fresh_def fresh_node_def addrs_inorder)
  moreover have "\<not> is_red T" using T(2) by (simp add: rb_inv_def)
  ultimately obtain t' p0' where
    "rbtree_insert (i_addr x) t = Some t'" "sentinel t' = sentinel t"
    "rb_repr t' sp p0' (rb_insert (item_at t (i_addr x)) T)"
    using rbtree_insert_repr [OF T(1)] by blast
  with assms(2) T show ?thesis
    by (auto simp: rb_holds_def rb_fresh_def intro!: exI rb_inv_insert ordered_rb_insert inorder_rb_insert)
qed

lemma rb_delete_holds:
  assumes "rb_holds t xs" "a \<in> i_addr ` set xs"
  shows "\<exists>t'. rbtree_delete a t = Some t' \<and> rb_holds t' (filter (\<lambda>x. i_addr x \<noteq> a) xs)
            \<and> sentinel t' = sentinel t"
proof -
  from assms(1) obtain sp p0 T where
    T: "rb_repr t sp p0 T" "rb_inv T" "ordered T" "inorder T = xs" by (auto simp: rb_holds_def)
  have a: "a \<in> set (addrs T)" "distinct (addrs T)"
    using assms(2) T(1,4) by (auto simp: addrs_inorder rb_repr_def)
  from rbtree_delete_repr [OF T(1,2) a(1)] obtain t' sp' p0' where
    "rbtree_delete a t = Some t'" "rb_repr t' sp' p0' (rb_delete a T)" "sentinel t' = sentinel t" by blast
  with a T show ?thesis
    using rb_inv_delete [OF T(2) a] ordered_rb_delete [OF T(3) a] inorder_rb_delete [OF a]
    by (auto simp: rb_holds_def)
qed

lemma rb_lookup_holds:
  assumes "rb_holds t xs"
  shows "k \<in> i_key ` set xs \<Longrightarrow> \<exists>x\<in>set xs. i_key x = k \<and> rbtree_lookup t k = Some (i_addr x)"
    and "k \<notin> i_key ` set xs \<Longrightarrow> rbtree_lookup t k = Some (if k = 0 then sentinel t else NULL)"
proof -
  from assms obtain sp p0 T where
    T: "rb_repr t sp p0 T" "ordered T" "inorder T = xs" by (auto simp: rb_holds_def)
  note look = rbtree_lookup_repr [OF T(1), of k]
  show "\<exists>x\<in>set xs. i_key x = k \<and> rbtree_lookup t k = Some (i_addr x)" if "k \<in> i_key ` set xs"
  proof (cases "tree_find k T")
    case None
    with tree_find_None [OF T(2)] T(3) that show ?thesis by auto
  next
    case (Some x)
    with tree_find_Some [of k T x] T(3) look show ?thesis by auto
  qed
  show "rbtree_lookup t k = Some (if k = 0 then sentinel t else NULL)" if "k \<notin> i_key ` set xs"
    using that look tree_find_Some [of k T] T(3) by (cases "tree_find k T") auto
qed

lemma rb_min_holds: "rb_holds t xs \<Longrightarrow> rbtree_min t = Some (case xs of [] \<Rightarrow> NULL | x # _ \<Rightarrow> i_addr x)"
  using rbtree_min_repr by (auto simp: rb_holds_def)

lemma rb_init_holds:
  assumes "nodes t a \<noteq> None" "a \<noteq> NULL"
  shows "\<exists>t'. rbtree_init a t = Some t' \<and> rb_holds t' [] \<and> sentinel t' = a"
proof -
  from rbtree_init_repr [OF assms] obtain t' where
    "rbtree_init a t = Some t'" "rb_repr t' NULL 0 Leaf" "sentinel t' = a" by blast
  moreover have "rb_inv Leaf \<and> ordered Leaf \<and> inorder Leaf = []" by (simp add: rb_inv_def ordered_def)
  ultimately show ?thesis unfolding rb_holds_def by blast
qed

lemma rb_holds_distinct:
  assumes "rb_holds t xs"
  shows "distinct (map i_addr xs)" and "x \<in> set xs \<Longrightarrow> i_addr x \<noteq> NULL \<and> i_addr x \<noteq> sentinel t"
proof -
  from assms obtain sp p0 T where T: "rb_repr t sp p0 T" "inorder T = xs" by (auto simp: rb_holds_def)
  have "distinct (map i_addr (inorder S))" if "distinct (addrs S)" for S
    using that by (induction S) (auto simp: addrs_inorder)
  with T show "distinct (map i_addr xs)" by (auto simp: rb_repr_def)
  show "x \<in> set xs \<Longrightarrow> i_addr x \<noteq> NULL \<and> i_addr x \<noteq> sentinel t"
    using T unfolding rb_repr_def addrs_inorder by (metis image_eqI)
qed

lemma sub_item_data:
  "sub N s q T \<Longrightarrow> x \<in> set (inorder T) \<Longrightarrow> \<exists>n. N (i_addr x) = Some n \<and> key n = i_key x \<and> data n = i_data x"
  by (induction T arbitrary: q) auto

lemma rb_item_data:
  "rb_repr t sp p0 T \<Longrightarrow> x \<in> set (inorder T) \<Longrightarrow> rd data (i_addr x) t = Some (i_data x)"
  using sub_item_data [of "nodes t" "sentinel t" p0 T x] by (auto simp: rb_repr_def rd_def)

text \<open>Memory outside the tree may change.\<close>

lemma rb_holds_outside [frame]:
  assumes "rb_holds t xs" "a \<notin> i_addr ` set xs" "a \<noteq> sentinel t"
  shows "rb_holds (t\<lparr>nodes := (nodes t)(a := v)\<rparr>) xs"
proof -
  from assms(1) obtain sp p0 T where
    T: "rb_repr t sp p0 T" "rb_inv T" "ordered T" "inorder T = xs" by (auto simp: rb_holds_def)
  then have "rb_repr (t\<lparr>nodes := (nodes t)(a := v)\<rparr>) sp p0 T"
    using assms(2,3) by (auto simp: rb_repr_def addrs_inorder)
  with T show ?thesis by (auto simp: rb_holds_def)
qed

interpretation reg: registry rb_holds rb_fresh rbtree_insert rbtree_delete rbtree_lookup
proof
  fix m xs x a k
  show "rb_holds m xs \<Longrightarrow> rb_fresh m x xs \<Longrightarrow>
      \<exists>m'. rbtree_insert (i_addr x) m = Some m' \<and> rb_holds m' (ins_item x xs)"
    using rb_insert_holds by blast
  show "rb_holds m xs \<Longrightarrow> a \<in> i_addr ` set xs \<Longrightarrow>
      \<exists>m'. rbtree_delete a m = Some m' \<and> rb_holds m' (filter (\<lambda>x. i_addr x \<noteq> a) xs)"
    using rb_delete_holds by blast
  show "rb_holds m xs \<Longrightarrow> k \<in> i_key ` set xs \<Longrightarrow> \<exists>x\<in>set xs. i_key x = k \<and> rbtree_lookup m k = Some (i_addr x)"
    by (rule rb_lookup_holds(1))
  show "rb_holds m xs \<Longrightarrow> k \<notin> i_key ` set xs \<Longrightarrow> k \<noteq> 0 \<Longrightarrow> rbtree_lookup m k = Some NULL"
    by (simp add: rb_lookup_holds(2))
  show "rb_fresh m x xs \<Longrightarrow> i_addr x \<notin> i_addr ` set xs" by (simp add: rb_fresh_def)
  show "rb_holds m xs \<Longrightarrow> sorted (map skey xs)" by (auto simp: rb_holds_def ordered_def)
qed

end
