(* ===== verification/Alloc.thy ===== *)
theory Alloc
  imports Prelude
begin

text \<open>
  The allocation wrappers of src/cs_util.c.  \<open>malloc\<close> and \<open>realloc\<close> are parameters: for every size
  they give the address the C library returns, or null.  A block's bytes are a list; \<open>cs_zalloc\<close> and
  \<open>cs_calloc\<close> return a block of zeroes of the size that was asked for, which for \<open>cs_calloc\<close> is the
  product at the width of \<open>size_t\<close>.
\<close>

definition cs_alloc :: "(size_t \<Rightarrow> addr) \<Rightarrow> size_t \<Rightarrow> fault + addr" where
  "cs_alloc malloc sz = andThen (ASSERT (sz \<noteq> 0)) (\<lambda>_. Inr (malloc sz))"

text \<open>The address and, when it is not null, the bytes of the block.\<close>

definition cs_zalloc :: "(size_t \<Rightarrow> addr) \<Rightarrow> size_t \<Rightarrow> fault + (addr \<times> uint8 list)" where
  "cs_zalloc malloc sz =
     andThen (cs_alloc malloc sz)
       (\<lambda>p. Inr (p, if p \<noteq> NULL then replicate (unat sz) 0 else []))"

definition cs_calloc :: "(size_t \<Rightarrow> addr) \<Rightarrow> size_t \<Rightarrow> size_t \<Rightarrow> fault + (addr \<times> uint8 list)" where
  "cs_calloc malloc nmemb sz = cs_zalloc malloc (nmemb * sz)"

definition cs_realloc :: "(addr \<Rightarrow> size_t \<Rightarrow> addr) \<Rightarrow> addr \<Rightarrow> size_t \<Rightarrow> fault + addr" where
  "cs_realloc realloc ptr sz = andThen (ASSERT (sz \<noteq> 0)) (\<lambda>_. Inr (realloc ptr sz))"

text \<open>The macro \<open>cs_free\<close>: the block is released and the variable that held it is null afterwards.\<close>

definition cs_free :: "addr \<Rightarrow> (addr \<Rightarrow> 'm \<Rightarrow> 'm) \<Rightarrow> 'm \<Rightarrow> fault + (addr \<times> 'm)" where
  "cs_free p free m = andThen (ASSERT (p \<noteq> NULL)) (\<lambda>_. Inr (NULL, free p m))"

section \<open>Lemmas\<close>

lemma cs_alloc_ok: "sz \<noteq> 0 \<Longrightarrow> cs_alloc malloc sz = Inr (malloc sz)"
  by (simp add: cs_alloc_def)

lemma cs_free_ok: "p \<noteq> NULL \<Longrightarrow> cs_free p free m = Inr (NULL, free p m)"
  by (simp add: cs_free_def)

text \<open>The block \<open>cs_calloc\<close> returns is large enough exactly when the product does not wrap.\<close>

lemma cs_calloc_length:
  assumes "cs_calloc malloc nmemb sz = Inr (p, bytes)" "p \<noteq> NULL"
  shows "length bytes = unat nmemb * unat sz \<longleftrightarrow> unat nmemb * unat sz < 2 ^ 64"
    and "set bytes \<subseteq> {0}"
proof -
  from assms have len: "length bytes = unat (nmemb * sz)" and "set bytes \<subseteq> {0}"
    by (auto simp: cs_calloc_def cs_zalloc_def cs_alloc_def andThen_eq_Inr split: if_splits)
  then show "set bytes \<subseteq> {0}" by simp
  have "unat (nmemb * sz) = unat nmemb * unat sz mod 2 ^ 64"
    by (simp add: unat_word_ariths)
  then show "length bytes = unat nmemb * unat sz \<longleftrightarrow> unat nmemb * unat sz < 2 ^ 64"
    using len by (metis mod_less mod_less_divisor zero_less_numeral zero_less_power)
qed

end
