(* ===== verification/Coroutine.thy ===== *)
theory Coroutine
  imports Waitq Registry Alloc
begin

text \<open>
  The state of the program and the operations of src/cs_coroutine.c.

  The state has the coroutine, scheduler and adapter structures by address, the queue links (Tailq),
  the registry tree (Rbtree) and the globals.  A coroutine is one block of memory: its \<open>ws_tqe\<close> field
  is the entry at the coroutine's own address, its \<open>node\<close> field the tree node at \<open>node_of c\<close>; the
  \<open>wait_sched_queue\<close> of a scheduler is the queue head at \<open>wait_q s\<close> (offsets of the LP64 layout).

  A \<open>coro_context\<close> is a saved stack pointer.  What the model keeps of the stack is where it continues
  (\<open>point\<close>): at the start of a function, or behind the context switch at some place of the library.
  \<open>control\<close> is where each of the two threads is; \<open>coro_transfer\<close> stores the place in one context and
  continues at the place in the other.  The theory Coro models the machine code that does it.
\<close>

section \<open>The state\<close>

datatype entry = Sched_run | Parallel_run | Scheduleback_run | Event_loop | User_fn addr

text \<open>
  \<open>Enter f arg\<close>: about to call \<open>f (arg)\<close> on a new stack.  \<open>Sched_loop\<close>: at the test of the loop of
  \<open>sched_run\<close>; \<open>Sched_back c\<close>: in it, behind \<open>coro_switch\<close>, with the local variable \<open>c\<close>; \<open>Par_loop\<close>
  and \<open>Par_back\<close> the same in \<open>parallel_run\<close>; \<open>Run_end\<close>: behind the last \<open>coro_transfer\<close> of these
  two functions.  \<open>Resumed\<close>: behind the \<open>coro_switch\<close> of \<open>coro_yield\<close>,
  \<open>coro_exit\<close> or \<open>sched_run_once\<close>, which return to their caller.  \<open>In_main\<close>: on the thread's
  original stack, for the master in \<open>main\<close> or behind the \<open>coro_transfer\<close> of \<open>env_run\<close>, for the
  other behind the one of \<open>parallel_main\<close>.
\<close>

datatype point =
    Enter entry addr | Sched_loop | Sched_back addr | Par_loop | Par_back addr
  | Run_end | Resumed | In_main

type_synonym coro_context = "point option"
type_synonym cstatus_t = int
type_synonym coroid_t = "64 word"

abbreviation (input) M_FREE :: cstatus_t where "M_FREE \<equiv> 1"
abbreviation (input) M_READY :: cstatus_t where "M_READY \<equiv> 2"
abbreviation (input) M_RUN :: cstatus_t where "M_RUN \<equiv> 3"
abbreviation (input) M_EXIT :: cstatus_t where "M_EXIT \<equiv> 4"

record coroutine =
  cid :: coroid_t
  ctx :: coro_context
  status :: cstatus_t
  sched :: addr
  need_parallel :: bool

record scheduler =
  main_coro :: coro_context
  stop :: int
  sched_coro :: addr
  current_coro :: addr
  is_parallel_sched :: bool

record adapter =
  scbd_coro :: addr
  readfd :: int
  writefd :: int

text \<open>\<open>struct eventmanager\<close> and \<open>struct event\<close> of src/cs_eventmgr.h.\<close>

record eventmanager =
  epfd :: int
  em_events :: addr
  nevent :: int
  max_timeout :: int
  evmgr_coro :: addr
  em_stop :: int

record event =
  ev_mask :: uint32
  ev_sockfd :: int
  ev_events :: uint32
  ev_coro :: addr

datatype thread = Master | Parallel

text \<open>
  \<open>interest\<close> is what the kernel keeps for the epoll descriptors: for a descriptor added to one, the
  requested events and the pointer that comes back with them.
\<close>

record world =
  coros :: "addr \<rightharpoonup> coroutine"
  scheds :: "addr \<rightharpoonup> scheduler"
  adapters :: "addr \<rightharpoonup> adapter"
  eventmgrs :: "addr \<rightharpoonup> eventmanager"
  events :: "addr \<rightharpoonup> event"
  interest :: "int \<times> int \<rightharpoonup> uint32 \<times> addr"
  tq :: tqmem
  coroutine_rbt :: rbtree
  g_mastersched :: addr
  g_parallelsched :: addr
  g_schedulebackadapter :: addr
  g_eventmgr :: addr
  g_mutex :: bool
  control :: "thread \<Rightarrow> point"

definition node_of :: "addr \<Rightarrow> addr" where
  "node_of c = c + 56"

definition wait_q :: "addr \<Rightarrow> addr" where
  "wait_q s = s + 32"

definition sizeof_coroutine :: size_t where
  "sizeof_coroutine = 104"

section \<open>Reading and writing it\<close>

definition get_coro :: "addr \<Rightarrow> world \<Rightarrow> fault + coroutine" where
  "get_coro c w = deref (coros w c)"

definition upd_coro :: "addr \<Rightarrow> (coroutine \<Rightarrow> coroutine) \<Rightarrow> world \<Rightarrow> fault + world" where
  "upd_coro c f w = andThen (get_coro c w) (\<lambda>co. Inr (w\<lparr>coros := (coros w)(c \<mapsto> f co)\<rparr>))"

definition get_sched :: "addr \<Rightarrow> world \<Rightarrow> fault + scheduler" where
  "get_sched s w = deref (scheds w s)"

definition upd_sched :: "addr \<Rightarrow> (scheduler \<Rightarrow> scheduler) \<Rightarrow> world \<Rightarrow> fault + world" where
  "upd_sched s f w = andThen (get_sched s w) (\<lambda>sc. Inr (w\<lparr>scheds := (scheds w)(s \<mapsto> f sc)\<rparr>))"

definition on_tq :: "(tqmem \<Rightarrow> tqmem option) \<Rightarrow> world \<Rightarrow> fault + world" where
  "on_tq f w = andThen (deref (f (tq w))) (\<lambda>m. Inr (w\<lparr>tq := m\<rparr>))"

definition on_rbt :: "(rbtree \<Rightarrow> rbtree option) \<Rightarrow> world \<Rightarrow> fault + world" where
  "on_rbt f w = andThen (deref (f (coroutine_rbt w))) (\<lambda>t. Inr (w\<lparr>coroutine_rbt := t\<rparr>))"

text \<open>A context is that of a coroutine or the \<open>main_coro\<close> of a scheduler.\<close>

datatype ctxref = Coro_ctx addr | Main_ctx addr

definition get_ctx :: "ctxref \<Rightarrow> world \<Rightarrow> fault + coro_context" where
  "get_ctx r w = (case r of
     Coro_ctx c \<Rightarrow> andThen (get_coro c w) (\<lambda>co. Inr (ctx co))
   | Main_ctx s \<Rightarrow> andThen (get_sched s w) (\<lambda>sc. Inr (main_coro sc)))"

definition set_ctx :: "ctxref \<Rightarrow> coro_context \<Rightarrow> world \<Rightarrow> fault + world" where
  "set_ctx r x w = (case r of
     Coro_ctx c \<Rightarrow> upd_coro c (ctx_update (\<lambda>_. x)) w
   | Main_ctx s \<Rightarrow> upd_sched s (main_coro_update (\<lambda>_. x)) w)"

text \<open>Thread \<open>th\<close>, which is to continue at \<open>here\<close> later, continues where \<open>next\<close> left off.\<close>

definition coro_transfer :: "thread \<Rightarrow> ctxref \<Rightarrow> ctxref \<Rightarrow> point \<Rightarrow> world \<Rightarrow> fault + world" where
  "coro_transfer th prev next here w =
     andThen (set_ctx prev (Some here) w) (\<lambda>w.
     andThen (get_ctx next w) (\<lambda>x.
     andThen (deref x) (\<lambda>p.
     Inr (w\<lparr>control := (control w)(th := p)\<rparr>))))"

section \<open>The functions of cs_coroutine.c\<close>

definition coro_switch :: "thread \<Rightarrow> addr \<Rightarrow> addr \<Rightarrow> point \<Rightarrow> world \<Rightarrow> fault + world" where
  "coro_switch th from to here w =
     andThen (ASSERT (from \<noteq> NULL)) (\<lambda>_.
     andThen (ASSERT (to \<noteq> NULL)) (\<lambda>_.
     coro_transfer th (Coro_ctx from) (Coro_ctx to) here w))"

text \<open>
  The new block holds the coroutine structure, all bytes zero, and behind it the stack, which
  \<open>coro_create\<close> prepares so that the context starts in \<open>fn\<close>: it writes the \<open>coro_frame\<close> bytes below the end of
  the stack (\<open>create_frame\<close> in Coro).  When the stack is smaller, or when its size and that of the structure do
  not add up in a \<open>size_t\<close>, so that the block is smaller than the structure, that is a write outside the block
  or over the structure.  What the frames of the compiled functions need comes on top and is not modelled.
\<close>

definition coro_frame :: size_t where
  "coro_frame = 64"

definition stack_fits :: "size_t \<Rightarrow> bool" where
  "stack_fits stack \<longleftrightarrow> coro_frame \<le> stack \<and> sizeof_coroutine \<le> sizeof_coroutine + stack"

lemma stack_fits_size: "stack_fits n \<Longrightarrow> sizeof_coroutine + n \<noteq> 0"
  by (auto simp: stack_fits_def sizeof_coroutine_def)

lemma stack_fits_8192 [simp]: "stack_fits 8192"
  by (simp add: stack_fits_def coro_frame_def sizeof_coroutine_def)

definition coro_alloc ::
  "(size_t \<Rightarrow> addr) \<Rightarrow> entry \<Rightarrow> addr \<Rightarrow> size_t \<Rightarrow> world \<Rightarrow> fault + (addr \<times> world)" where
  "coro_alloc malloc fn arg stack w =
     andThen (cs_alloc malloc (sizeof_coroutine + stack)) (\<lambda>co.
     if co = NULL then Inr (NULL, w)
     else if \<not> stack_fits stack then Inl Segv
     else Inr (co,
       w\<lparr>coros := (coros w)(co \<mapsto> \<lparr>cid = 0, ctx = Some (Enter fn arg), status = M_FREE,
                                    sched = NULL, need_parallel = False\<rparr>),
         tq := (tq w)\<lparr>tq_entries := (tq_entries (tq w))(co \<mapsto> \<lparr>tqe_next = NULL, tqe_prev = Link_Null\<rparr>)\<rparr>,
         coroutine_rbt := (coroutine_rbt w)\<lparr>nodes := (nodes (coroutine_rbt w))(node_of co \<mapsto>
           \<lparr>left = NULL, right = NULL, parent = NULL, key = 0, data = NULL, color = 0\<rparr>)\<rparr>\<rparr>))"

definition release_coro :: "addr \<Rightarrow> world \<Rightarrow> world" where
  "release_coro c w =
     w\<lparr>coros := (coros w)(c := None),
       tq := (tq w)\<lparr>tq_entries := (tq_entries (tq w))(c := None)\<rparr>,
       coroutine_rbt := (coroutine_rbt w)\<lparr>nodes := (nodes (coroutine_rbt w))(node_of c := None)\<rparr>\<rparr>"

definition coro_dealloc :: "addr \<Rightarrow> world \<Rightarrow> fault + world" where
  "coro_dealloc c w = andThen (cs_free c release_coro w) (\<lambda>r. Inr (snd r))"

definition coro_ready :: "addr \<Rightarrow> world \<Rightarrow> fault + world" where
  "coro_ready coro w =
     andThen (get_coro coro w) (\<lambda>co.
     andThen (ASSERT (status co \<noteq> M_EXIT)) (\<lambda>_.
     andThen (upd_coro coro (status_update (\<lambda>_. M_READY)) w) (\<lambda>w.
     andThen (get_sched (sched co) w) (\<lambda>_.
     on_tq (insert_tail (wait_q (sched co)) coro) w))))"

definition coro_ready_immediatly :: "addr \<Rightarrow> world \<Rightarrow> fault + world" where
  "coro_ready_immediatly coro w =
     andThen (get_coro coro w) (\<lambda>co.
     andThen (ASSERT (status co = M_FREE \<or> status co = M_RUN)) (\<lambda>_.
     andThen (upd_coro coro (status_update (\<lambda>_. M_READY)) w) (\<lambda>w.
     andThen (get_sched (sched co) w) (\<lambda>_.
     on_tq (insert_head (wait_q (sched co)) coro) w))))"

definition sched_register_coro :: "addr \<Rightarrow> world \<Rightarrow> fault + world" where
  "sched_register_coro coro w = on_rbt (rbtree_insert (node_of coro)) w"

definition coro_spawn ::
  "(size_t \<Rightarrow> addr) \<Rightarrow> addr \<Rightarrow> entry \<Rightarrow> addr \<Rightarrow> size_t \<Rightarrow> world \<Rightarrow> fault + (rstatus_t \<times> world)" where
  "coro_spawn malloc s fn arg stacksize w =
     andThen (coro_alloc malloc fn arg stacksize w) (\<lambda>(coro, w).
     if coro = NULL then Inr (M_ERR, w)
     else
       andThen (upd_coro coro (cid_update (\<lambda>_. coro)) w) (\<lambda>w.
       andThen (on_rbt (wr (node_of coro) (\<lambda>n. n\<lparr>key := coro, data := coro\<rparr>)) w) (\<lambda>w.
       andThen (upd_coro coro (\<lambda>co. co\<lparr>status := M_FREE, sched := s\<rparr>) w) (\<lambda>w.
       andThen (sched_register_coro coro w) (\<lambda>w.
       andThen (coro_ready coro w) (\<lambda>w.
       Inr (M_OK, w)))))))"

text \<open>\<open>co == co->sched->current_coro\<close>, which the two functions below assert.\<close>

definition is_current :: "addr \<Rightarrow> world \<Rightarrow> fault + bool" where
  "is_current co w =
     andThen (get_coro co w) (\<lambda>c.
     andThen (get_sched (sched c) w) (\<lambda>s. Inr (co = current_coro s)))"

definition coro_exit :: "thread \<Rightarrow> addr \<Rightarrow> world \<Rightarrow> fault + world" where
  "coro_exit th co w =
     andThen (ASSERT (co \<noteq> NULL)) (\<lambda>_.
     andThen (is_current co w) (\<lambda>cur.
     andThen (ASSERT cur) (\<lambda>_.
     andThen (upd_coro co (status_update (\<lambda>_. M_EXIT)) w) (\<lambda>w.
     andThen (get_coro co w) (\<lambda>c.
     andThen (get_sched (sched c) w) (\<lambda>s.
     coro_switch th co (sched_coro s) Resumed w))))))"

definition coro_yield :: "thread \<Rightarrow> addr \<Rightarrow> world \<Rightarrow> fault + world" where
  "coro_yield th co w =
     andThen (ASSERT (co \<noteq> NULL)) (\<lambda>_.
     andThen (is_current co w) (\<lambda>cur.
     andThen (ASSERT cur) (\<lambda>_.
     andThen (coro_ready co w) (\<lambda>w.
     andThen (get_coro co w) (\<lambda>c.
     andThen (get_sched (sched c) w) (\<lambda>s.
     coro_switch th (current_coro s) (sched_coro s) Resumed w))))))"

definition coro_switch_to_parallel :: "thread \<Rightarrow> addr \<Rightarrow> world \<Rightarrow> fault + (rstatus_t \<times> world)" where
  "coro_switch_to_parallel th co w =
     andThen (ASSERT (co \<noteq> NULL)) (\<lambda>_.
     andThen (get_coro co w) (\<lambda>c.
     if \<not> need_parallel c then Inr (M_ERR, w)
     else andThen (coro_ready_immediatly co w) (\<lambda>w.
          andThen (coro_yield th co w) (\<lambda>w. Inr (M_OK, w)))))"

text \<open>
  The lock is taken and given back within the function, so \<open>g_mutex\<close> is unchanged when it returns;
  \<open>g_mutex w\<close> says that somebody holds the lock at the call.
\<close>

definition coro_sent_parallel :: "addr \<Rightarrow> world \<Rightarrow> fault + (rstatus_t \<times> world)" where
  "coro_sent_parallel c w =
     andThen (ASSERT (c \<noteq> NULL)) (\<lambda>_.
     andThen (get_coro c w) (\<lambda>co.
     andThen (ASSERT (need_parallel co)) (\<lambda>_.
     if \<not> g_mutex w then
       andThen (upd_coro c (sched_update (\<lambda>_. g_parallelsched w)) w) (\<lambda>w.
       andThen (get_sched (g_parallelsched w) w) (\<lambda>_.
       andThen (on_tq (insert_head (wait_q (g_parallelsched w)) c) w) (\<lambda>w. Inr (M_OK, w))))
     else
       andThen (upd_coro c (sched_update (\<lambda>_. g_mastersched w)) w) (\<lambda>w. Inr (M_ERR, w)))))"

definition coro_runin_parallel :: "addr \<Rightarrow> world \<Rightarrow> fault + bool" where
  "coro_runin_parallel c w =
     andThen (ASSERT (c \<noteq> NULL)) (\<lambda>_.
     andThen (get_coro c w) (\<lambda>co.
     andThen (get_sched (sched co) w) (\<lambda>s. Inr (is_parallel_sched s))))"

text \<open>
  \<open>coro_switch_to_master\<close> calls \<open>send\<close> until it is not interrupted.  \<open>sends\<close> are the results of the
  successive calls, each with the value of \<open>errno\<close> behind it; \<open>None\<close> means that the list ends in the
  middle of the loop.  The value sent is the first word of the coroutine, not its address.
\<close>

definition EINTR :: int where
  "EINTR = 4"

fun switch_to_master_loop :: "(int \<times> int) list \<Rightarrow> addr \<Rightarrow> world \<Rightarrow> (fault + (rstatus_t \<times> world)) option" where
  "switch_to_master_loop [] c w = None"
| "switch_to_master_loop ((n, errno) # sends) c w =
     (case andThen (upd_coro c (sched_update (\<lambda>_. g_mastersched w)) w) (\<lambda>w.
           andThen (deref (adapters w (g_schedulebackadapter w))) (\<lambda>_. Inr w)) of
        Inl e \<Rightarrow> Some (Inl e)
      | Inr w \<Rightarrow>
          if n = -1 \<and> errno = EINTR then switch_to_master_loop sends c w
          else if n \<noteq> uint sizeof_coroutine
          then Some (andThen (upd_coro c (sched_update (\<lambda>_. g_parallelsched w)) w) (\<lambda>w. Inr (M_ERR, w)))
          else Some (Inr (M_OK, w)))"

definition coro_switch_to_master ::
  "(int \<times> int) list \<Rightarrow> addr \<Rightarrow> world \<Rightarrow> (fault + (rstatus_t \<times> world)) option" where
  "coro_switch_to_master sends c w =
     (if c = NULL then Some (Inl Assert_Fail) else switch_to_master_loop sends c w)"

end
