(* ===== verification/Scheduler.thy ===== *)
theory Scheduler
  imports Coroutine
begin

text \<open>
  The functions of src/cs_scheduler.c.  A function that hands the thread to another coroutine in the
  middle is split where it does: \<open>sched_run_iter\<close> is one turn of the loop of \<open>sched_run\<close> up to the
  switch, \<open>sched_run_back\<close> what follows when the switch returns, and \<open>sched_step\<close> takes whichever
  of them \<open>control\<close> is at; \<open>parallel_run\<close> likewise.  Logging has no effect on the state.
\<close>

section \<open>The registry and the queue\<close>

definition sched_get_coro :: "coroid_t \<Rightarrow> world \<Rightarrow> fault + addr" where
  "sched_get_coro pid w =
     andThen (deref (rbtree_lookup (coroutine_rbt w) pid)) (\<lambda>value.
     if value = NULL then Inr NULL else deref (rd data value (coroutine_rbt w)))"

definition sched_has_task :: "world \<Rightarrow> fault + bool" where
  "sched_has_task w = andThen (deref (empty_queue (wait_q (g_mastersched w)) (tq w))) (\<lambda>e. Inr (\<not> e))"

text \<open>\<open>pop\<close> on the queue of the scheduler \<open>s\<close>.\<close>

definition sched_pop :: "addr \<Rightarrow> world \<Rightarrow> fault + (addr \<times> world)" where
  "sched_pop s w = andThen (deref (pop (wait_q s) (tq w))) (\<lambda>(c, m). Inr (c, w\<lparr>tq := m\<rparr>))"

section \<open>The master scheduler\<close>

definition sched_run_end :: "world \<Rightarrow> fault + world" where
  "sched_run_end w =
     andThen (get_sched (g_mastersched w) w) (\<lambda>s.
     coro_transfer Master (Coro_ctx (sched_coro s)) (Main_ctx (g_mastersched w)) Run_end w)"

definition goto :: "thread \<Rightarrow> point \<Rightarrow> world \<Rightarrow> world" where
  "goto th p w = w\<lparr>control := (control w)(th := p)\<rparr>"

definition sched_run_iter :: "world \<Rightarrow> fault + world" where
  "sched_run_iter w =
     andThen (get_sched (g_mastersched w) w) (\<lambda>s.
     if stop s \<noteq> 0 then sched_run_end w
     else
       andThen (sched_pop (g_mastersched w) w) (\<lambda>(c, w).
       if c = NULL then sched_run_end w
       else
         andThen (get_coro c w) (\<lambda>co.
         if need_parallel co then
           andThen (coro_sent_parallel c w) (\<lambda>(rs, w).
           andThen (if rs \<noteq> M_ERR then coro_ready_immediatly c w else Inr w) (\<lambda>w.
           Inr (goto Master Sched_loop w)))
         else
           andThen (upd_coro c (status_update (\<lambda>_. M_RUN)) w) (\<lambda>w.
           andThen (upd_sched (g_mastersched w) (current_coro_update (\<lambda>_. c)) w) (\<lambda>w.
           andThen (get_sched (g_mastersched w) w) (\<lambda>s.
           coro_switch Master (sched_coro s) (current_coro s) (Sched_back c) w))))))"

definition sched_run_back :: "addr \<Rightarrow> world \<Rightarrow> fault + world" where
  "sched_run_back c w =
     andThen (upd_sched (g_mastersched w) (current_coro_update (\<lambda>_. NULL)) w) (\<lambda>w.
     andThen (get_coro c w) (\<lambda>co.
     andThen (if status co = M_EXIT
              then andThen (on_rbt (rbtree_delete (node_of c)) w) (coro_dealloc c)
              else Inr w) (\<lambda>w.
     Inr (goto Master Sched_loop w))))"

text \<open>The next step of \<open>sched_run\<close>, when the master thread is in it.\<close>

definition sched_step :: "world \<Rightarrow> (fault + world) option" where
  "sched_step w =
     (case control w Master of
        Enter Sched_run arg \<Rightarrow> Some (sched_run_iter w)
      | Sched_loop \<Rightarrow> Some (sched_run_iter w)
      | Sched_back c \<Rightarrow> Some (sched_run_back c w)
      | _ \<Rightarrow> None)"

text \<open>
  One turn of the loop of \<open>sched_run_once\<close>: whether the loop goes on at once.  It does not when it
  is left or when the thread was handed to another coroutine.
\<close>

definition sched_run_once_iter :: "world \<Rightarrow> fault + (bool \<times> world)" where
  "sched_run_once_iter w =
     andThen (get_sched (g_mastersched w) w) (\<lambda>s.
     if stop s \<noteq> 0 then Inr (False, w)
     else
       andThen (sched_has_task w) (\<lambda>b.
       if \<not> b then Inr (False, w)
       else
         andThen (sched_pop (g_mastersched w) w) (\<lambda>(c, w).
         if c = NULL then Inr (False, w)
         else
           andThen (get_coro c w) (\<lambda>co.
           if status co = M_EXIT then Inr (True, w)
           else
             andThen (coro_ready (current_coro s) w) (\<lambda>w.
             if need_parallel co then
               andThen (coro_switch_to_parallel Master c w) (\<lambda>(rs, w). Inr (rs \<noteq> M_OK, w))
             else
               andThen (upd_sched (g_mastersched w) (current_coro_update (\<lambda>_. c)) w) (\<lambda>w.
               andThen (coro_switch Master (current_coro s) c Resumed w) (\<lambda>w. Inr (False, w))))))))"

partial_function (option) sched_run_once :: "world \<Rightarrow> (fault + world) option" where
  "sched_run_once w =
     (case sched_run_once_iter w of
        Inl e \<Rightarrow> Some (Inl e)
      | Inr (again, w) \<Rightarrow> if again then sched_run_once w else Some (Inr w))"

section \<open>The parallel scheduler\<close>

text \<open>\<open>None\<close>: the thread waits for the lock.\<close>

definition parallel_main :: "addr \<Rightarrow> world \<Rightarrow> (fault + world) option" where
  "parallel_main psched w =
     (if psched = NULL then Some (Inl Assert_Fail)
      else if g_mutex w then None
      else Some (andThen (get_sched psched w) (\<lambda>s.
             coro_transfer Parallel (Main_ctx psched) (Coro_ctx (sched_coro s)) In_main w)))"

definition parallel_run_iter :: "world \<Rightarrow> fault + world" where
  "parallel_run_iter w =
     andThen (get_sched (g_parallelsched w) w) (\<lambda>s.
     if stop s \<noteq> 0
     then coro_transfer Parallel (Coro_ctx (sched_coro s)) (Main_ctx (g_parallelsched w)) Run_end w
     else if \<not> g_mutex w then
       andThen (Inr (w\<lparr>g_mutex := True\<rparr>)) (\<lambda>w.
       andThen (deref (empty_queue (wait_q (g_parallelsched w)) (tq w))) (\<lambda>e.
       if e then Inr (goto Parallel Par_loop w)
       else
         andThen (sched_pop (g_parallelsched w) w) (\<lambda>(co, w).
         andThen (ASSERT (co \<noteq> NULL)) (\<lambda>_.
         coro_switch Parallel (sched_coro s) co (Par_back co) w))))
     else Inr (goto Parallel Par_loop w))"

definition parallel_run_back :: "(int \<times> int) list \<Rightarrow> addr \<Rightarrow> world \<Rightarrow> (fault + world) option" where
  "parallel_run_back sends co w =
     map_option (\<lambda>r. andThen r (\<lambda>(rs, w). Inr (goto Parallel Par_loop w))) (coro_switch_to_master sends co w)"

definition parallel_step :: "(int \<times> int) list \<Rightarrow> world \<Rightarrow> (fault + world) option" where
  "parallel_step sends w =
     (case control w Parallel of
        Enter Parallel_run arg \<Rightarrow> Some (parallel_run_iter w)
      | Par_loop \<Rightarrow> Some (parallel_run_iter w)
      | Par_back co \<Rightarrow> parallel_run_back sends co w
      | _ \<Rightarrow> None)"

section \<open>Start and stop\<close>

text \<open>\<open>created\<close> is the result of \<open>pthread_create\<close>.\<close>

definition env_run :: "int \<Rightarrow> world \<Rightarrow> (fault + (rstatus_t option \<times> world)) option" where
  "env_run created w =
     (if g_mastersched w = NULL \<or> g_parallelsched w = NULL then Some (Inl Assert_Fail)
      else if created \<noteq> 0 then Some (Inr (Some M_ERR, w))
      else if g_mutex w then None
      else Some (andThen (get_sched (g_mastersched w) w) (\<lambda>s.
             andThen (coro_transfer Master (Main_ctx (g_mastersched w)) (Coro_ctx (sched_coro s)) In_main w)
               (\<lambda>w. Inr (None, w)))))"

text \<open>The stop flag of the event manager is set last, through \<open>g_eventmgr\<close>.\<close>

definition env_stop :: "world \<Rightarrow> fault + world" where
  "env_stop w =
     andThen (upd_sched (g_mastersched w) (stop_update (\<lambda>_. 1)) w) (\<lambda>w.
     andThen (upd_sched (g_mastersched w) (stop_update (\<lambda>_. 1)) w) (\<lambda>w.
     andThen (deref (eventmgrs w (g_eventmgr w))) (\<lambda>e.
     Inr (w\<lparr>eventmgrs := (eventmgrs w)(g_eventmgr w \<mapsto> e\<lparr>em_stop := 1\<rparr>)\<rparr>))))"

end
