(* ===== verification/Sched_Refine.thy ===== *)
theory Sched_Refine
  imports Scheduler
begin

text \<open>
  What the master scheduler of src/cs_scheduler.c and the coroutine operations of
  src/cs_coroutine.c promise, as an abstract machine, and the proof that the code keeps the promise.

  An abstract state is the list \<open>ws\<close> of the ready coroutines in the order in which they will run, and
  a \<open>phase\<close>.  \<open>sched_rel w ws ph\<close> relates a state of the program to it: the wait queue is a
  well-formed queue with exactly \<open>ws\<close>; the registry is a well-formed red-black tree with exactly the
  live coroutines, each under its own address; every live coroutine has the status that its place
  says; and the contexts are where a switch finds them.  One lemma per operation says that it returns
  (no null pointer, no failed assertion) and which abstract step it is.
\<close>

section \<open>The abstract machine\<close>

text \<open>
  \<open>Outside b\<close>: the master thread is in \<open>main\<close>, after the scheduler has ended when \<open>b\<close>.  \<open>Loop\<close>: it is
  at the head of the loop of \<open>sched_run\<close>.  \<open>Running c\<close>: the coroutine \<open>c\<close> runs.  \<open>Back c b\<close>: \<open>c\<close> has
  switched back to the scheduler, for the last time when \<open>b\<close>.
\<close>

datatype phase = Outside bool | Loop | Running addr | Back addr bool

fun live :: "addr list \<Rightarrow> phase \<Rightarrow> addr set" where
  "live ws (Running c) = insert c (set ws)"
| "live ws (Back c True) = insert c (set ws)"
| "live ws ph = set ws"

inductive astep :: "addr list \<times> phase \<Rightarrow> addr list \<times> phase \<Rightarrow> bool" where
  a_start: "astep (ws, Outside False) (ws, Loop)"
| a_dispatch: "astep (c # ws, Loop) (ws, Running c)"
| a_end: "astep (ws, Loop) (ws, Outside True)"
| a_yield: "astep (ws, Running c) (ws @ [c], Back c False)"
| a_exit: "astep (ws, Running c) (ws, Back c True)"
| a_resume: "astep (ws, Back c b) (ws, Loop)"
| a_spawn: "d \<notin> live ws ph \<Longrightarrow> (\<exists>b. ph = Outside b) \<or> (\<exists>c. ph = Running c) \<Longrightarrow> astep (ws, ph) (ws @ [d], ph)"

section \<open>The relation\<close>

definition live_item :: "addr \<Rightarrow> item" where
  "live_item c = \<lparr>i_addr = node_of c, i_key = c, i_data = c\<rparr>"

fun user_point :: "point \<Rightarrow> bool" where
  "user_point (Enter (User_fn f) arg) \<longleftrightarrow> True"
| "user_point Resumed \<longleftrightarrow> True"
| "user_point _ \<longleftrightarrow> False"

definition expected :: "addr list \<Rightarrow> phase \<Rightarrow> addr \<Rightarrow> cstatus_t" where
  "expected ws ph c = (if c \<in> set ws then M_READY else if ph = Running c then M_RUN else M_EXIT)"

definition coro_ok :: "world \<Rightarrow> addr \<Rightarrow> cstatus_t \<Rightarrow> bool" where
  "coro_ok w c st \<longleftrightarrow>
     c \<noteq> NULL \<and> is_entry (tq w) c
     \<and> (\<exists>co p. coros w c = Some co \<and> cid co = c \<and> sched co = g_mastersched w \<and> \<not> need_parallel co
          \<and> status co = st \<and> ctx co = Some p \<and> user_point p)"

fun place :: "world \<Rightarrow> scheduler \<Rightarrow> coro_context \<Rightarrow> addr list \<Rightarrow> phase \<Rightarrow> bool" where
  "place w S x ws (Outside b) \<longleftrightarrow>
     control w Master = In_main \<and> (if b then x = Some Run_end else \<exists>arg. x = Some (Enter Sched_run arg))"
| "place w S x ws Loop \<longleftrightarrow>
     (control w Master = Sched_loop \<or> (\<exists>arg. control w Master = Enter Sched_run arg)) \<and> main_coro S = Some In_main"
| "place w S x ws (Running c) \<longleftrightarrow>
     user_point (control w Master) \<and> current_coro S = c \<and> c \<notin> set ws \<and> x = Some (Sched_back c)
     \<and> main_coro S = Some In_main"
| "place w S x ws (Back c b) \<longleftrightarrow>
     control w Master = Sched_back c \<and> (c \<in> set ws \<longleftrightarrow> \<not> b) \<and> main_coro S = Some In_main"

definition sched_rel :: "world \<Rightarrow> addr list \<Rightarrow> phase \<Rightarrow> bool" where
  "sched_rel w ws ph \<longleftrightarrow>
     (\<exists>S sco items.
        scheds w (g_mastersched w) = Some S \<and> coros w (sched_coro S) = Some sco
        \<and> sched_coro S \<noteq> NULL \<and> sched_coro S \<notin> live ws ph
        \<and> is_tailq (tq w) (wait_q (g_mastersched w)) ws
        \<and> rb_holds (coroutine_rbt w) items \<and> set items = live_item ` live ws ph
        \<and> (\<forall>c\<in>live ws ph. coro_ok w c (expected ws ph c))
        \<and> place w S (ctx sco) ws ph)"

lemma sched_relI:
  assumes "scheds w (g_mastersched w) = Some S" "coros w (sched_coro S) = Some sco"
    "sched_coro S \<noteq> NULL" "sched_coro S \<notin> live ws ph"
    "is_tailq (tq w) (wait_q (g_mastersched w)) ws"
    "rb_holds (coroutine_rbt w) items" "set items = live_item ` live ws ph"
    "\<And>c. c \<in> live ws ph \<Longrightarrow> coro_ok w c (expected ws ph c)" "place w S (ctx sco) ws ph"
  shows "sched_rel w ws ph"
  using assms unfolding sched_rel_def by blast

lemma sched_relE:
  assumes "sched_rel w ws ph"
  obtains S sco items where
    "scheds w (g_mastersched w) = Some S" "coros w (sched_coro S) = Some sco"
    "sched_coro S \<noteq> NULL" "sched_coro S \<notin> live ws ph"
    "is_tailq (tq w) (wait_q (g_mastersched w)) ws"
    "rb_holds (coroutine_rbt w) items" "set items = live_item ` live ws ph"
    "\<forall>c\<in>live ws ph. coro_ok w c (expected ws ph c)" "place w S (ctx sco) ws ph"
  using assms unfolding sched_rel_def by blast

definition stopped :: "world \<Rightarrow> bool" where
  "stopped w \<longleftrightarrow> (\<exists>S. scheds w (g_mastersched w) = Some S \<and> stop S \<noteq> 0)"

section \<open>Helper lemmas\<close>

lemma live_item_sel [simp]:
  "i_addr (live_item c) = node_of c" "i_key (live_item c) = c" "i_data (live_item c) = c"
  by (simp_all add: live_item_def)

lemma node_of_inj [simp]: "node_of a = node_of b \<longleftrightarrow> a = b"
  by (simp add: node_of_def)

lemma node_of_image [simp]: "i_addr ` live_item ` A = node_of ` A"
  by (auto simp: image_iff)

lemma is_tailq_alloc:
  "a \<notin> set xs \<Longrightarrow> is_tailq (m\<lparr>tq_entries := (tq_entries m)(a := v)\<rparr>) h xs = is_tailq m h xs"
  using tq_seg_cong [of xs "(tq_entries m)(a := v)" "tq_entries m"]
  by (auto simp: is_tailq_def fun_upd_apply)

lemma coro_ok_cong:
  assumes "coro_ok w c st" "coros w' c = coros w c" "is_entry (tq w') c = is_entry (tq w) c"
    "g_mastersched w' = g_mastersched w"
  shows "coro_ok w' c st"
  using assms by (simp add: coro_ok_def)

lemmas op_defs = get_coro_def upd_coro_def get_sched_def upd_sched_def on_tq_def on_rbt_def
  get_ctx_def set_ctx_def coro_transfer_def coro_switch_def

section \<open>The scheduler's steps\<close>

lemma env_run_refines:
  assumes "sched_rel w ws (Outside False)" "\<not> g_mutex w" "g_mastersched w \<noteq> NULL" "g_parallelsched w \<noteq> NULL"
  shows "\<exists>w'. env_run 0 w = Some (Inr (None, w')) \<and> sched_rel w' ws Loop \<and> stopped w' = stopped w"
proof -
  obtain S sco items where
    r: "scheds w (g_mastersched w) = Some S" "coros w (sched_coro S) = Some sco"
      "sched_coro S \<noteq> NULL" "sched_coro S \<notin> live ws (Outside False)"
      "is_tailq (tq w) (wait_q (g_mastersched w)) ws" "rb_holds (coroutine_rbt w) items"
      "set items = live_item ` live ws (Outside False)"
      "\<forall>c\<in>live ws (Outside False). coro_ok w c (expected ws (Outside False) c)"
      "place w S (ctx sco) ws (Outside False)"
    using assms(1) by (rule sched_relE)
  then obtain arg where arg: "ctx sco = Some (Enter Sched_run arg)" by auto
  have "env_run 0 w = Some (Inr (None, w\<lparr>scheds := (scheds w)(g_mastersched w \<mapsto> S\<lparr>main_coro := Some In_main\<rparr>),
          control := (control w)(Master := Enter Sched_run arg)\<rparr>))"
    using r arg assms by (simp add: env_run_def op_defs)
  moreover have "sched_rel (w\<lparr>scheds := (scheds w)(g_mastersched w \<mapsto> S\<lparr>main_coro := Some In_main\<rparr>),
          control := (control w)(Master := Enter Sched_run arg)\<rparr>) ws Loop"
    using r by (intro sched_relI [where S = "S\<lparr>main_coro := Some In_main\<rparr>" and sco = sco and items = items])
      (simp_all add: expected_def coro_ok_def)
  moreover have "stopped (w\<lparr>scheds := (scheds w)(g_mastersched w \<mapsto> S\<lparr>main_coro := Some In_main\<rparr>),
          control := (control w)(Master := Enter Sched_run arg)\<rparr>) = stopped w"
    using r(1) by (simp add: stopped_def)
  ultimately show ?thesis by blast
qed

lemma sched_end_refines:
  assumes "sched_rel w ws Loop" "ws = [] \<or> stopped w"
  shows "\<exists>w'. sched_step w = Some (Inr w') \<and> sched_rel w' ws (Outside True)"
proof -
  obtain S sco items where
    r: "scheds w (g_mastersched w) = Some S" "coros w (sched_coro S) = Some sco"
      "sched_coro S \<noteq> NULL" "sched_coro S \<notin> live ws Loop"
      "is_tailq (tq w) (wait_q (g_mastersched w)) ws" "rb_holds (coroutine_rbt w) items"
      "set items = live_item ` live ws Loop"
      "\<forall>c\<in>live ws Loop. coro_ok w c (expected ws Loop c)"
      "place w S (ctx sco) ws Loop"
    using assms(1) by (rule sched_relE)
  let ?w = "w\<lparr>coros := (coros w)(sched_coro S \<mapsto> sco\<lparr>ctx := Some Run_end\<rparr>),
          control := (control w)(Master := In_main)\<rparr>"
  have "sched_run_end w = Inr ?w" using r by (simp add: sched_run_end_def op_defs)
  moreover have "stop S = 0 \<Longrightarrow> sched_pop (g_mastersched w) w = Inr (NULL, w)"
    using assms(2) r(1,5) pop_none [of "tq w"] by (auto simp: stopped_def sched_pop_def)
  ultimately have "sched_run_iter w = Inr ?w" using r(1) by (simp add: sched_run_iter_def get_sched_def)
  then have "sched_step w = Some (Inr ?w)" using r(9) by (auto simp: sched_step_def)
  moreover have "coro_ok ?w c (expected ws (Outside True) c)" if "c \<in> set ws" for c
  proof -
    have "coro_ok w c M_READY" "c \<noteq> sched_coro S" using r(4,8) that by (auto simp: expected_def)
    then show ?thesis using that by (simp add: expected_def coro_ok_def)
  qed
  then have "sched_rel ?w ws (Outside True)"
    using r by (intro sched_relI [where S = S and sco = "sco\<lparr>ctx := Some Run_end\<rparr>" and items = items]) simp_all
  ultimately show ?thesis by blast
qed

lemma sched_dispatch_refines:
  assumes "sched_rel w (c # ws) Loop" "\<not> stopped w"
  shows "\<exists>w'. sched_step w = Some (Inr w') \<and> sched_rel w' ws (Running c) \<and> stopped w' = stopped w"
proof -
  obtain S sco items where
    r: "scheds w (g_mastersched w) = Some S" "coros w (sched_coro S) = Some sco"
      "sched_coro S \<noteq> NULL" "sched_coro S \<notin> live (c # ws) Loop"
      "is_tailq (tq w) (wait_q (g_mastersched w)) (c # ws)" "rb_holds (coroutine_rbt w) items"
      "set items = live_item ` live (c # ws) Loop"
      "\<forall>d\<in>live (c # ws) Loop. coro_ok w d (expected (c # ws) Loop d)"
      "place w S (ctx sco) (c # ws) Loop"
    using assms(1) by (rule sched_relE)
  from r(8) obtain co p where
    c: "coros w c = Some co" "cid co = c" "sched co = g_mastersched w" "\<not> need_parallel co"
      "ctx co = Some p" "user_point p" "c \<noteq> NULL"
    by (auto simp: coro_ok_def expected_def)
  have ne: "c \<noteq> sched_coro S" using r(4) by auto
  have st: "stop S = 0" using assms(2) r(1) by (simp add: stopped_def)
  from pop_first [OF r(5)] obtain m where
    m: "pop (wait_q (g_mastersched w)) (tq w) = Some (c, m)"
      "is_tailq m (wait_q (g_mastersched w)) ws"
      "tq_only (insert c (set ws)) {wait_q (g_mastersched w)} (tq w) m" by blast
  have cws: "c \<notin> set ws" using r(5) by (simp add: is_tailq_def)
  let ?w = "w\<lparr>tq := m,
      coros := (coros w)(c \<mapsto> co\<lparr>status := M_RUN\<rparr>, sched_coro S \<mapsto> sco\<lparr>ctx := Some (Sched_back c)\<rparr>),
      scheds := (scheds w)(g_mastersched w \<mapsto> S\<lparr>current_coro := c\<rparr>),
      control := (control w)(Master := p)\<rparr>"
  have "sched_run_iter w = Inr ?w"
    using r(1,2,3) c st m(1) ne by (simp add: sched_run_iter_def sched_pop_def op_defs)
  then have "sched_step w = Some (Inr ?w)" using r(9) by (auto simp: sched_step_def)
  moreover have "coro_ok ?w d (expected ws (Running c) d)" if "d \<in> set (c # ws)" for d
  proof (cases "d = c")
    case True
    with c r(8) cws m(3) ne show ?thesis
      by (auto simp: coro_ok_def expected_def is_entry_frame)
  next
    case False
    with that r(4,8) have "coro_ok w d M_READY" "d \<noteq> sched_coro S" "d \<in> set ws" by (auto simp: expected_def)
    with False m(3) show ?thesis by (simp add: expected_def is_entry_frame coro_ok_def)
  qed
  then have "sched_rel ?w ws (Running c)"
    using r c m cws ne
    by (intro sched_relI [where S = "S\<lparr>current_coro := c\<rparr>" and sco = "sco\<lparr>ctx := Some (Sched_back c)\<rparr>"
          and items = items]) simp_all
  moreover have "stopped ?w = stopped w" using r(1) by (simp add: stopped_def)
  ultimately show ?thesis by blast
qed

section \<open>The operations of a running coroutine\<close>

lemma running_facts:
  assumes "sched_rel w ws (Running c)"
  obtains S sco items co p where
    "scheds w (g_mastersched w) = Some S" "coros w (sched_coro S) = Some sco"
    "sched_coro S \<noteq> NULL" "sched_coro S \<notin> set ws" "sched_coro S \<noteq> c" "c \<noteq> sched_coro S"
    "is_tailq (tq w) (wait_q (g_mastersched w)) ws"
    "rb_holds (coroutine_rbt w) items" "set items = live_item ` insert c (set ws)"
    "\<forall>d\<in>set ws. coro_ok w d M_READY" "coros w c = Some co" "cid co = c" "sched co = g_mastersched w"
    "\<not> need_parallel co" "status co = M_RUN" "ctx co = Some p" "user_point p" "c \<noteq> NULL" "is_entry (tq w) c"
    "user_point (control w Master)" "current_coro S = c" "c \<notin> set ws" "ctx sco = Some (Sched_back c)"
    "main_coro S = Some In_main"
proof -
  obtain S sco items where
    r: "scheds w (g_mastersched w) = Some S" "coros w (sched_coro S) = Some sco"
      "sched_coro S \<noteq> NULL" "sched_coro S \<notin> live ws (Running c)"
      "is_tailq (tq w) (wait_q (g_mastersched w)) ws" "rb_holds (coroutine_rbt w) items"
      "set items = live_item ` live ws (Running c)"
      "\<forall>d\<in>live ws (Running c). coro_ok w d (expected ws (Running c) d)"
      "place w S (ctx sco) ws (Running c)"
    using assms by (rule sched_relE)
  have c: "coro_ok w c M_RUN" using r(8,9) by (simp add: expected_def)
  have "\<forall>d\<in>set ws. coro_ok w d M_READY" using r(8) by (simp add: expected_def)
  moreover from c obtain co p where
    "coros w c = Some co" "cid co = c" "sched co = g_mastersched w" "\<not> need_parallel co"
    "status co = M_RUN" "ctx co = Some p" "user_point p" "c \<noteq> NULL" "is_entry (tq w) c"
    by (auto simp: coro_ok_def)
  moreover have "c \<noteq> sched_coro S" using r(4) by auto
  ultimately show ?thesis
    using r by (intro that [of S sco items co p]) simp_all
qed

lemma coro_yield_refines:
  assumes "sched_rel w ws (Running c)"
  shows "\<exists>w'. coro_yield Master c w = Inr w' \<and> sched_rel w' (ws @ [c]) (Back c False) \<and> stopped w' = stopped w"
proof -
  obtain S sco items co p where
    r: "scheds w (g_mastersched w) = Some S" "coros w (sched_coro S) = Some sco"
      "sched_coro S \<noteq> NULL" "sched_coro S \<notin> set ws" "sched_coro S \<noteq> c" "c \<noteq> sched_coro S"
      "is_tailq (tq w) (wait_q (g_mastersched w)) ws"
      "rb_holds (coroutine_rbt w) items" "set items = live_item ` insert c (set ws)"
      "\<forall>d\<in>set ws. coro_ok w d M_READY" "coros w c = Some co" "cid co = c" "sched co = g_mastersched w"
      "\<not> need_parallel co" "status co = M_RUN" "ctx co = Some p" "user_point p" "c \<noteq> NULL" "is_entry (tq w) c"
      "user_point (control w Master)" "current_coro S = c" "c \<notin> set ws" "ctx sco = Some (Sched_back c)"
      "main_coro S = Some In_main"
    using assms by (rule running_facts)
  from wq.put_tail [OF r(7,19,22)] obtain m where
    m: "insert_tail (wait_q (g_mastersched w)) c (tq w) = Some m"
      "is_tailq m (wait_q (g_mastersched w)) (ws @ [c])"
      "tq_only (insert c (set ws)) {wait_q (g_mastersched w)} (tq w) m" by blast
  let ?w = "w\<lparr>coros := (coros w)(c \<mapsto> co\<lparr>status := M_READY, ctx := Some Resumed\<rparr>), tq := m,
      control := (control w)(Master := Sched_back c)\<rparr>"
  have "coro_yield Master c w = Inr ?w"
    using r m(1) by (simp add: coro_yield_def is_current_def coro_ready_def op_defs)
  moreover have "coro_ok ?w d M_READY" if "d \<in> set (ws @ [c])" for d
  proof (cases "d = c")
    case True
    with r m(3) show ?thesis by (simp add: coro_ok_def is_entry_frame)
  next
    case False
    with that r(10) m(3) show ?thesis by (simp add: coro_ok_def is_entry_frame)
  qed
  then have "sched_rel ?w (ws @ [c]) (Back c False)"
    using r m by (intro sched_relI [where S = S and sco = sco and items = items]) (simp_all add: expected_def)
  moreover have "stopped ?w = stopped w" by (simp add: stopped_def)
  ultimately show ?thesis by blast
qed

lemma coro_exit_refines:
  assumes "sched_rel w ws (Running c)"
  shows "\<exists>w'. coro_exit Master c w = Inr w' \<and> sched_rel w' ws (Back c True) \<and> stopped w' = stopped w
            \<and> (\<exists>co. w' = w\<lparr>coros := (coros w)(c \<mapsto> co), control := (control w)(Master := Sched_back c)\<rparr>)"
proof -
  obtain S sco items co p where
    r: "scheds w (g_mastersched w) = Some S" "coros w (sched_coro S) = Some sco"
      "sched_coro S \<noteq> NULL" "sched_coro S \<notin> set ws" "sched_coro S \<noteq> c" "c \<noteq> sched_coro S"
      "is_tailq (tq w) (wait_q (g_mastersched w)) ws"
      "rb_holds (coroutine_rbt w) items" "set items = live_item ` insert c (set ws)"
      "\<forall>d\<in>set ws. coro_ok w d M_READY" "coros w c = Some co" "cid co = c" "sched co = g_mastersched w"
      "\<not> need_parallel co" "status co = M_RUN" "ctx co = Some p" "user_point p" "c \<noteq> NULL" "is_entry (tq w) c"
      "user_point (control w Master)" "current_coro S = c" "c \<notin> set ws" "ctx sco = Some (Sched_back c)"
      "main_coro S = Some In_main"
    using assms by (rule running_facts)
  let ?w = "w\<lparr>coros := (coros w)(c \<mapsto> co\<lparr>status := M_EXIT, ctx := Some Resumed\<rparr>),
      control := (control w)(Master := Sched_back c)\<rparr>"
  have "coro_exit Master c w = Inr ?w"
    using r by (simp add: coro_exit_def is_current_def op_defs)
  moreover have "coro_ok ?w d (expected ws (Back c True) d)" if "d \<in> insert c (set ws)" for d
  proof (cases "d = c")
    case True
    with r show ?thesis by (simp add: coro_ok_def expected_def)
  next
    case False
    with that r(10) show ?thesis by (simp add: coro_ok_def expected_def)
  qed
  then have "sched_rel ?w ws (Back c True)"
    using r by (intro sched_relI [where S = S and sco = sco and items = items]) simp_all
  moreover have "stopped ?w = stopped w" by (simp add: stopped_def)
  ultimately show ?thesis by (intro exI [of _ ?w]) auto
qed

section \<open>Back in the scheduler\<close>

lemma resume_yielded_refines:
  assumes "sched_rel w ws (Back c False)"
  shows "\<exists>w'. sched_step w = Some (Inr w') \<and> sched_rel w' ws Loop \<and> stopped w' = stopped w"
proof -
  obtain S sco items where
    r: "scheds w (g_mastersched w) = Some S" "coros w (sched_coro S) = Some sco"
      "sched_coro S \<noteq> NULL" "sched_coro S \<notin> live ws (Back c False)"
      "is_tailq (tq w) (wait_q (g_mastersched w)) ws" "rb_holds (coroutine_rbt w) items"
      "set items = live_item ` live ws (Back c False)"
      "\<forall>d\<in>live ws (Back c False). coro_ok w d (expected ws (Back c False) d)"
      "place w S (ctx sco) ws (Back c False)"
    using assms by (rule sched_relE)
  have all: "\<forall>d\<in>set ws. coro_ok w d M_READY" using r(8) by (simp add: expected_def)
  then have "coro_ok w c M_READY" using r(9) by simp
  then obtain co where co: "coros w c = Some co" "status co = M_READY" by (auto simp: coro_ok_def)
  let ?w = "w\<lparr>scheds := (scheds w)(g_mastersched w \<mapsto> S\<lparr>current_coro := NULL\<rparr>),
      control := (control w)(Master := Sched_loop)\<rparr>"
  have "sched_step w = Some (Inr ?w)"
    using r(1,9) co by (simp add: sched_step_def sched_run_back_def op_defs goto_def)
  moreover have "\<And>d. d \<in> set ws \<Longrightarrow> coro_ok ?w d (expected ws Loop d)"
    using all by (simp add: expected_def coro_ok_def)
  then have "sched_rel ?w ws Loop"
    using r by (intro sched_relI [where S = "S\<lparr>current_coro := NULL\<rparr>" and sco = sco and items = items]) simp_all
  moreover have "stopped ?w = stopped w" using r(1) by (simp add: stopped_def)
  ultimately show ?thesis by blast
qed

lemma release_registered:
  assumes "rb_holds t items" "set items = live_item ` insert c A" "c \<notin> A"
  shows "\<exists>t' items'. rbtree_delete (node_of c) t = Some t' \<and> set items' = live_item ` A
            \<and> rb_holds (t'\<lparr>nodes := (nodes t')(node_of c := None)\<rparr>) items'"
proof -
  have "node_of c \<in> i_addr ` set items" unfolding assms(2) by simp
  from rb_delete_holds [OF assms(1) this] obtain t' where
    t': "rbtree_delete (node_of c) t = Some t'" "sentinel t' = sentinel t"
      "rb_holds t' (filter (\<lambda>x. i_addr x \<noteq> node_of c) items)" by blast
  have s: "set (filter (\<lambda>x. i_addr x \<noteq> node_of c) items) = live_item ` A"
    using assms(2,3) by auto
  moreover have "node_of c \<notin> i_addr ` set (filter (\<lambda>x. i_addr x \<noteq> node_of c) items)" by auto
  moreover have "node_of c \<noteq> sentinel t'"
    using rb_holds_distinct(2) [OF assms(1), of "live_item c"] assms(2) t'(2) by simp
  ultimately show ?thesis using rb_holds_outside [OF t'(3)] t'(1) by blast
qed

lemma resume_exited_refines:
  assumes "sched_rel w ws (Back c True)"
  shows "\<exists>w'. sched_step w = Some (Inr w') \<and> sched_rel w' ws Loop \<and> stopped w' = stopped w
            \<and> coros w' c = None
            \<and> (\<exists>S t. scheds w (g_mastersched w) = Some S \<and> w' = w
                 \<lparr>scheds := (scheds w)(g_mastersched w \<mapsto> S\<lparr>current_coro := NULL\<rparr>), coros := (coros w)(c := None),
                  tq := (tq w)\<lparr>tq_entries := (tq_entries (tq w))(c := None)\<rparr>, coroutine_rbt := t,
                  control := (control w)(Master := Sched_loop)\<rparr>)"
proof -
  obtain S sco items where
    r: "scheds w (g_mastersched w) = Some S" "coros w (sched_coro S) = Some sco"
      "sched_coro S \<noteq> NULL" "sched_coro S \<notin> live ws (Back c True)"
      "is_tailq (tq w) (wait_q (g_mastersched w)) ws" "rb_holds (coroutine_rbt w) items"
      "set items = live_item ` live ws (Back c True)"
      "\<forall>d\<in>live ws (Back c True). coro_ok w d (expected ws (Back c True) d)"
      "place w S (ctx sco) ws (Back c True)"
    using assms by (rule sched_relE)
  have cws: "c \<notin> set ws" "sched_coro S \<noteq> c" "c \<noteq> sched_coro S" using r(4,9) by auto
  have "coro_ok w c M_EXIT" using r(8) cws by (simp add: expected_def)
  then obtain co where co: "coros w c = Some co" "status co = M_EXIT" "c \<noteq> NULL" by (auto simp: coro_ok_def)
  from release_registered [OF r(6) _ cws(1)] r(7) obtain t' items' where
    t': "rbtree_delete (node_of c) (coroutine_rbt w) = Some t'" "set items' = live_item ` set ws"
      "rb_holds (t'\<lparr>nodes := (nodes t')(node_of c := None)\<rparr>) items'" by auto
  let ?w = "w\<lparr>scheds := (scheds w)(g_mastersched w \<mapsto> S\<lparr>current_coro := NULL\<rparr>),
      coros := (coros w)(c := None),
      tq := (tq w)\<lparr>tq_entries := (tq_entries (tq w))(c := None)\<rparr>,
      coroutine_rbt := t'\<lparr>nodes := (nodes t')(node_of c := None)\<rparr>,
      control := (control w)(Master := Sched_loop)\<rparr>"
  have "sched_step w = Some (Inr ?w)"
    using r(1,9) co t'(1)
    by (simp add: sched_step_def sched_run_back_def op_defs goto_def coro_dealloc_def cs_free_ok release_coro_def)
  moreover have "coro_ok ?w d (expected ws Loop d)" if "d \<in> set ws" for d
  proof -
    have "coro_ok w d M_READY" "d \<noteq> c" using r(8) that cws(1) by (auto simp: expected_def)
    then show ?thesis using that by (simp add: expected_def coro_ok_def is_entry_def)
  qed
  then have "sched_rel ?w ws Loop"
    using r cws t' is_tailq_alloc [OF cws(1)]
    by (intro sched_relI [where S = "S\<lparr>current_coro := NULL\<rparr>" and sco = sco and items = items']) simp_all
  moreover have "stopped ?w = stopped w" using r(1) by (simp add: stopped_def)
  ultimately show ?thesis using r(1) by (intro exI [of _ ?w]) auto
qed

section \<open>Creating a coroutine\<close>

text \<open>What \<open>malloc\<close> promises: null, or memory that is in use nowhere and does not wrap around.\<close>

definition alloc_ok :: "addr \<Rightarrow> world \<Rightarrow> bool" where
  "alloc_ok a w \<longleftrightarrow>
     (a \<noteq> NULL \<longrightarrow> coros w a = None \<and> node_of a \<noteq> NULL \<and> node_of a \<noteq> sentinel (coroutine_rbt w))"

lemma register_fresh:
  assumes "rb_holds t items" "set items = live_item ` A" "a \<notin> A" "node_of a \<noteq> NULL" "node_of a \<noteq> sentinel t"
  shows "\<exists>t1 t2 items'. wr (node_of a) (\<lambda>n. n\<lparr>key := a, data := a\<rparr>) (t\<lparr>nodes := (nodes t)(node_of a \<mapsto> n0)\<rparr>) = Some t1
            \<and> rbtree_insert (node_of a) t1 = Some t2 \<and> rb_holds t2 items' \<and> set items' = live_item ` insert a A
            \<and> sentinel t2 = sentinel t"
proof -
  let ?t1 = "t\<lparr>nodes := (nodes t)(node_of a \<mapsto> n0\<lparr>key := a, data := a\<rparr>)\<rparr>"
  have wr: "wr (node_of a) (\<lambda>n. n\<lparr>key := a, data := a\<rparr>) (t\<lparr>nodes := (nodes t)(node_of a \<mapsto> n0)\<rparr>) = Some ?t1"
    by (simp add: wr_def)
  have out: "node_of a \<notin> i_addr ` set items" using assms(2,3) by auto
  have "rb_holds ?t1 items" using rb_holds_outside [OF assms(1) out assms(5)] by simp
  moreover have "rb_fresh ?t1 (live_item a) items"
    using assms(4,5) out by (simp add: rb_fresh_def item_at_def live_item_def)
  ultimately obtain t2 where
    "rbtree_insert (i_addr (live_item a)) ?t1 = Some t2" "rb_holds t2 (ins_item (live_item a) items)"
    "sentinel t2 = sentinel ?t1"
    using rb_insert_holds by blast
  with wr assms(2) show ?thesis
    by (intro exI [of _ ?t1] exI [of _ t2] exI [of _ "ins_item (live_item a) items"]) simp
qed

text \<open>
  What a coroutine looks like once it is ready to run for the first time, and what the step to \<open>w'\<close> changed: the
  coroutine \<open>a\<close> is new, the master's queue and the tree changed, and nothing else at all.
\<close>

definition spawned :: "addr \<Rightarrow> addr \<Rightarrow> entry \<Rightarrow> addr \<Rightarrow> coroutine" where
  "spawned s a fn arg = \<lparr>cid = a, ctx = Some (Enter fn arg), status = M_READY, sched = s, need_parallel = False\<rparr>"

definition only_spawned :: "addr \<Rightarrow> coroutine \<Rightarrow> addr set \<Rightarrow> world \<Rightarrow> world \<Rightarrow> bool" where
  "only_spawned a co A w w' \<longleftrightarrow>
     w' = w\<lparr>coros := (coros w)(a \<mapsto> co), tq := tq w', coroutine_rbt := coroutine_rbt w'\<rparr>
     \<and> (\<forall>x. x \<notin> insert a A \<longrightarrow> tq_entries (tq w') x = tq_entries (tq w) x)
     \<and> (\<forall>h. h \<noteq> wait_q (g_mastersched w) \<longrightarrow> tq_heads (tq w') h = tq_heads (tq w) h)
     \<and> sentinel (coroutine_rbt w') = sentinel (coroutine_rbt w)"

definition spawn_frame :: "addr \<Rightarrow> world \<Rightarrow> world \<Rightarrow> bool" where
  "spawn_frame a w w' \<longleftrightarrow>
     (\<forall>x. x \<noteq> a \<longrightarrow> coros w' x = coros w x) \<and> sentinel (coroutine_rbt w') = sentinel (coroutine_rbt w)
     \<and> scheds w' = scheds w \<and> eventmgrs w' = eventmgrs w \<and> control w' = control w
     \<and> g_mastersched w' = g_mastersched w \<and> g_parallelsched w' = g_parallelsched w
     \<and> g_eventmgr w' = g_eventmgr w \<and> g_mutex w' = g_mutex w
     \<and> (\<forall>h. h \<noteq> wait_q (g_mastersched w) \<longrightarrow> tq_heads (tq w') h = tq_heads (tq w) h)"

lemma coro_spawn_refines:
  assumes rel: "sched_rel w ws ph" and ph: "(\<exists>b. ph = Outside b) \<or> (\<exists>c. ph = Running c)"
    and n: "sizeof_coroutine + n \<noteq> 0" "malloc (sizeof_coroutine + n) \<noteq> NULL \<longrightarrow> stack_fits n"
    and al: "alloc_ok (malloc (sizeof_coroutine + n)) w"
  shows "\<exists>w'. coro_spawn malloc (g_mastersched w) (User_fn f) arg n w
              = Inr (if malloc (sizeof_coroutine + n) = NULL then M_ERR else M_OK, w')
            \<and> sched_rel w' (if malloc (sizeof_coroutine + n) = NULL then ws
                             else ws @ [malloc (sizeof_coroutine + n)]) ph
            \<and> stopped w' = stopped w \<and> spawn_frame (malloc (sizeof_coroutine + n)) w w'
            \<and> (if malloc (sizeof_coroutine + n) = NULL then w' = w
               else only_spawned (malloc (sizeof_coroutine + n))
                 (spawned (g_mastersched w) (malloc (sizeof_coroutine + n)) (User_fn f) arg) (set ws) w w')"
proof (cases "malloc (sizeof_coroutine + n) = NULL")
  case True
  then show ?thesis using rel n by (simp add: coro_spawn_def coro_alloc_def cs_alloc_def spawn_frame_def)
next
  case False
  define a where "a = malloc (sizeof_coroutine + n)"
  obtain S sco items where
    r: "scheds w (g_mastersched w) = Some S" "coros w (sched_coro S) = Some sco"
      "sched_coro S \<noteq> NULL" "sched_coro S \<notin> live ws ph"
      "is_tailq (tq w) (wait_q (g_mastersched w)) ws" "rb_holds (coroutine_rbt w) items"
      "set items = live_item ` live ws ph" "\<forall>d\<in>live ws ph. coro_ok w d (expected ws ph d)"
      "place w S (ctx sco) ws ph"
    using rel by (rule sched_relE)
  have a: "a \<noteq> NULL" "coros w a = None" "node_of a \<noteq> NULL" "node_of a \<noteq> sentinel (coroutine_rbt w)"
    using al False by (simp_all add: alloc_ok_def a_def)
  have al: "a \<notin> live ws ph" using a(2) r(8) by (auto simp: coro_ok_def)
  have "set ws \<subseteq> live ws ph" using ph by auto
  with al have aws: "a \<notin> set ws" by auto
  have as: "a \<noteq> sched_coro S" "sched_coro S \<noteq> a" using a(2) r(2) by auto
  let ?m0 = "(tq w)\<lparr>tq_entries := (tq_entries (tq w))(a \<mapsto> \<lparr>tqe_next = NULL, tqe_prev = Link_Null\<rparr>)\<rparr>"
  have "is_tailq ?m0 (wait_q (g_mastersched w)) ws" using r(5) is_tailq_alloc [OF aws] by simp
  moreover have "is_entry ?m0 a" using a(1) by (simp add: is_entry_def)
  ultimately obtain m where
    m: "insert_tail (wait_q (g_mastersched w)) a ?m0 = Some m"
      "is_tailq m (wait_q (g_mastersched w)) (ws @ [a])"
      "tq_only (insert a (set ws)) {wait_q (g_mastersched w)} ?m0 m"
    using wq.put_tail [of ?m0 _ ws a] aws by blast
  from register_fresh [OF r(6,7) al a(3,4), of
      "\<lparr>left = NULL, right = NULL, parent = NULL, key = 0, data = NULL, color = 0\<rparr>"]
  obtain t1 t2 items' where
    t: "wr (node_of a) (\<lambda>n. n\<lparr>key := a, data := a\<rparr>) ((coroutine_rbt w)\<lparr>nodes := (nodes (coroutine_rbt w))(node_of a \<mapsto>
           \<lparr>left = NULL, right = NULL, parent = NULL, key = 0, data = NULL, color = 0\<rparr>)\<rparr>) = Some t1"
      "rbtree_insert (node_of a) t1 = Some t2" "rb_holds t2 items'" "set items' = live_item ` insert a (live ws ph)"
      "sentinel t2 = sentinel (coroutine_rbt w)"
    by blast
  let ?w = "w\<lparr>coros := (coros w)(a \<mapsto> \<lparr>cid = a, ctx = Some (Enter (User_fn f) arg), status = M_READY,
                                    sched = g_mastersched w, need_parallel = False\<rparr>),
              tq := m, coroutine_rbt := t2\<rparr>"
  have "coro_spawn malloc (g_mastersched w) (User_fn f) arg n w = Inr (M_OK, ?w)"
    using n a(1) r(1) m(1) t(1,2) False
    by (simp add: coro_spawn_def coro_alloc_def cs_alloc_def a_def [symmetric] op_defs sched_register_coro_def
        coro_ready_def)
  moreover have lv: "live (ws @ [a]) ph = insert a (live ws ph)" using ph by auto
  moreover have "coro_ok ?w d (expected (ws @ [a]) ph d)" if "d \<in> insert a (live ws ph)" for d
  proof (cases "d = a")
    case True
    with a(1) m(3) show ?thesis
      by (simp add: coro_ok_def expected_def is_entry_frame [OF m(3)]) (simp add: is_entry_def)
  next
    case False
    with that r(8) have "coro_ok w d (expected ws ph d)" by blast
    with False show ?thesis
      by (simp add: coro_ok_def expected_def is_entry_frame [OF m(3)]) (simp add: is_entry_def)
  qed
  moreover have "place ?w S (ctx sco) (ws @ [a]) ph" using ph r(9) al by auto
  ultimately have "sched_rel ?w (ws @ [a]) ph"
    using r as m t by (intro sched_relI [where S = S and sco = sco and items = items']) simp_all
  moreover have "stopped ?w = stopped w" by (simp add: stopped_def)
  moreover have "spawn_frame a w ?w" using t(5) m(3) by (simp add: spawn_frame_def tq_only_def)
  moreover have "only_spawned a (spawned (g_mastersched w) a (User_fn f) arg) (set ws) w ?w"
    using t(5) m(3) by (auto simp: only_spawned_def spawned_def tq_only_def)
  ultimately show ?thesis
    using \<open>coro_spawn malloc (g_mastersched w) (User_fn f) arg n w = Inr (M_OK, ?w)\<close> a(1)
    by (intro exI [of _ ?w]) (simp add: a_def [symmetric])
qed

end
