(* ===== verification/Events.thy ===== *)
theory Events
  imports Scheduler
begin

text \<open>
  The functions of src/cs_eventmgr.c that a coroutine calls to wait for a descriptor, and what its loop does when
  an event comes.  \<open>interest\<close> in the state is the kernel's table of the epoll descriptors, of which \<open>epoll_ctl\<close>
  adds and removes entries (adding one that is there is an error and changes nothing).
\<close>

section \<open>Events\<close>

definition EPOLLIN :: uint32 where "EPOLLIN = 1"
definition EPOLLOUT :: uint32 where "EPOLLOUT = 4"
definition EPOLLET :: uint32 where "EPOLLET = 0x80000000"
definition ReadMask :: uint32 where "ReadMask = 1"
definition WriteMask :: uint32 where "WriteMask = 2"

definition epoll_add :: "int \<Rightarrow> int \<Rightarrow> uint32 \<Rightarrow> addr \<Rightarrow> world \<Rightarrow> world" where
  "epoll_add ep fd evs p w =
     (case interest w (ep, fd) of
        None \<Rightarrow> w\<lparr>interest := (interest w)((ep, fd) \<mapsto> (evs, p))\<rparr>
      | Some _ \<Rightarrow> w)"

definition epoll_del :: "int \<Rightarrow> int \<Rightarrow> world \<Rightarrow> world" where
  "epoll_del ep fd w = w\<lparr>interest := (interest w)((ep, fd) := None)\<rparr>"

definition epoll_mask :: "uint32 \<Rightarrow> uint32" where
  "epoll_mask msk =
     (if msk AND ReadMask \<noteq> 0 then EPOLLIN else 0)
     OR (if msk AND WriteMask \<noteq> 0 then EPOLLOUT else 0) OR EPOLLET"

definition get_event :: "addr \<Rightarrow> world \<Rightarrow> fault + event" where
  "get_event ev w = deref (events w ev)"

definition upd_event :: "addr \<Rightarrow> (event \<Rightarrow> event) \<Rightarrow> world \<Rightarrow> fault + world" where
  "upd_event ev f w = andThen (get_event ev w) (\<lambda>e. Inr (w\<lparr>events := (events w)(ev \<mapsto> f e)\<rparr>))"

definition register_event :: "addr \<Rightarrow> addr \<Rightarrow> world \<Rightarrow> fault + world" where
  "register_event mgr ev w =
     andThen (ASSERT (mgr \<noteq> NULL)) (\<lambda>_.
     andThen (ASSERT (ev \<noteq> NULL)) (\<lambda>_.
     andThen (get_event ev w) (\<lambda>e.
     andThen (ASSERT (ev_sockfd e > 0)) (\<lambda>_.
     andThen (ASSERT (ev_coro e \<noteq> NULL)) (\<lambda>_.
     andThen (upd_event ev (ev_events_update (\<lambda>_. epoll_mask (ev_mask e))) w) (\<lambda>w.
     andThen (deref (eventmgrs w mgr)) (\<lambda>m.
     coro_yield Master (ev_coro e)
       (epoll_add (epfd m) (ev_sockfd e) (epoll_mask (ev_mask e)) ev w))))))))"

definition remove_event :: "addr \<Rightarrow> addr \<Rightarrow> world \<Rightarrow> fault + world" where
  "remove_event mgr ev w =
     andThen (deref (eventmgrs w mgr)) (\<lambda>m.
     andThen (get_event ev w) (\<lambda>e.
     Inr (epoll_del (epfd m) (ev_sockfd e) w)))"

text \<open>What \<open>event_callback\<close> does before it calls \<open>sched_run_once\<close>.\<close>

definition event_mark :: "addr \<Rightarrow> uint32 \<Rightarrow> world \<Rightarrow> fault + world" where
  "event_mark ev evs w =
     andThen (get_event ev w) (\<lambda>e.
     andThen (upd_event ev (ev_events_update (\<lambda>x.
         x OR (if evs AND ReadMask \<noteq> 0 then ReadMask else 0)
           OR (if evs AND WriteMask \<noteq> 0 then WriteMask else 0))) w) (\<lambda>w.
     coro_ready (ev_coro e) w))"

definition event_callback :: "addr \<Rightarrow> uint32 \<Rightarrow> world \<Rightarrow> (fault + world) option" where
  "event_callback ev evs w =
     (case event_mark ev evs w of Inl e \<Rightarrow> Some (Inl e) | Inr w \<Rightarrow> sched_run_once w)"

end
