(* ===== verification/Sched_Safety.thy ===== *)
theory Sched_Safety
  imports Sched_Refine Events
begin

text \<open>
  The master thread as a step relation on program states: the scheduler's own steps, and these library
  calls from \<open>main\<close> or from a running coroutine, in any order: \<open>env_run\<close>, \<open>coro_yield\<close>, \<open>coro_exit\<close>, \<open>coro_spawn\<close>,
  \<open>env_stop\<close>, \<open>coro_switch_to_parallel\<close>, \<open>register_event\<close> for the caller itself and \<open>remove_event\<close>; the caller
  can also fill in event structures.  Every step is a step of the abstract machine or leaves it alone, so the
  invariant holds in every reachable state and the calls do not fault there.

  The other calls are not steps because they break the invariant: every coroutine of a program is queued or
  running, so \<open>coro_ready\<close> and \<open>coro_ready_immediatly\<close> queue one a second time (Sched_Misuse), \<open>coro_switch\<close> and
  \<open>sched_run_once\<close> go past the scheduler (Sched_Misuse), and \<open>coro_sent_parallel\<close> and \<open>coro_switch_to_master\<close> are
  for coroutines that asked to run in parallel (Sched_Parallel), which none does here.

  Then what a program sees: which coroutine runs when, that a coroutine that exits is freed, and that the
  scheduler returns when no coroutine is left.
\<close>

section \<open>Steps\<close>

definition running :: "world \<Rightarrow> addr \<Rightarrow> bool" where
  "running w c \<longleftrightarrow> user_point (control w Master) \<and> (\<exists>S. scheds w (g_mastersched w) = Some S \<and> current_coro S = c)"

text \<open>The scheduler's coroutine has not run yet.\<close>

definition not_started :: "world \<Rightarrow> bool" where
  "not_started w \<longleftrightarrow>
     (\<exists>S sco arg. scheds w (g_mastersched w) = Some S \<and> coros w (sched_coro S) = Some sco
        \<and> ctx sco = Some (Enter Sched_run arg))"

inductive step :: "world \<Rightarrow> world \<Rightarrow> bool" where
  s_start: "control w Master = In_main \<Longrightarrow> not_started w \<Longrightarrow> env_run 0 w = Some (Inr (None, w')) \<Longrightarrow> step w w'"
| s_sched: "sched_step w = Some (Inr w') \<Longrightarrow> step w w'"
| s_yield: "running w c \<Longrightarrow> coro_yield Master c w = Inr w' \<Longrightarrow> step w w'"
| s_exit: "running w c \<Longrightarrow> coro_exit Master c w = Inr w' \<Longrightarrow> step w w'"
| s_spawn: "running w c \<or> control w Master = In_main \<Longrightarrow> alloc_ok (malloc (sizeof_coroutine + n)) w \<Longrightarrow>
    coro_spawn malloc (g_mastersched w) (User_fn f) arg n w = Inr (rs, w') \<Longrightarrow> step w w'"
| s_stop: "running w c \<or> control w Master = In_main \<Longrightarrow> env_stop w = Inr w' \<Longrightarrow> step w w'"
| s_parallel: "running w c \<Longrightarrow> coro_switch_to_parallel Master c w = Inr (rs, w') \<Longrightarrow> step w w'"
| s_event: "running w c \<or> control w Master = In_main \<Longrightarrow> step w (w\<lparr>events := evs\<rparr>)"
| s_register: "running w c \<Longrightarrow> events w ev = Some e \<Longrightarrow> ev_coro e = c \<Longrightarrow> register_event mgr ev w = Inr w' \<Longrightarrow>
    step w w'"
| s_remove: "running w c \<or> control w Master = In_main \<Longrightarrow> remove_event mgr ev w = Inr w' \<Longrightarrow> step w w'"

section \<open>Calls that leave the schedule alone\<close>

abbreviation user_mem :: "(addr \<rightharpoonup> event) \<Rightarrow> (int \<times> int \<rightharpoonup> uint32 \<times> addr) \<Rightarrow> world \<Rightarrow> world" where
  "user_mem E I w \<equiv> w\<lparr>events := E, interest := I\<rparr>"

lemma place_user [simp]: "place (user_mem E I w) S x ws ph = place w S x ws ph"
  by (cases ph) simp_all

lemma sched_rel_user [simp]: "sched_rel (user_mem E I w) ws ph = sched_rel w ws ph"
  by (simp add: sched_rel_def coro_ok_def)

lemma user_event: "w\<lparr>events := evs\<rparr> = user_mem evs (interest w) w"
  by (rule world.equality) simp_all

lemma sched_rel_events [simp]: "sched_rel (w\<lparr>events := evs\<rparr>) ws ph = sched_rel w ws ph"
  using sched_rel_user [where E = evs and I = "interest w" and w = w and ws = ws and ph = ph] by (simp only: user_event [symmetric])

lemma sched_rel_interest [simp]: "sched_rel (w\<lparr>interest := I\<rparr>) ws ph = sched_rel w ws ph"
proof -
  have "w\<lparr>interest := I\<rparr> = user_mem (events w) I w" by (rule world.equality) simp_all
  then show ?thesis by (simp only: sched_rel_user)
qed

lemma remove_event_user:
  assumes "remove_event mgr ev w = Inr w'"
  obtains I where "w' = w\<lparr>interest := I\<rparr>"
  using assms by (auto simp: remove_event_def andThen_eq_Inr epoll_del_def)

lemma register_event_yields:
  assumes "register_event mgr ev w = Inr w'" "events w ev = Some e"
  obtains E I where "coro_yield Master (ev_coro e) (user_mem E I w) = Inr w'"
proof -
  have "epoll_add ep fd evs p (w\<lparr>events := E\<rparr>) = user_mem E
      (if interest w (ep, fd) = None then (interest w)((ep, fd) \<mapsto> (evs, p)) else interest w) w" for ep fd evs p E
    by (simp add: epoll_add_def split: option.split)
  with assms that show ?thesis
    by (auto simp: register_event_def upd_event_def get_event_def andThen_eq_Inr)
qed

lemma to_parallel_same:
  "sched_rel w ws (Running c) \<Longrightarrow> coro_switch_to_parallel Master c w = Inr (M_ERR, w)"
  by (rule running_facts) (auto simp: coro_switch_to_parallel_def get_coro_def)

lemma coro_spawn_size:
  assumes "coro_spawn malloc s fn arg n w = Inr (rs, w')"
  shows "sizeof_coroutine + n \<noteq> 0" "malloc (sizeof_coroutine + n) \<noteq> NULL \<longrightarrow> stack_fits n"
  using assms by (auto simp: coro_spawn_def coro_alloc_def cs_alloc_def andThen_eq_Inr split: if_splits)

section \<open>Simulation\<close>

lemma rel_running:
  assumes "sched_rel w ws ph" "running w c"
  shows "ph = Running c"
  using assms by (cases ph) (auto simp: running_def elim!: sched_relE)

lemma rel_in_main:
  assumes "sched_rel w ws ph" "control w Master = In_main"
  shows "\<exists>b. ph = Outside b"
  using assms by (cases ph) (auto elim!: sched_relE)

lemma rel_not_started:
  assumes "sched_rel w ws (Outside b)" "not_started w"
  shows "\<not> b"
  using assms by (auto simp: not_started_def elim!: sched_relE)

lemma rel_caller:
  "sched_rel w ws ph \<Longrightarrow> running w c \<or> control w Master = In_main \<Longrightarrow>
   (\<exists>b. ph = Outside b) \<or> (\<exists>c. ph = Running c)"
  using rel_running rel_in_main by blast

text \<open>The scheduler's next step, whatever phase it is in.\<close>

lemma sched_step_refines:
  assumes "sched_rel w ws ph" "sched_step w \<noteq> None"
  shows "\<exists>w' ws' ph'. sched_step w = Some (Inr w') \<and> sched_rel w' ws' ph' \<and> astep (ws, ph) (ws', ph')"
proof (cases ph)
  case (Outside b)
  with assms show ?thesis by (auto simp: sched_step_def elim!: sched_relE)
next
  case Loop
  show ?thesis
  proof (cases "ws = [] \<or> stopped w")
    case True
    with sched_end_refines assms Loop show ?thesis by (blast intro: a_end)
  next
    case False
    then obtain c cs where "ws = c # cs" by (cases ws) auto
    with sched_dispatch_refines [of w c cs] assms Loop False show ?thesis by (blast intro: a_dispatch)
  qed
next
  case (Running c)
  with assms have "user_point (control w Master)" by (auto elim!: sched_relE)
  with assms(2) show ?thesis
    by (cases "control w Master" rule: user_point.cases) (auto simp: sched_step_def)
next
  case (Back c b)
  with resume_yielded_refines [of w ws c] resume_exited_refines [of w ws c] assms show ?thesis
    by (cases b; simp; blast intro: a_resume)
qed

lemma env_stop_refines:
  assumes "sched_rel w ws ph" "env_stop w = Inr w'" "ph = Loop \<or> (\<exists>b. ph = Outside b) \<or> (\<exists>c. ph = Running c)"
  shows "sched_rel w' ws ph" and "stopped w'"
proof -
  obtain S sco items where
    r: "scheds w (g_mastersched w) = Some S" "coros w (sched_coro S) = Some sco"
      "sched_coro S \<noteq> NULL" "sched_coro S \<notin> live ws ph"
      "is_tailq (tq w) (wait_q (g_mastersched w)) ws" "rb_holds (coroutine_rbt w) items"
      "set items = live_item ` live ws ph" "\<forall>d\<in>live ws ph. coro_ok w d (expected ws ph d)"
      "place w S (ctx sco) ws ph"
    using assms(1) by (rule sched_relE)
  from assms(2) r(1) obtain E where
    w': "w' = w\<lparr>scheds := (scheds w)(g_mastersched w \<mapsto> S\<lparr>stop := 1\<rparr>), eventmgrs := E\<rparr>"
    by (auto simp: env_stop_def op_defs andThen_eq_Inr)
  show "sched_rel w' ws ph" unfolding w'
    using r assms(3)
    by (intro sched_relI [where S = "S\<lparr>stop := 1\<rparr>" and sco = sco and items = items]) (auto simp: coro_ok_def)
  show "stopped w'" by (simp add: w' stopped_def)
qed

lemma step_simulates:
  assumes rel: "sched_rel w ws ph" and "step w w'"
  shows "\<exists>ws' ph'. sched_rel w' ws' ph' \<and> ((ws', ph') = (ws, ph) \<or> astep (ws, ph) (ws', ph'))"
  using assms(2)
proof (cases rule: step.cases)
  case s_start
  from rel_in_main [OF rel s_start(1)] rel_not_started rel s_start(2) have ph: "ph = Outside False" by blast
  from s_start(3) have "\<not> g_mutex w" "g_mastersched w \<noteq> NULL" "g_parallelsched w \<noteq> NULL"
    by (auto simp: env_run_def split: if_splits)
  with env_run_refines [of w ws] rel ph s_start(3) show ?thesis by (auto intro: a_start)
next
  case s_sched
  with sched_step_refines [OF rel] show ?thesis by auto
next
  case (s_yield c)
  with coro_yield_refines [of w ws c] rel rel_running [OF rel s_yield(1)] show ?thesis by (auto intro: a_yield)
next
  case (s_exit c)
  with coro_exit_refines [of w ws c] rel rel_running [OF rel s_exit(1)] show ?thesis by (auto intro: a_exit)
next
  case (s_spawn c malloc n f arg rs)
  note ph = rel_caller [OF rel s_spawn(1)]
  let ?a = "malloc (sizeof_coroutine + n)"
  from coro_spawn_refines [where malloc = malloc and f = f and arg = arg and n = n,
      OF rel ph coro_spawn_size [OF s_spawn(3)] s_spawn(2)] s_spawn(3)
  have r: "sched_rel w' (if ?a = NULL then ws else ws @ [?a]) ph" by auto
  show ?thesis
  proof (cases "?a = NULL")
    case True
    with r show ?thesis by auto
  next
    case False
    with s_spawn(2) have "coros w ?a = None" by (simp add: alloc_ok_def)
    then have "?a \<notin> live ws ph" using rel by (auto simp: coro_ok_def elim!: sched_relE)
    from a_spawn [OF this ph] r False show ?thesis by auto
  qed
next
  case (s_stop c)
  with env_stop_refines(1) [OF rel s_stop(2)] rel_caller [OF rel s_stop(1)] show ?thesis by blast
next
  case (s_parallel c rs)
  then show ?thesis using to_parallel_same rel rel_running [OF rel s_parallel(1)] by auto
next
  case (s_event c evs)
  then have "sched_rel w' ws ph" using rel by simp
  then show ?thesis by blast
next
  case (s_register c ev e mgr)
  from register_event_yields [OF s_register(4,2)] s_register(3) obtain E I where
    y: "coro_yield Master c (user_mem E I w) = Inr w'" by blast
  have "sched_rel (user_mem E I w) ws (Running c)" using rel rel_running [OF rel s_register(1)] by simp
  with coro_yield_refines [OF this] y rel_running [OF rel s_register(1)] show ?thesis by (auto intro: a_yield)
next
  case (s_remove c mgr ev)
  then show ?thesis using rel remove_event_user by (metis sched_rel_interest)
qed

lemma reachable_rel:
  assumes "sched_rel w0 ws0 ph0" "step\<^sup>*\<^sup>* w0 w"
  shows "\<exists>ws ph. sched_rel w ws ph \<and> astep\<^sup>*\<^sup>* (ws0, ph0) (ws, ph)"
  using assms(2)
proof (induction rule: rtranclp_induct)
  case base
  with assms(1) show ?case by blast
next
  case (step w w')
  then obtain ws ph where "sched_rel w ws ph" "astep\<^sup>*\<^sup>* (ws0, ph0) (ws, ph)" by blast
  with step_simulates [of w ws ph w'] step(2) show ?case
    by (metis rtranclp.rtrancl_into_rtrancl)
qed

section \<open>What the invariant says\<close>

lemma ready_live: "set ws \<subseteq> live ws ph"
  by (cases "(ws, ph)" rule: live.cases) auto

lemma rel_queue:
  assumes "sched_rel w ws ph"
  shows "is_tailq (tq w) (wait_q (g_mastersched w)) ws" "distinct ws"
    and "\<And>c. c \<in> set ws \<Longrightarrow> \<exists>co. coros w c = Some co \<and> status co = M_READY"
proof -
  show "is_tailq (tq w) (wait_q (g_mastersched w)) ws" using assms by (auto elim!: sched_relE)
  then show "distinct ws" by (simp add: is_tailq_def)
  show "\<exists>co. coros w c = Some co \<and> status co = M_READY" if "c \<in> set ws" for c
  proof -
    have "coro_ok w c (expected ws ph c)" using assms that ready_live [of ws ph] by (blast elim!: sched_relE)
    with that show ?thesis by (auto simp: coro_ok_def expected_def)
  qed
qed

lemma rel_registry:
  assumes "sched_rel w ws ph"
  shows "c \<in> live ws ph \<Longrightarrow> sched_get_coro c w = Inr c"
    and "c \<notin> live ws ph \<Longrightarrow> sched_get_coro c w = Inr NULL"
proof -
  obtain items where
    r: "rb_holds (coroutine_rbt w) items" "set items = live_item ` live ws ph"
    using assms by (auto elim!: sched_relE)
  from r(1) obtain sp p0 T where
    T: "rb_repr (coroutine_rbt w) sp p0 T" "inorder T = items" by (auto simp: rb_holds_def)
  have keys: "i_key ` set items = live ws ph" unfolding r(2) by (auto simp: image_iff)
  show "sched_get_coro c w = Inr c" if c: "c \<in> live ws ph"
  proof -
    from rb_lookup_holds(1) [OF r(1)] keys c obtain x where
      x: "x \<in> set items" "i_key x = c" "rbtree_lookup (coroutine_rbt w) c = Some (i_addr x)" by blast
    with r(2) have "x = live_item c" by auto
    have "rd data (i_addr x) (coroutine_rbt w) = Some (i_data x)"
      using rb_item_data [OF T(1)] x(1) T(2) by blast
    with x \<open>x = live_item c\<close> rb_holds_distinct(2) [OF r(1) x(1)] show ?thesis
      by (simp add: sched_get_coro_def)
  qed
  show "sched_get_coro c w = Inr NULL" if c: "c \<notin> live ws ph"
    using rb_lookup_holds(2) [OF r(1), of c] keys c rd_sentinel(5) [OF T(1)]
    by (simp add: sched_get_coro_def)
qed

section \<open>Turns\<close>

text \<open>
  A round of coroutines that only yield, as in src/benchmark/two_coro_switch_test.c: the scheduler
  picks a coroutine and switches to it, the coroutine calls
  \<open>coro_yield(g_mastersched->current_coro)\<close>, the scheduler is back at its loop.  \<open>rounds n\<close> gives the
  coroutines that ran.
\<close>

definition run_step :: "world \<Rightarrow> fault + world" where
  "run_step w = (case sched_step w of None \<Rightarrow> Inr w | Some r \<Rightarrow> r)"

definition the_current :: "world \<Rightarrow> fault + addr" where
  "the_current w = andThen (get_sched (g_mastersched w) w) (\<lambda>s. Inr (current_coro s))"

definition sched_round :: "(addr \<Rightarrow> world \<Rightarrow> fault + world) \<Rightarrow> world \<Rightarrow> fault + (addr \<times> world)" where
  "sched_round call w =
     andThen (run_step w) (\<lambda>w.
     andThen (the_current w) (\<lambda>c.
     andThen (call c w) (\<lambda>w.
     andThen (run_step w) (\<lambda>w. Inr (c, w)))))"

fun rounds :: "(addr \<Rightarrow> world \<Rightarrow> fault + world) \<Rightarrow> nat \<Rightarrow> world \<Rightarrow> fault + (addr list \<times> world)" where
  "rounds call 0 w = Inr ([], w)"
| "rounds call (Suc n) w =
     andThen (sched_round call w) (\<lambda>(c, w).
     andThen (rounds call n w) (\<lambda>(cs, w). Inr (c # cs, w)))"

lemma rel_the_current: "sched_rel w ws (Running c) \<Longrightarrow> the_current w = Inr c"
  by (auto simp: the_current_def get_sched_def elim!: sched_relE)

lemma round_yield:
  assumes "sched_rel w (c # ws) Loop" "\<not> stopped w"
  shows "\<exists>w'. sched_round (coro_yield Master) w = Inr (c, w') \<and> sched_rel w' (ws @ [c]) Loop \<and> \<not> stopped w'"
proof -
  from sched_dispatch_refines [OF assms] obtain w1 where
    w1: "sched_step w = Some (Inr w1)" "sched_rel w1 ws (Running c)" "stopped w1 = stopped w" by blast
  from coro_yield_refines [OF w1(2)] obtain w2 where
    w2: "coro_yield Master c w1 = Inr w2" "sched_rel w2 (ws @ [c]) (Back c False)" "stopped w2 = stopped w1"
    by blast
  from resume_yielded_refines [OF w2(2)] obtain w3 where
    w3: "sched_step w2 = Some (Inr w3)" "sched_rel w3 (ws @ [c]) Loop" "stopped w3 = stopped w2" by blast
  show ?thesis
    using w1 w2 w3 rel_the_current [OF w1(2)] assms(2) by (simp add: sched_round_def run_step_def)
qed

lemma round_exit:
  assumes "sched_rel w (c # ws) Loop" "\<not> stopped w"
  shows "\<exists>w'. sched_round (coro_exit Master) w = Inr (c, w') \<and> sched_rel w' ws Loop \<and> \<not> stopped w'
            \<and> coros w' c = None"
proof -
  from sched_dispatch_refines [OF assms] obtain w1 where
    w1: "sched_step w = Some (Inr w1)" "sched_rel w1 ws (Running c)" "stopped w1 = stopped w" by blast
  from coro_exit_refines [OF w1(2)] obtain w2 where
    w2: "coro_exit Master c w1 = Inr w2" "sched_rel w2 ws (Back c True)" "stopped w2 = stopped w1" by blast
  from resume_exited_refines [OF w2(2)] obtain w3 where
    w3: "sched_step w2 = Some (Inr w3)" "sched_rel w3 ws Loop" "stopped w3 = stopped w2" "coros w3 c = None"
    by blast
  show ?thesis
    using w1 w2 w3 rel_the_current [OF w1(2)] assms(2) by (simp add: sched_round_def run_step_def)
qed

text \<open>Who runs in the turns of a queue that is rotated after each.\<close>

lemma turns_Cons:
  "map (\<lambda>i. (c # cs) ! (i mod length (c # cs))) [0..<Suc n]
   = c # map (\<lambda>i. (cs @ [c]) ! (i mod length (cs @ [c]))) [0..<n]"
proof -
  have "(cs @ [c]) ! (i mod length (cs @ [c])) = (c # cs) ! (Suc i mod length (c # cs))" for i
    using nth_rotate1 [of "i mod length (c # cs)" "c # cs"] by (simp add: mod_Suc_eq del: nth_append)
  then show ?thesis by (simp add: upt_conv_Cons map_Suc_upt [symmetric] del: upt_Suc)
qed

lemma rounds_yield:
  assumes "sched_rel w ws Loop" "ws \<noteq> []" "\<not> stopped w"
  shows "\<exists>w'. rounds (coro_yield Master) n w = Inr (map (\<lambda>i. ws ! (i mod length ws)) [0..<n], w')
            \<and> sched_rel w' (rotate n ws) Loop \<and> \<not> stopped w'"
  using assms
proof (induction n arbitrary: w ws)
  case 0
  then show ?case by simp
next
  case (Suc n)
  then obtain c cs where ws: "ws = c # cs" by (cases ws) auto
  with Suc.prems round_yield [of w c cs] obtain w1 where
    w1: "sched_round (coro_yield Master) w = Inr (c, w1)" "sched_rel w1 (cs @ [c]) Loop" "\<not> stopped w1" by blast
  from Suc.IH [OF w1(2) _ w1(3)] obtain w2 where
    w2: "rounds (coro_yield Master) n w1
           = Inr (map (\<lambda>i. (cs @ [c]) ! (i mod length (cs @ [c]))) [0..<n], w2)"
      "sched_rel w2 (rotate n (cs @ [c])) Loop" "\<not> stopped w2" by auto
  with w1(1) turns_Cons [of c cs n] show ?case
    by (simp add: ws rotate1_rotate_swap del: upt_Suc)
qed

lemma rounds_exit:
  assumes "sched_rel w ws Loop" "\<not> stopped w"
  shows "\<exists>w'. rounds (coro_exit Master) (length ws) w = Inr (ws, w') \<and> sched_rel w' [] Loop"
  using assms
proof (induction ws arbitrary: w)
  case Nil
  then show ?case by simp
next
  case (Cons c ws)
  from round_exit [OF Cons.prems] obtain w1 where
    w1: "sched_round (coro_exit Master) w = Inr (c, w1)" "sched_rel w1 ws Loop" "\<not> stopped w1" by blast
  from Cons.IH [OF w1(2,3)] w1(1) show ?case by auto
qed

end
