(* ===== verification/Eventmgr.thy ===== *)
theory Eventmgr
  imports Sched_Safety
begin

text \<open>
  \<open>eventmgr_init\<close> of src/cs_eventmgr.c and the functions of src/cs_scheduler.c that use the event manager
  (\<open>env_init\<close>, \<open>scheduleback_run\<close>).  What the C library and the kernel return is a parameter: the addresses
  \<open>malloc\<close> gives, the descriptors, the results of the successive \<open>recv\<close> calls.  Registering events is in Events,
  the loop of the manager in Event_Loop.
\<close>

section \<open>Initialisation\<close>

definition sizeof_eventmanager :: size_t where "sizeof_eventmanager = 40"
definition sizeof_epoll_event :: size_t where "sizeof_epoll_event = 12"
definition sizeof_scheduler :: size_t where "sizeof_scheduler = 56"
definition sizeof_adapter :: size_t where "sizeof_adapter = 16"
definition DEFAULT_STACK_SIZE :: size_t where "DEFAULT_STACK_SIZE = 8192"
definition M_EVENT_SIZE_HINT :: int where "M_EVENT_SIZE_HINT = 1024"

text \<open>
  What the outside gives while the program initialises itself: the blocks of memory (with the
  contents that are not overwritten), the socket pair and the epoll descriptor.
\<close>

record env_results =
  e_master :: addr
  e_parallel :: addr
  e_adapter :: addr
  e_raw_master :: scheduler
  e_raw_parallel :: scheduler
  e_raw_adapter :: adapter
  e_raw_head :: tqhead
  e_sched_coro :: addr
  e_parallel_coro :: addr
  e_back_coro :: addr
  e_fds :: "int \<times> int"
  e_mgr :: addr
  e_epfd :: int
  e_events :: addr
  e_mgr_coro :: addr
  e_raw_timeout :: int

text \<open>
  \<open>eventmgr_init\<close> gets \<open>g_eventmgr\<close> by value and stores the new manager in its parameter only.
  When \<open>coro_alloc\<close> fails it frees the manager, which sets the parameter to null, and then reads
  its field \<open>events\<close>.
\<close>

definition eventmgr_init :: "env_results \<Rightarrow> addr \<Rightarrow> int \<Rightarrow> world \<Rightarrow> fault + (rstatus_t \<times> world)" where
  "eventmgr_init r eventmgr nevents w =
     andThen (cs_alloc (\<lambda>_. e_mgr r) sizeof_eventmanager) (\<lambda>eventmgr.
     if eventmgr = NULL then Inr (M_ERR, w)
     else if e_epfd r = -1
     then andThen (cs_free eventmgr (\<lambda>_ w. w) w) (\<lambda>(_, w). Inr (M_ERR, w))
     else
       andThen (cs_calloc (\<lambda>_. e_events r) (word_of_int nevents) sizeof_epoll_event) (\<lambda>(evs, _).
       if evs = NULL then andThen (cs_free eventmgr (\<lambda>_ w. w) w) (\<lambda>(_, w). Inr (M_ERR, w))
       else
         andThen (coro_alloc (\<lambda>_. e_mgr_coro r) Event_loop eventmgr DEFAULT_STACK_SIZE w) (\<lambda>(co, w).
         if co = NULL
         then andThen (cs_free eventmgr (\<lambda>_ w. w) w) (\<lambda>(eventmgr, w).
              andThen (deref (eventmgrs w eventmgr)) (\<lambda>m.
              andThen (cs_free (em_events m) (\<lambda>_ w. w) w) (\<lambda>(_, w). Inr (M_ERR, w))))
         else Inr (M_OK, w\<lparr>eventmgrs := (eventmgrs w)(eventmgr \<mapsto>
                \<lparr>epfd = e_epfd r, em_events = evs, nevent = nevents, max_timeout = e_raw_timeout r,
                 evmgr_coro = co, em_stop = 0\<rparr>)\<rparr>))))"

text \<open>A scheduler structure is put at an address, its queue head not yet initialised.\<close>

definition place_sched :: "addr \<Rightarrow> scheduler \<Rightarrow> tqhead \<Rightarrow> world \<Rightarrow> world" where
  "place_sched s raw h w =
     w\<lparr>scheds := (scheds w)(s \<mapsto> raw),
       tq := (tq w)\<lparr>tq_heads := (tq_heads (tq w))(wait_q s \<mapsto> h)\<rparr>\<rparr>"

definition env_init_parallel :: "env_results \<Rightarrow> world \<Rightarrow> fault + world" where
  "env_init_parallel r w =
     andThen (upd_sched (g_parallelsched w) (stop_update (\<lambda>_. 0)) w) (\<lambda>w.
     andThen (coro_alloc (\<lambda>_. e_parallel_coro r) Parallel_run NULL DEFAULT_STACK_SIZE w) (\<lambda>(co, w).
     andThen (upd_sched (g_parallelsched w) (\<lambda>s. s\<lparr>sched_coro := co, current_coro := NULL\<rparr>) w) (\<lambda>w.
     on_tq (TAILQ_INIT (wait_q (g_parallelsched w))) w)))"

definition env_init_adapter :: "env_results \<Rightarrow> world \<Rightarrow> fault + world" where
  "env_init_adapter r w =
     andThen (coro_alloc (\<lambda>_. e_back_coro r) Scheduleback_run NULL DEFAULT_STACK_SIZE w) (\<lambda>(co, w).
     Inr (w\<lparr>adapters := (adapters w)(g_schedulebackadapter w \<mapsto>
            \<lparr>scbd_coro = co, readfd = fst (e_fds r), writefd = snd (e_fds r)\<rparr>)\<rparr>))"

text \<open>\<open>rbs\<close> is the address of the static sentinel \<open>coroutine_rbs\<close>.\<close>

definition env_init :: "env_results \<Rightarrow> addr \<Rightarrow> world \<Rightarrow> fault + (rstatus_t \<times> world)" where
  "env_init r rbs w =
     andThen (cs_alloc (\<lambda>_. e_master r) sizeof_scheduler) (\<lambda>ms.
     andThen (cs_alloc (\<lambda>_. e_parallel r) sizeof_scheduler) (\<lambda>ps.
     andThen (cs_alloc (\<lambda>_. e_adapter r) sizeof_adapter) (\<lambda>ad.
     if ms = NULL \<or> ps = NULL \<or> ad = NULL
     then Inr (M_ERR, w\<lparr>g_mastersched := ms, g_parallelsched := ps, g_schedulebackadapter := ad\<rparr>)
     else
       andThen (Inr (place_sched ms (e_raw_master r) (e_raw_head r)
                 (place_sched ps (e_raw_parallel r) (e_raw_head r)
                   (w\<lparr>g_mastersched := ms, g_parallelsched := ps, g_schedulebackadapter := ad,
                      adapters := (adapters w)(ad \<mapsto> e_raw_adapter r)\<rparr>)))) (\<lambda>w.
       andThen (upd_sched (g_mastersched w) (stop_update (\<lambda>_. 0)) w) (\<lambda>w.
       andThen (coro_alloc (\<lambda>_. e_sched_coro r) Sched_run NULL DEFAULT_STACK_SIZE w) (\<lambda>(co, w).
       andThen (upd_sched (g_mastersched w) (sched_coro_update (\<lambda>_. co)) w) (\<lambda>w.
       if co = NULL then Inr (M_ERR, w)
       else
         andThen (upd_sched (g_mastersched w) (current_coro_update (\<lambda>_. NULL)) w) (\<lambda>w.
         andThen (on_tq (TAILQ_INIT (wait_q (g_mastersched w))) w) (\<lambda>w.
         andThen (env_init_parallel r w) (\<lambda>w.
         andThen (env_init_adapter r w) (\<lambda>w.
         andThen (on_rbt (rbtree_init rbs) w) (\<lambda>w.
         eventmgr_init r (g_eventmgr w) M_EVENT_SIZE_HINT w))))))))))))"

section \<open>The way back from the parallel scheduler\<close>

text \<open>
  The loop around \<open>recv\<close>: each call gives its result, \<open>errno\<close>, and what the pointer variable holds
  afterwards when bytes were received.  \<open>None\<close>: the list ends in the middle of the loop.
\<close>

fun scheduleback_recv :: "(int \<times> int \<times> addr) list \<Rightarrow> addr option" where
  "scheduleback_recv [] = None"
| "scheduleback_recv ((n, errno, c) # rs) =
     (if n = 8 then Some c
      else if n = 0 then Some NULL
      else if n < 0 \<and> errno = EINTR then scheduleback_recv rs
      else if n < 0 then Some NULL
      else Some c)"

text \<open>The part of \<open>scheduleback_run\<close> from its start to the switch in \<open>register_event\<close>; \<open>ev\<close> is on its stack.\<close>

definition scheduleback_wait :: "addr \<Rightarrow> world \<Rightarrow> fault + world" where
  "scheduleback_wait ev w =
     andThen (deref (adapters w (g_schedulebackadapter w))) (\<lambda>a.
     register_event (g_eventmgr w) ev
       (w\<lparr>events := (events w)(ev \<mapsto> \<lparr>ev_mask = ReadMask, ev_sockfd = readfd a, ev_events = - 1,
                                       ev_coro = scbd_coro a\<rparr>)\<rparr>))"

definition scheduleback_ready :: "(int \<times> int \<times> addr) list \<Rightarrow> addr \<Rightarrow> world \<Rightarrow> (fault + world) option" where
  "scheduleback_ready rs ev w =
     (case remove_event (g_eventmgr w) ev w of
        Inl e \<Rightarrow> Some (Inl e)
      | Inr w \<Rightarrow> map_option (\<lambda>c.
          if c \<noteq> NULL then andThen (upd_coro c (need_parallel_update (\<lambda>_. False)) w) (coro_ready c)
          else Inr w) (scheduleback_recv rs))"

section \<open>Lemmas\<close>

lemma epoll_mask_bits:
  "epoll_mask msk AND EPOLLIN \<noteq> 0 \<longleftrightarrow> msk AND ReadMask \<noteq> 0"
  "epoll_mask msk AND EPOLLOUT \<noteq> 0 \<longleftrightarrow> msk AND WriteMask \<noteq> 0"
  "epoll_mask msk AND EPOLLET \<noteq> 0"
  by (simp_all add: epoll_mask_def EPOLLIN_def EPOLLOUT_def EPOLLET_def)

text \<open>Memory for the initialisation: nothing null, nothing in two places.\<close>

definition env_ok :: "env_results \<Rightarrow> addr \<Rightarrow> world \<Rightarrow> bool" where
  "env_ok r rbs w \<longleftrightarrow>
     e_master r \<noteq> NULL \<and> e_parallel r \<noteq> NULL \<and> e_adapter r \<noteq> NULL \<and> e_master r \<noteq> e_parallel r
     \<and> distinct [e_sched_coro r, e_parallel_coro r, e_back_coro r, e_mgr_coro r]
     \<and> NULL \<notin> {e_sched_coro r, e_parallel_coro r, e_back_coro r, e_mgr_coro r, e_mgr r, e_events r}
     \<and> rbs \<notin> node_of ` {e_sched_coro r, e_parallel_coro r, e_back_coro r, e_mgr_coro r}
     \<and> rbs \<noteq> NULL \<and> nodes (coroutine_rbt w) rbs \<noteq> None \<and> e_epfd r \<noteq> -1
     \<and> control w Master = In_main"

lemma coro_alloc_ok:
  assumes "a \<noteq> NULL"
  shows "coro_alloc (\<lambda>_. a) fn arg DEFAULT_STACK_SIZE w = Inr (a,
       w\<lparr>coros := (coros w)(a \<mapsto> \<lparr>cid = 0, ctx = Some (Enter fn arg), status = M_FREE,
                                    sched = NULL, need_parallel = False\<rparr>),
         tq := (tq w)\<lparr>tq_entries := (tq_entries (tq w))(a \<mapsto> \<lparr>tqe_next = NULL, tqe_prev = Link_Null\<rparr>)\<rparr>,
         coroutine_rbt := (coroutine_rbt w)\<lparr>nodes := (nodes (coroutine_rbt w))(node_of a \<mapsto>
           \<lparr>left = NULL, right = NULL, parent = NULL, key = 0, data = NULL, color = 0\<rparr>)\<rparr>\<rparr>)"
  using assms stack_fits_size [of 8192] by (simp add: coro_alloc_def cs_alloc_def DEFAULT_STACK_SIZE_def)

lemma eventmgr_init_ok:
  assumes "e_mgr r \<noteq> NULL" "e_events r \<noteq> NULL" "e_mgr_coro r \<noteq> NULL" "e_epfd r \<noteq> -1"
  shows "eventmgr_init r g M_EVENT_SIZE_HINT w = Inr (M_OK,
      w\<lparr>coros := (coros w)(e_mgr_coro r \<mapsto> \<lparr>cid = 0, ctx = Some (Enter Event_loop (e_mgr r)), status = M_FREE,
                                    sched = NULL, need_parallel = False\<rparr>),
         tq := (tq w)\<lparr>tq_entries := (tq_entries (tq w))(e_mgr_coro r \<mapsto> \<lparr>tqe_next = NULL, tqe_prev = Link_Null\<rparr>)\<rparr>,
         coroutine_rbt := (coroutine_rbt w)\<lparr>nodes := (nodes (coroutine_rbt w))(node_of (e_mgr_coro r) \<mapsto>
           \<lparr>left = NULL, right = NULL, parent = NULL, key = 0, data = NULL, color = 0\<rparr>)\<rparr>,
         eventmgrs := (eventmgrs w)(e_mgr r \<mapsto>
           \<lparr>epfd = e_epfd r, em_events = e_events r, nevent = M_EVENT_SIZE_HINT,
            max_timeout = e_raw_timeout r, evmgr_coro = e_mgr_coro r, em_stop = 0\<rparr>)\<rparr>)"
  using assms
  by (simp add: eventmgr_init_def cs_alloc_def cs_calloc_def cs_zalloc_def sizeof_eventmanager_def
      sizeof_epoll_event_def M_EVENT_SIZE_HINT_def coro_alloc_ok)

lemma wait_q_inj [simp]: "wait_q a = wait_q b \<longleftrightarrow> a = b"
  by (simp add: wait_q_def)

lemma is_tailq_empty:
  "is_tailq m h [] \<longleftrightarrow> tq_heads m h = Some \<lparr>tqh_first = NULL, tqh_last = Link_First h\<rparr>"
  by (simp add: is_tailq_def)

text \<open>What the initialisation leaves behind: four new coroutines, three of which are in no queue.\<close>

definition fresh_coro :: "entry \<Rightarrow> addr \<Rightarrow> coroutine" where
  "fresh_coro fn arg = \<lparr>cid = 0, ctx = Some (Enter fn arg), status = M_FREE, sched = NULL, need_parallel = False\<rparr>"

definition env_made :: "env_results \<Rightarrow> addr \<Rightarrow> world \<Rightarrow> world \<Rightarrow> bool" where
  "env_made r rbs w w' \<longleftrightarrow>
     coros w' = (coros w)(e_sched_coro r \<mapsto> fresh_coro Sched_run NULL, e_parallel_coro r \<mapsto> fresh_coro Parallel_run NULL,
       e_back_coro r \<mapsto> fresh_coro Scheduleback_run NULL, e_mgr_coro r \<mapsto> fresh_coro Event_loop (e_mgr r))
     \<and> sentinel (coroutine_rbt w') = rbs \<and> g_mutex w' = g_mutex w
     \<and> g_mastersched w' = e_master r \<and> g_parallelsched w' = e_parallel r
     \<and> map_option sched_coro (scheds w' (e_master r)) = Some (e_sched_coro r)
     \<and> \<not> stopped w'
     \<and> (\<exists>P. scheds w' (e_parallel r) = Some P \<and> stop P = 0 \<and> sched_coro P = e_parallel_coro r)
     \<and> is_tailq (tq w') (wait_q (e_parallel r)) []"

lemma env_init_refines:
  assumes "env_ok r rbs w"
  shows "\<exists>w'. env_init r rbs w = Inr (M_OK, w') \<and> sched_rel w' [] (Outside False)
            \<and> g_eventmgr w' = g_eventmgr w \<and> eventmgrs w' NULL = eventmgrs w NULL \<and> env_made r rbs w w'"
proof -
  note ok = assms [unfolded env_ok_def]
  let ?n0 = "\<lparr>left = NULL, right = NULL, parent = NULL, key = 0, data = NULL, color = 0\<rparr>"
  let ?t = "(coroutine_rbt w)\<lparr>nodes := (nodes (coroutine_rbt w))(node_of (e_sched_coro r) \<mapsto> ?n0,
      node_of (e_parallel_coro r) \<mapsto> ?n0, node_of (e_back_coro r) \<mapsto> ?n0)\<rparr>"
  have "nodes ?t rbs \<noteq> None" using ok by (auto simp: fun_upd_apply)
  with rb_init_holds [of ?t rbs] ok obtain t where
    t: "rbtree_init rbs ?t = Some t" "rb_holds t []" "sentinel t = rbs" by blast
  have holds: "rb_holds (t\<lparr>nodes := (nodes t)(node_of (e_mgr_coro r) \<mapsto> ?n0)\<rparr>) []"
    using t ok by (intro rb_holds_outside) auto
  let ?S = "(e_raw_master r)\<lparr>stop := 0, sched_coro := e_sched_coro r, current_coro := NULL\<rparr>"
  have ne: "e_sched_coro r \<noteq> e_parallel_coro r" "e_sched_coro r \<noteq> e_back_coro r" "e_sched_coro r \<noteq> e_mgr_coro r"
    "e_parallel r \<noteq> e_master r"
    using ok by auto
  have "\<exists>w'. env_init r rbs w = Inr (M_OK, w') \<and> g_mastersched w' = e_master r
          \<and> scheds w' (e_master r) = Some ?S
          \<and> coros w' (e_sched_coro r) = Some \<lparr>cid = 0, ctx = Some (Enter Sched_run NULL), status = M_FREE,
                                                sched = NULL, need_parallel = False\<rparr>
          \<and> is_tailq (tq w') (wait_q (e_master r)) []
          \<and> coroutine_rbt w' = t\<lparr>nodes := (nodes t)(node_of (e_mgr_coro r) \<mapsto> ?n0)\<rparr>
          \<and> control w' = control w \<and> g_eventmgr w' = g_eventmgr w \<and> eventmgrs w' NULL = eventmgrs w NULL
          \<and> env_made r rbs w w'"
    using ok t(1,3) ne
    by (simp add: env_init_def env_init_parallel_def env_init_adapter_def cs_alloc_def sizeof_scheduler_def
        sizeof_adapter_def place_sched_def op_defs coro_alloc_ok TAILQ_INIT_def set_head_def eventmgr_init_ok
        is_tailq_empty env_made_def fresh_coro_def stopped_def)
  then obtain w' where w': "env_init r rbs w = Inr (M_OK, w')" "g_mastersched w' = e_master r"
      "scheds w' (e_master r) = Some ?S"
      "coros w' (e_sched_coro r) = Some \<lparr>cid = 0, ctx = Some (Enter Sched_run NULL), status = M_FREE,
                                            sched = NULL, need_parallel = False\<rparr>"
      "is_tailq (tq w') (wait_q (e_master r)) []"
      "coroutine_rbt w' = t\<lparr>nodes := (nodes t)(node_of (e_mgr_coro r) \<mapsto> ?n0)\<rparr>"
      "control w' = control w" "g_eventmgr w' = g_eventmgr w" "eventmgrs w' NULL = eventmgrs w NULL"
      "env_made r rbs w w'" by blast
  have "sched_rel w' [] (Outside False)"
    using w' holds ok
    by (intro sched_relI [where S = ?S and items = "[]" and
          sco = "\<lparr>cid = 0, ctx = Some (Enter Sched_run NULL), status = M_FREE, sched = NULL, need_parallel = False\<rparr>"])
       simp_all
  with w'(1,8-10) show ?thesis by blast
qed

end
