(* ===== verification/Sched_Parallel.thy ===== *)
theory Sched_Parallel
  imports Eventmgr
begin

text \<open>
  The parallel scheduler of src/cs_scheduler.c and the hand-over of coroutines to it.
\<close>

section \<open>The lock of the parallel scheduler\<close>

fun parallel_steps :: "nat \<Rightarrow> world \<Rightarrow> (fault + world) option" where
  "parallel_steps 0 w = Some (Inr w)"
| "parallel_steps (Suc n) w =
     (case parallel_step [] w of
        Some (Inr w) \<Rightarrow> parallel_steps n w
      | r \<Rightarrow> r)"

text \<open>The parallel scheduler is at its loop and has nothing to run.\<close>

definition parallel_idle :: "world \<Rightarrow> bool" where
  "parallel_idle w \<longleftrightarrow>
     (\<exists>P. scheds w (g_parallelsched w) = Some P \<and> stop P = 0)
     \<and> is_tailq (tq w) (wait_q (g_parallelsched w)) []
     \<and> (control w Parallel = Par_loop \<or> (\<exists>arg. control w Parallel = Enter Parallel_run arg))"

lemma parallel_step_idle:
  assumes "parallel_idle w"
  shows "parallel_step [] w = Some (Inr (w\<lparr>g_mutex := True, control := (control w)(Parallel := Par_loop)\<rparr>))"
proof -
  from assms obtain P where P: "scheds w (g_parallelsched w) = Some P" "stop P = 0"
    "is_tailq (tq w) (wait_q (g_parallelsched w)) []"
    "control w Parallel = Par_loop \<or> (\<exists>arg. control w Parallel = Enter Parallel_run arg)"
    by (auto simp: parallel_idle_def)
  have "parallel_run_iter w = Inr (w\<lparr>g_mutex := True, control := (control w)(Parallel := Par_loop)\<rparr>)"
    using P wq.is_empty [OF P(3)]
    by (cases "g_mutex w") (simp_all add: parallel_run_iter_def get_sched_def goto_def)
  with P(4) show ?thesis by (auto simp: parallel_step_def)
qed

lemma parallel_steps_idle:
  assumes "parallel_idle w" "n > 0"
  shows "parallel_steps n w = Some (Inr (w\<lparr>g_mutex := True, control := (control w)(Parallel := Par_loop)\<rparr>))"
  using assms
proof (induction n arbitrary: w)
  case 0
  then show ?case by simp
next
  case (Suc n)
  let ?w = "w\<lparr>g_mutex := True, control := (control w)(Parallel := Par_loop)\<rparr>"
  have idle: "parallel_idle ?w" using Suc.prems(1) by (auto simp: parallel_idle_def)
  have first: "parallel_steps (Suc n) w = parallel_steps n ?w"
    by (simp only: parallel_steps.simps parallel_step_idle [OF Suc.prems(1)] option.case sum.case)
  show ?case
  proof (cases n)
    case 0
    show ?thesis unfolding first unfolding 0 parallel_steps.simps(1) ..
  next
    case Suc
    then have "parallel_steps n ?w = Some (Inr (?w\<lparr>g_mutex := True, control := (control ?w)(Parallel := Par_loop)\<rparr>))"
      using Suc.IH [OF idle] by blast
    moreover have "?w\<lparr>g_mutex := True, control := (control ?w)(Parallel := Par_loop)\<rparr> = ?w"
      by (simp add: fun_upd_def cong: if_cong)
    ultimately show ?thesis unfolding first by metis
  qed
qed

lemma env_run_blocked: "g_mutex w \<Longrightarrow> g_mastersched w \<noteq> NULL \<Longrightarrow> g_parallelsched w \<noteq> NULL \<Longrightarrow> env_run 0 w = None"
  by (simp add: env_run_def)

section \<open>Handing a coroutine over\<close>

lemma sent_parallel_locked:
  assumes "g_mutex w" "c \<noteq> NULL" "coros w c = Some co" "need_parallel co"
  shows "coro_sent_parallel c w = Inr (M_ERR, w\<lparr>coros := (coros w)(c \<mapsto> co\<lparr>sched := g_mastersched w\<rparr>)\<rparr>)"
  using assms by (simp add: coro_sent_parallel_def op_defs)

lemma switch_to_master_loop_fails:
  assumes "\<forall>(n, errno)\<in>set sends. n \<le> 8" "switch_to_master_loop sends c w = Some (Inr (rs, w'))"
  shows "rs = M_ERR"
  using assms
proof (induction sends c w rule: switch_to_master_loop.induct)
  case (1 c w)
  then show ?case by simp
next
  case (2 n errno sends c w)
  then show ?case
    by (auto simp: sizeof_coroutine_def andThen_eq_Inr split: sum.splits if_splits)
qed

text \<open>The scheduler meets a coroutine that wants to run in parallel.\<close>

lemma dispatch_parallel_free:
  assumes "control w Master = Sched_loop" "scheds w (g_mastersched w) = Some S" "stop S = 0"
    "is_tailq (tq w) (wait_q (g_mastersched w)) (c # ws)" "coros w c = Some co" "need_parallel co"
    "status co = M_READY" "\<not> g_mutex w" "scheds w (g_parallelsched w) = Some P"
    "is_tailq (tq w) (wait_q (g_parallelsched w)) ps" "c \<notin> set ps" "set (c # ws) \<inter> set ps = {}"
    "g_parallelsched w \<noteq> g_mastersched w"
  shows "sched_step w = Some (Inl Assert_Fail)"
proof -
  from pop_first [OF assms(4)] obtain m where
    m: "pop (wait_q (g_mastersched w)) (tq w) = Some (c, m)"
      "tq_entries m c = Some \<lparr>tqe_next = NULL, tqe_prev = Link_Null\<rparr>"
      "tq_only (insert c (set ws)) {wait_q (g_mastersched w)} (tq w) m" by blast
  have "c \<noteq> NULL" using is_tailq_not_null [OF assms(4)] by simp
  then have "is_entry m c" using m(2) by (simp add: is_entry_def)
  moreover have "is_tailq m (wait_q (g_parallelsched w)) ps"
    using is_tailq_frame [OF m(3) assms(10)] assms(12,13) by auto
  ultimately obtain m' where
    "insert_head (wait_q (g_parallelsched w)) c m = Some m'"
    using wq.put_head assms(11) by blast
  with assms m(1) \<open>c \<noteq> NULL\<close> show ?thesis
    by (simp add: sched_step_def sched_run_iter_def sched_pop_def coro_sent_parallel_def
        coro_ready_immediatly_def op_defs)
qed

lemma dispatch_parallel_locked:
  assumes "control w Master = Sched_loop" "scheds w (g_mastersched w) = Some S" "stop S = 0"
    "is_tailq (tq w) (wait_q (g_mastersched w)) (c # ws)" "coros w c = Some co" "need_parallel co" "g_mutex w"
  shows "\<exists>w'. sched_step w = Some (Inr w') \<and> is_tailq (tq w') (wait_q (g_mastersched w')) ws
            \<and> coros w' c = Some (co\<lparr>sched := g_mastersched w\<rparr>) \<and> coroutine_rbt w' = coroutine_rbt w"
proof -
  from pop_first [OF assms(4)] obtain m where
    m: "pop (wait_q (g_mastersched w)) (tq w) = Some (c, m)" "is_tailq m (wait_q (g_mastersched w)) ws" by blast
  have "c \<noteq> NULL" using is_tailq_not_null [OF assms(4)] by simp
  with assms m show ?thesis
    by (simp add: sched_step_def sched_run_iter_def sched_pop_def coro_sent_parallel_def op_defs goto_def)
qed

end
