(* ===== verification/Examples.thy ===== *)
theory Examples
  imports Sched_Parallel
begin

text \<open>
  Concrete states on which the witnesses of the properties evaluate: a tree with two nodes, a queue
  with three entries, and a program with two coroutines in the phases of the scheduler.
\<close>

section \<open>A tree\<close>

definition ex_item :: "addr \<Rightarrow> 64 word \<Rightarrow> item" where
  "ex_item a k = \<lparr>i_addr = a, i_key = k, i_data = k\<rparr>"

definition ex_rbt :: rbt where
  "ex_rbt = Node (Node Leaf (ex_item 0x2038 0x2000) True Leaf) (ex_item 0x3038 0x3000) False Leaf"

text \<open>The node at \<open>0x4038\<close> is in memory and not in the tree.\<close>

definition ex_tree :: rbtree where
  "ex_tree = \<lparr>nodes = [8 \<mapsto> sentinel_node 0, 0x2038 \<mapsto> mk_node (ex_item 0x2038 0x2000) True 8 8 0x3038,
       0x3038 \<mapsto> mk_node (ex_item 0x3038 0x3000) False 0x2038 8 0,
       0x4038 \<mapsto> mk_node (ex_item 0x4038 0x4000) False 0 0 0],
     root = 0x3038, sentinel = 8\<rparr>"

definition ex_items :: "item list" where
  "ex_items = [ex_item 0x2038 0x2000, ex_item 0x3038 0x3000]"

lemma ex_tree_holds: "rb_holds ex_tree ex_items"
proof -
  have "rb_repr ex_tree 0 0 ex_rbt"
    by (simp add: rb_repr_def ex_tree_def ex_rbt_def ex_item_def)
  moreover have "rb_inv ex_rbt" by (simp add: rb_inv_def ex_rbt_def)
  moreover have "inorder ex_rbt = ex_items" by (simp add: ex_rbt_def ex_items_def)
  moreover have "ordered ex_rbt"
    by (simp add: ordered_def ex_rbt_def ex_item_def skey_def)
  ultimately show ?thesis unfolding rb_holds_def by blast
qed

lemma ex_tree_fresh: "rb_fresh ex_tree (ex_item 0x4038 0x4000) ex_items"
  by (simp add: rb_fresh_def ex_tree_def ex_item_def ex_items_def item_at_def mk_node_def)

section \<open>A queue\<close>

text \<open>The queue at \<open>0x120\<close> holds \<open>0x2000\<close> and \<open>0x3000\<close>; \<open>0x4000\<close> is an entry in no queue.\<close>

definition ex_queue :: tqmem where
  "ex_queue = \<lparr>tq_entries = [0x2000 \<mapsto> \<lparr>tqe_next = 0x3000, tqe_prev = Link_First 0x120\<rparr>,
       0x3000 \<mapsto> \<lparr>tqe_next = 0, tqe_prev = Link_Next 0x2000\<rparr>,
       0x4000 \<mapsto> \<lparr>tqe_next = 0, tqe_prev = Link_Null\<rparr>],
     tq_heads = [0x120 \<mapsto> \<lparr>tqh_first = 0x2000, tqh_last = Link_Next 0x3000\<rparr>]\<rparr>"

lemma ex_queue_holds: "is_tailq ex_queue 0x120 [0x2000, 0x3000]"
  by (simp add: is_tailq_def ex_queue_def)

lemma ex_queue_entry: "is_entry ex_queue 0x4000"
  by (simp add: is_entry_def ex_queue_def)

section \<open>A program state\<close>

definition ex_coro :: "addr \<Rightarrow> cstatus_t \<Rightarrow> coroutine" where
  "ex_coro c st = \<lparr>cid = c, ctx = Some Resumed, status = st, sched = 0x100, need_parallel = False\<rparr>"

text \<open>
  The master scheduler is at \<open>0x100\<close>, its coroutine at \<open>0x1000\<close>; the coroutines \<open>0x2000\<close> and \<open>0x3000\<close>
  are ready, the scheduler is at its loop.
\<close>

definition ex_loop :: world where
  "ex_loop =
     \<lparr>coros = [0x1000 \<mapsto> \<lparr>cid = 0, ctx = Some Run_end, status = M_FREE, sched = 0, need_parallel = False\<rparr>,
               0x2000 \<mapsto> ex_coro 0x2000 M_READY, 0x3000 \<mapsto> ex_coro 0x3000 M_READY],
      scheds = [0x100 \<mapsto> \<lparr>main_coro = Some In_main, stop = 0, sched_coro = 0x1000, current_coro = 0,
                           is_parallel_sched = False\<rparr>],
      adapters = Map.empty, eventmgrs = Map.empty, events = Map.empty, interest = Map.empty,
      tq = ex_queue, coroutine_rbt = ex_tree, g_mastersched = 0x100, g_parallelsched = 0x200,
      g_schedulebackadapter = 0x300, g_eventmgr = 0, g_mutex = False, control = (\<lambda>_. Sched_loop)\<rparr>"

text \<open>The same with nothing started yet.\<close>

definition ex_main :: world where
  "ex_main = ex_loop
     \<lparr>coros := (coros ex_loop)(0x1000 \<mapsto>
        \<lparr>cid = 0, ctx = Some (Enter Sched_run 0), status = M_FREE, sched = 0, need_parallel = False\<rparr>),
      control := (\<lambda>_. In_main)\<rparr>"

text \<open>The coroutine \<open>0x3000\<close> runs, \<open>0x2000\<close> is ready.\<close>

definition ex_running :: world where
  "ex_running = ex_loop
     \<lparr>coros := (coros ex_loop)
        (0x1000 \<mapsto> \<lparr>cid = 0, ctx = Some (Sched_back 0x3000), status = M_FREE, sched = 0, need_parallel = False\<rparr>,
         0x3000 \<mapsto> ex_coro 0x3000 M_RUN),
      scheds := [0x100 \<mapsto> \<lparr>main_coro = Some In_main, stop = 0, sched_coro = 0x1000, current_coro = 0x3000,
                            is_parallel_sched = False\<rparr>],
      tq := \<lparr>tq_entries = [0x2000 \<mapsto> \<lparr>tqe_next = 0, tqe_prev = Link_First 0x120\<rparr>,
               0x3000 \<mapsto> \<lparr>tqe_next = 0, tqe_prev = Link_Null\<rparr>],
             tq_heads = [0x120 \<mapsto> \<lparr>tqh_first = 0x2000, tqh_last = Link_Next 0x2000\<rparr>]\<rparr>,
      control := (\<lambda>_. Resumed)\<rparr>"

lemma ex_wait_q [simp]: "wait_q 0x100 = 0x120"
  by (simp add: wait_q_def)

lemma ex_live_items: "set ex_items = {live_item 0x2000, live_item 0x3000}"
  by (simp add: ex_items_def ex_item_def live_item_def node_of_def)

lemma ex_loop_rel: "sched_rel ex_loop [0x2000, 0x3000] Loop"
  by (rule sched_relI [where S = "\<lparr>main_coro = Some In_main, stop = 0, sched_coro = 0x1000, current_coro = 0,
        is_parallel_sched = False\<rparr>" and sco = "\<lparr>cid = 0, ctx = Some Run_end, status = M_FREE, sched = 0,
        need_parallel = False\<rparr>" and items = ex_items])
    (auto simp: ex_loop_def ex_coro_def is_tailq_def ex_tree_holds ex_live_items coro_ok_def
      expected_def is_entry_def ex_queue_def)

lemma ex_main_rel: "sched_rel ex_main [0x2000, 0x3000] (Outside False)"
  by (rule sched_relI [where S = "\<lparr>main_coro = Some In_main, stop = 0, sched_coro = 0x1000, current_coro = 0,
        is_parallel_sched = False\<rparr>" and sco = "\<lparr>cid = 0, ctx = Some (Enter Sched_run 0), status = M_FREE, sched = 0,
        need_parallel = False\<rparr>" and items = ex_items])
    (auto simp: ex_main_def ex_loop_def ex_coro_def is_tailq_def ex_tree_holds ex_live_items coro_ok_def
      expected_def is_entry_def ex_queue_def)

lemma ex_running_rel: "sched_rel ex_running [0x2000] (Running 0x3000)"
  by (rule sched_relI [where S = "\<lparr>main_coro = Some In_main, stop = 0, sched_coro = 0x1000, current_coro = 0x3000,
        is_parallel_sched = False\<rparr>" and sco = "\<lparr>cid = 0, ctx = Some (Sched_back 0x3000), status = M_FREE,
        sched = 0, need_parallel = False\<rparr>" and items = ex_items])
    (auto simp: ex_running_def ex_loop_def ex_coro_def is_tailq_def ex_tree_holds ex_live_items coro_ok_def
      expected_def is_entry_def)

lemma ex_not_stopped: "\<not> stopped ex_loop" "\<not> stopped ex_running"
  by (simp_all add: stopped_def ex_loop_def ex_running_def)

text \<open>The coroutine \<open>0x3000\<close> exits, \<open>0x2000\<close> runs alone.\<close>

lemma ex_alone: "\<exists>w. sched_rel w [] (Running 0x2000)"
proof -
  from coro_exit_refines [OF ex_running_rel] ex_not_stopped(2) obtain w1 where
    w1: "sched_rel w1 [0x2000] (Back 0x3000 True)" "\<not> stopped w1" by auto
  from resume_exited_refines [OF w1(1)] w1(2) obtain w2 where
    w2: "sched_rel w2 [0x2000] Loop" "\<not> stopped w2" by auto
  from sched_dispatch_refines [OF w2] show ?thesis by blast
qed

text \<open>\<open>ex_loop\<close> with a parallel scheduler at \<open>0x200\<close>; the coroutine \<open>0x2000\<close> wants to run there.\<close>

definition ex_parallel :: world where
  "ex_parallel = ex_loop
     \<lparr>coros := [0x2000 \<mapsto> (ex_coro 0x2000 M_READY)\<lparr>need_parallel := True\<rparr>, 0x3000 \<mapsto> ex_coro 0x3000 M_READY],
      scheds := [0x100 \<mapsto> \<lparr>main_coro = Some In_main, stop = 0, sched_coro = 0x1000, current_coro = 0,
                            is_parallel_sched = False\<rparr>,
                 0x200 \<mapsto> \<lparr>main_coro = Some In_main, stop = 0, sched_coro = 0x1100, current_coro = 0,
                            is_parallel_sched = True\<rparr>],
      adapters := [0x300 \<mapsto> \<lparr>scbd_coro = 0x1200, readfd = 4, writefd = 5\<rparr>],
      tq := \<lparr>tq_entries = tq_entries ex_queue,
             tq_heads = (tq_heads ex_queue)(0x220 \<mapsto> \<lparr>tqh_first = 0, tqh_last = Link_First 0x220\<rparr>)\<rparr>,
      control := (\<lambda>th. case th of Master \<Rightarrow> Sched_loop | Parallel \<Rightarrow> Par_loop)\<rparr>"

definition ex_pcoro :: coroutine where
  "ex_pcoro = (ex_coro 0x2000 M_READY)\<lparr>need_parallel := True\<rparr>"

lemma ex_parallel_facts:
  "control ex_parallel Master = Sched_loop"
  "\<exists>S. scheds ex_parallel (g_mastersched ex_parallel) = Some S \<and> stop S = 0"
  "is_tailq (tq ex_parallel) (wait_q (g_mastersched ex_parallel)) [0x2000, 0x3000]"
  "coros ex_parallel 0x2000 = Some ex_pcoro" "need_parallel ex_pcoro" "status ex_pcoro = M_READY"
  "\<not> g_mutex ex_parallel" "\<exists>P. scheds ex_parallel (g_parallelsched ex_parallel) = Some P"
  "is_tailq (tq ex_parallel) (wait_q (g_parallelsched ex_parallel)) []"
  "g_parallelsched ex_parallel \<noteq> g_mastersched ex_parallel"
  by (simp_all add: ex_parallel_def ex_pcoro_def ex_loop_def ex_coro_def ex_queue_def is_tailq_def wait_q_def)

lemma ex_parallel_idle: "parallel_idle ex_parallel"
  by (simp add: parallel_idle_def ex_parallel_def ex_loop_def is_tailq_def ex_queue_def wait_q_def)

section \<open>An initialisation\<close>

definition ex_env :: env_results where
  "ex_env =
     (let raw = \<lparr>main_coro = None, stop = 7, sched_coro = 7, current_coro = 7, is_parallel_sched = True\<rparr> in
      \<lparr>e_master = 0x100, e_parallel = 0x200, e_adapter = 0x300, e_raw_master = raw, e_raw_parallel = raw,
       e_raw_adapter = \<lparr>scbd_coro = 7, readfd = 7, writefd = 7\<rparr>,
       e_raw_head = \<lparr>tqh_first = 7, tqh_last = Link_Null\<rparr>,
       e_sched_coro = 0x1000, e_parallel_coro = 0x2000, e_back_coro = 0x3000, e_fds = (4, 5), e_mgr = 0x400,
       e_epfd = 6, e_events = 0x500, e_mgr_coro = 0x4000, e_raw_timeout = 7\<rparr>)"

definition ex_blank :: world where
  "ex_blank =
     \<lparr>coros = Map.empty, scheds = Map.empty, adapters = Map.empty, eventmgrs = Map.empty, events = Map.empty,
      interest = Map.empty, tq = \<lparr>tq_entries = Map.empty, tq_heads = Map.empty\<rparr>,
      coroutine_rbt = \<lparr>nodes = [8 \<mapsto> sentinel_node 0], root = 0, sentinel = 0\<rparr>, g_mastersched = 0,
      g_parallelsched = 0, g_schedulebackadapter = 0, g_eventmgr = 0, g_mutex = False, control = (\<lambda>_. In_main)\<rparr>"

lemma ex_env_ok: "env_ok ex_env 8 ex_blank"
  by (simp add: env_ok_def ex_env_def ex_blank_def node_of_def Let_def)

end
