(* ===== verification/Queue_Ops.thy ===== *)
theory Queue_Ops
  imports Slist Stailq Listq Circleq Examples
begin

text \<open>
  Sequences of operations on the queues of src/cs_queue.h.  \<open>qop\<close> is an operation, \<open>list_op\<close> what it
  does to a list; \<open>list_machine\<close> is the contract of a family of macros with the operations it offers,
  and each family is an interpretation of it.
\<close>

section \<open>Operations\<close>

datatype qop = Ins_Head addr | Ins_Tail addr | Ins_After addr addr | Ins_Before addr addr | Rem addr

fun ins_after :: "addr \<Rightarrow> addr \<Rightarrow> addr list \<Rightarrow> addr list" where
  "ins_after y x [] = []"
| "ins_after y x (z # zs) = (if z = y then z # x # zs else z # ins_after y x zs)"

fun ins_before :: "addr \<Rightarrow> addr \<Rightarrow> addr list \<Rightarrow> addr list" where
  "ins_before y x [] = []"
| "ins_before y x (z # zs) = (if z = y then x # z # zs else z # ins_before y x zs)"

fun list_op :: "qop \<Rightarrow> addr list \<Rightarrow> addr list" where
  "list_op (Ins_Head x) xs = x # xs"
| "list_op (Ins_Tail x) xs = xs @ [x]"
| "list_op (Ins_After y x) xs = ins_after y x xs"
| "list_op (Ins_Before y x) xs = ins_before y x xs"
| "list_op (Rem x) xs = remove1 x xs"

text \<open>The element an operation adds; when it makes sense on a list; and a sequence of them.\<close>

fun added :: "qop \<Rightarrow> addr list" where
  "added (Ins_Head x) = [x]"
| "added (Ins_Tail x) = [x]"
| "added (Ins_After y x) = [x]"
| "added (Ins_Before y x) = [x]"
| "added (Rem x) = []"

fun op_ok :: "qop \<Rightarrow> addr list \<Rightarrow> bool" where
  "op_ok (Ins_Head x) xs \<longleftrightarrow> x \<notin> set xs"
| "op_ok (Ins_Tail x) xs \<longleftrightarrow> x \<notin> set xs"
| "op_ok (Ins_After y x) xs \<longleftrightarrow> y \<in> set xs \<and> x \<notin> set xs"
| "op_ok (Ins_Before y x) xs \<longleftrightarrow> y \<in> set xs \<and> x \<notin> set xs"
| "op_ok (Rem x) xs \<longleftrightarrow> x \<in> set xs"

fun ops_ok :: "qop list \<Rightarrow> addr list \<Rightarrow> bool" where
  "ops_ok [] xs \<longleftrightarrow> True"
| "ops_ok (p # ps) xs \<longleftrightarrow> op_ok p xs \<and> ops_ok ps (list_op p xs)"

lemma ins_after_split: "y \<notin> set zs \<Longrightarrow> ins_after y x (zs @ y # ys) = zs @ y # x # ys"
  by (induction zs) auto

lemma ins_before_split: "y \<notin> set zs \<Longrightarrow> ins_before y x (zs @ y # ys) = zs @ x # y # ys"
  by (induction zs) auto

lemma op_split:
  assumes "op_ok p xs"
  obtains (at_head) x where "p = Ins_Head x" "x \<notin> set xs" "list_op p xs = x # xs"
  | (at_tail) x where "p = Ins_Tail x" "x \<notin> set xs" "list_op p xs = xs @ [x]"
  | (behind) zs y ys x where "p = Ins_After y x" "xs = zs @ y # ys" "x \<notin> set (zs @ y # ys)"
      "list_op p xs = zs @ y # x # ys"
  | (before) zs y ys x where "p = Ins_Before y x" "xs = zs @ y # ys" "x \<notin> set (zs @ y # ys)"
      "list_op p xs = zs @ x # y # ys"
  | (removal) zs x ys where "p = Rem x" "xs = zs @ x # ys" "list_op p xs = zs @ ys"
proof (cases p)
  case (Ins_After y x)
  with assms obtain zs ys where "xs = zs @ y # ys" "y \<notin> set zs" by (auto dest: split_list_first)
  with Ins_After assms that(3) show ?thesis by (simp add: ins_after_split)
next
  case (Ins_Before y x)
  with assms obtain zs ys where "xs = zs @ y # ys" "y \<notin> set zs" by (auto dest: split_list_first)
  with Ins_Before assms that(4) show ?thesis by (simp add: ins_before_split)
next
  case (Rem x)
  with assms obtain zs ys where "xs = zs @ x # ys" "x \<notin> set zs" by (auto dest: split_list_first)
  with Rem that(5) show ?thesis by (simp add: remove1_append)
qed (use assms that(1,2) in auto)

section \<open>The contract\<close>

locale list_machine = chain get_first get_next stop holds
  for get_first :: "addr \<Rightarrow> 'm \<Rightarrow> addr option"
    and get_next :: "addr \<Rightarrow> 'm \<Rightarrow> addr option"
    and stop :: "addr \<Rightarrow> addr"
    and holds :: "'m \<Rightarrow> addr \<Rightarrow> addr list \<Rightarrow> bool" +
  fixes exec :: "addr \<Rightarrow> qop \<Rightarrow> 'm \<Rightarrow> 'm option"
    and offers :: "qop \<Rightarrow> bool"
    and usable :: "'m \<Rightarrow> addr \<Rightarrow> addr \<Rightarrow> bool"
  assumes exec: "holds m q xs \<Longrightarrow> offers p \<Longrightarrow> op_ok p xs \<Longrightarrow> list_all (usable m q) (added p) \<Longrightarrow>
      \<exists>m'. exec q p m = Some m' \<and> holds m' q (list_op p xs) \<and> usable m' = usable m"
begin

lemma run:
  "holds m q xs \<Longrightarrow> list_all offers ps \<Longrightarrow> ops_ok ps xs \<Longrightarrow> list_all (usable m q) (concat (map added ps)) \<Longrightarrow>
   \<exists>m'. fold_option (exec q) ps m = Some m' \<and> holds m' q (fold list_op ps xs)"
proof (induction ps arbitrary: m xs)
  case (Cons p ps)
  then obtain m1 where m1: "exec q p m = Some m1" "holds m1 q (list_op p xs)" "usable m1 = usable m"
    using exec [of m q xs p] by auto
  from Cons.IH [OF m1(2)] Cons.prems m1(3) obtain m2 where
    "fold_option (exec q) ps m1 = Some m2" "holds m2 q (fold list_op ps (list_op p xs))" by auto
  with m1(1) show ?case by simp
qed simp

text \<open>After the operations a loop over the queue sees the list they describe.\<close>

lemma run_and_loop:
  "holds m q xs \<Longrightarrow> list_all offers ps \<Longrightarrow> ops_ok ps xs \<Longrightarrow> list_all (usable m q) (concat (map added ps)) \<Longrightarrow>
   \<exists>m'. fold_option (exec q) ps m = Some m' \<and> holds m' q (fold list_op ps xs)
        \<and> Option.bind (get_first q m') (\<lambda>f. for_each get_next (stop q) f m') = Some (fold list_op ps xs)"
  using run for_each_all by blast

end

section \<open>The families\<close>

fun tailq_op :: "addr \<Rightarrow> qop \<Rightarrow> tqmem \<Rightarrow> tqmem option" where
  "tailq_op q (Ins_Head x) m = TAILQ_INSERT_HEAD q x m"
| "tailq_op q (Ins_Tail x) m = TAILQ_INSERT_TAIL q x m"
| "tailq_op q (Ins_After y x) m = TAILQ_INSERT_AFTER q y x m"
| "tailq_op q (Ins_Before y x) m = TAILQ_INSERT_BEFORE y x m"
| "tailq_op q (Rem x) m = TAILQ_REMOVE q x m"

fun slist_op :: "addr \<Rightarrow> qop \<Rightarrow> slmem \<Rightarrow> slmem option" where
  "slist_op q (Ins_Head x) m = SLIST_INSERT_HEAD q x m"
| "slist_op q (Ins_After y x) m = SLIST_INSERT_AFTER y x m"
| "slist_op q (Rem x) m = SLIST_REMOVE q x m"
| "slist_op q _ m = None"

fun stailq_op :: "addr \<Rightarrow> qop \<Rightarrow> stqmem \<Rightarrow> stqmem option" where
  "stailq_op q (Ins_Head x) m = STAILQ_INSERT_HEAD q x m"
| "stailq_op q (Ins_Tail x) m = STAILQ_INSERT_TAIL q x m"
| "stailq_op q (Ins_After y x) m = STAILQ_INSERT_AFTER q y x m"
| "stailq_op q (Rem x) m = STAILQ_REMOVE q x m"
| "stailq_op q _ m = None"

fun listq_op :: "addr \<Rightarrow> qop \<Rightarrow> lmem \<Rightarrow> lmem option" where
  "listq_op q (Ins_Head x) m = LIST_INSERT_HEAD q x m"
| "listq_op q (Ins_After y x) m = LIST_INSERT_AFTER y x m"
| "listq_op q (Ins_Before y x) m = LIST_INSERT_BEFORE y x m"
| "listq_op q (Rem x) m = LIST_REMOVE x m"
| "listq_op q _ m = None"

fun circleq_op :: "addr \<Rightarrow> qop \<Rightarrow> cqmem \<Rightarrow> cqmem option" where
  "circleq_op q (Ins_Head x) m = CIRCLEQ_INSERT_HEAD q x m"
| "circleq_op q (Ins_Tail x) m = CIRCLEQ_INSERT_TAIL q x m"
| "circleq_op q (Ins_After y x) m = CIRCLEQ_INSERT_AFTER q y x m"
| "circleq_op q (Ins_Before y x) m = CIRCLEQ_INSERT_BEFORE q y x m"
| "circleq_op q (Rem x) m = CIRCLEQ_REMOVE q x m"

fun is_ins_tail :: "qop \<Rightarrow> bool" where
  "is_ins_tail (Ins_Tail x) = True" | "is_ins_tail _ = False"

fun is_ins_before :: "qop \<Rightarrow> bool" where
  "is_ins_before (Ins_Before y x) = True" | "is_ins_before _ = False"

text \<open>What each step needs: it returns, gives the list, and frees nothing.\<close>

definition tq_step :: "addr \<Rightarrow> tqmem \<Rightarrow> tqmem option \<Rightarrow> addr list \<Rightarrow> bool" where
  "tq_step q m r ys \<longleftrightarrow> (\<exists>m'. r = Some m' \<and> is_tailq m' q ys \<and> is_entry m' = is_entry m)"

definition q_step ::
  "(('e, 'h) qmem \<Rightarrow> addr \<Rightarrow> addr list \<Rightarrow> bool) \<Rightarrow> addr \<Rightarrow> ('e, 'h) qmem \<Rightarrow> ('e, 'h) qmem option \<Rightarrow> addr list \<Rightarrow> bool" where
  "q_step holds q m r ys \<longleftrightarrow> (\<exists>m'. r = Some m' \<and> holds m' q ys \<and> is_qentry m' = is_qentry m)"

lemma tq_stepI: "\<exists>m'. r = Some m' \<and> is_tailq m' q ys \<and> tq_only A H m m' \<Longrightarrow> tq_step q m r ys"
  using is_entry_frame by (fastforce simp: tq_step_def)

lemma q_only_entry: "q_only A H m m' \<Longrightarrow> is_qentry m' = is_qentry m"
  by (auto simp: q_only_def is_qentry_def dom_def set_eq_iff fun_eq_iff)

lemma q_stepI: "\<exists>m'. r = Some m' \<and> holds m' q ys \<and> q_only A H m m' \<Longrightarrow> q_step holds q m r ys"
  using q_only_entry by (fastforce simp: q_step_def)

lemma tailq_step:
  assumes q: "is_tailq m q xs" "op_ok p xs" "list_all (is_entry m) (added p)"
  shows "tq_step q m (tailq_op q p m) (list_op p xs)"
  using q(2)
proof (cases rule: op_split)
  case (at_head x)
  with TAILQ_INSERT_HEAD_ok [OF q(1), of x] q(3) show ?thesis by (simp add: tq_stepI)
next
  case (at_tail x)
  with TAILQ_INSERT_TAIL_ok [OF q(1), of x] q(3) show ?thesis by (simp add: tq_stepI)
next
  case (behind zs y ys x)
  with TAILQ_INSERT_AFTER_ok [of m q zs y ys x] q show ?thesis by (simp add: tq_stepI)
next
  case (before zs y ys x)
  with TAILQ_INSERT_BEFORE_ok [of m q zs y ys x] q show ?thesis by (simp add: tq_stepI)
next
  case (removal zs x ys)
  with TAILQ_REMOVE_ok [of m q zs x ys] q show ?thesis by (auto intro!: tq_stepI)
qed

lemma slist_step:
  assumes q: "is_slist m q xs" "op_ok p xs" "list_all (is_qentry m) (added p)" "\<not> is_ins_tail p" "\<not> is_ins_before p"
  shows "q_step is_slist q m (slist_op q p m) (list_op p xs)"
  using q(2)
proof (cases rule: op_split)
  case (at_head x)
  with SLIST_INSERT_HEAD_ok [OF q(1), of x] q show ?thesis by (simp add: q_stepI)
next
  case (at_tail x)
  with q show ?thesis by simp
next
  case (behind zs y ys x)
  with SLIST_INSERT_AFTER_ok [of m q zs y ys x] q show ?thesis by (simp add: q_stepI)
next
  case (before zs y ys x)
  with q show ?thesis by simp
next
  case (removal zs x ys)
  with SLIST_REMOVE_ok [of m q zs x ys] q show ?thesis by (auto intro!: q_stepI)
qed

lemma stailq_step:
  assumes q: "is_stailq m q xs" "op_ok p xs" "list_all (is_qentry m) (added p)" "\<not> is_ins_before p"
  shows "q_step is_stailq q m (stailq_op q p m) (list_op p xs)"
  using q(2)
proof (cases rule: op_split)
  case (at_head x)
  with STAILQ_INSERT_HEAD_ok [OF q(1), of x] q show ?thesis by (simp add: q_stepI)
next
  case (at_tail x)
  with STAILQ_INSERT_TAIL_ok [OF q(1), of x] q show ?thesis by (simp add: q_stepI)
next
  case (behind zs y ys x)
  with STAILQ_INSERT_AFTER_ok [of m q zs y ys x] q show ?thesis by (simp add: q_stepI)
next
  case (before zs y ys x)
  with q show ?thesis by simp
next
  case (removal zs x ys)
  with STAILQ_REMOVE_ok [of m q zs x ys] q show ?thesis by (auto intro!: q_stepI)
qed

lemma listq_step:
  assumes q: "is_list m q xs" "op_ok p xs" "list_all (is_qentry m) (added p)" "\<not> is_ins_tail p"
  shows "q_step is_list q m (listq_op q p m) (list_op p xs)"
  using q(2)
proof (cases rule: op_split)
  case (at_head x)
  with LIST_INSERT_HEAD_ok [OF q(1), of x] q show ?thesis by (simp add: q_stepI)
next
  case (at_tail x)
  with q show ?thesis by simp
next
  case (behind zs y ys x)
  with LIST_INSERT_AFTER_ok [of m q zs y ys x] q show ?thesis by (simp add: q_stepI)
next
  case (before zs y ys x)
  with LIST_INSERT_BEFORE_ok [of m q zs y ys x] q show ?thesis by (simp add: q_stepI)
next
  case (removal zs x ys)
  with LIST_REMOVE_ok [of m q zs x ys] q show ?thesis by (auto intro!: q_stepI)
qed

lemma circleq_step:
  assumes q: "is_circleq m q xs" "op_ok p xs" "list_all (is_qentry m) (added p)" "q \<notin> set (added p)"
  shows "q_step is_circleq q m (circleq_op q p m) (list_op p xs)"
  using q(2)
proof (cases rule: op_split)
  case (at_head x)
  with CIRCLEQ_INSERT_HEAD_ok [OF q(1), of x] q show ?thesis by (simp add: q_stepI)
next
  case (at_tail x)
  with CIRCLEQ_INSERT_TAIL_ok [OF q(1), of x] q show ?thesis by (simp add: q_stepI)
next
  case (behind zs y ys x)
  with CIRCLEQ_INSERT_AFTER_ok [of m q zs y ys x] q show ?thesis by (simp add: q_stepI)
next
  case (before zs y ys x)
  with CIRCLEQ_INSERT_BEFORE_ok [of m q zs y ys x] q show ?thesis by (simp add: q_stepI)
next
  case (removal zs x ys)
  with CIRCLEQ_REMOVE_ok [of m q zs x ys] q show ?thesis by (auto intro!: q_stepI)
qed

interpretation tq_ops: list_machine TAILQ_FIRST TAILQ_NEXT "\<lambda>_. NULL" is_tailq tailq_op "\<lambda>_. True" "\<lambda>m q. is_entry m"
  by unfold_locales (metis tailq_step tq_step_def)

interpretation sl_ops: list_machine SLIST_FIRST SLIST_NEXT "\<lambda>_. NULL" is_slist slist_op
  "\<lambda>p. \<not> is_ins_tail p \<and> \<not> is_ins_before p" "\<lambda>m q. is_qentry m"
  by unfold_locales (metis slist_step q_step_def)

interpretation stq_ops: list_machine STAILQ_FIRST STAILQ_NEXT "\<lambda>_. NULL" is_stailq stailq_op
  "\<lambda>p. \<not> is_ins_before p" "\<lambda>m q. is_qentry m"
  by unfold_locales (metis stailq_step q_step_def)

interpretation lq_ops: list_machine LIST_FIRST LIST_NEXT "\<lambda>_. NULL" is_list listq_op
  "\<lambda>p. \<not> is_ins_tail p" "\<lambda>m q. is_qentry m"
  by unfold_locales (metis listq_step q_step_def)

interpretation cq_ops: list_machine CIRCLEQ_FIRST CIRCLEQ_NEXT "\<lambda>q. q" is_circleq circleq_op
  "\<lambda>_. True" "\<lambda>m q x. is_qentry m x \<and> x \<noteq> q"
proof unfold_locales
  fix m q xs p
  assume q: "is_circleq m q xs" "op_ok p xs" "list_all (\<lambda>x. is_qentry m x \<and> x \<noteq> q) (added p)"
  from q(3) have "list_all (is_qentry m) (added p)" "q \<notin> set (added p)" by (auto simp: list_all_iff)
  from circleq_step [OF q(1,2) this] show
    "\<exists>m'. circleq_op q p m = Some m' \<and> is_circleq m' q (list_op p xs)
          \<and> (\<lambda>q x. is_qentry m' x \<and> x \<noteq> q) = (\<lambda>q x. is_qentry m x \<and> x \<noteq> q)"
    by (auto simp: q_step_def)
qed

end
