(* ===== verification/Queue_Spec.thy ===== *)
theory Queue_Spec
  imports Queue_Ops
begin

text \<open>
  The properties of the queues of src/cs_queue.h: sequences of operations against lists, and what a
  loop may do to the queue it runs over.
\<close>

section \<open>Queues for the examples\<close>

definition ex_stailq :: stqmem where
  "ex_stailq =
     \<lparr>q_entries = [0x10 \<mapsto> \<lparr>stqe_next = 0x99\<rparr>, 0x20 \<mapsto> \<lparr>stqe_next = 0x99\<rparr>, 0x30 \<mapsto> \<lparr>stqe_next = 0x99\<rparr>],
      q_heads = [0x120 \<mapsto> \<lparr>stqh_first = 0, stqh_last = Link_First 0x120\<rparr>]\<rparr>"

definition ex_circleq :: cqmem where
  "ex_circleq =
     \<lparr>q_entries = [0x10 \<mapsto> \<lparr>cqe_next = 0, cqe_prev = 0\<rparr>, 0x20 \<mapsto> \<lparr>cqe_next = 0, cqe_prev = 0\<rparr>,
        0x30 \<mapsto> \<lparr>cqe_next = 0, cqe_prev = 0\<rparr>],
      q_heads = [0x120 \<mapsto> \<lparr>cqh_first = 0x120, cqh_last = 0x120\<rparr>]\<rparr>"

lemma ex_stailq_holds: "is_stailq ex_stailq 0x120 []"
  by (simp add: is_stailq_def ex_stailq_def)

lemma ex_circleq_holds: "is_circleq ex_circleq 0x120 []"
  by (simp add: is_circleq_def ex_circleq_def)

section \<open>Sequences of operations\<close>

text \<open>C14: The tail queue implements a list: every sequence of insertions at either end, behind or before an
  element, and removals runs without a fault and leaves the queue of the list that the same
  operations give, which the loops see forwards and backwards.\<close>

theorem tailq_simulates_list:
  assumes "is_tailq m q xs" "ops_ok ps xs" "list_all (is_entry m) (concat (map added ps))"
  shows "\<exists>m'. fold_option (tailq_op q) ps m = Some m' \<and> is_tailq m' q (fold list_op ps xs)
    \<and> TAILQ_FOREACH q m' = Some (fold list_op ps xs) \<and> TAILQ_FOREACH_REVERSE q m' = Some (rev (fold list_op ps xs))"
  using tq_ops.run [of m q xs ps] assms TAILQ_FOREACH_ok TAILQ_FOREACH_REVERSE_ok
  by (fastforce simp: list_all_iff)

theorem tailq_simulates_list_witness:
  "\<exists>m'. fold_option (tailq_op 0x120) [Ins_Before 0x3000 0x4000, Rem 0x2000, Ins_Tail 0x2000] ex_queue = Some m'
     \<and> TAILQ_FOREACH_REVERSE 0x120 m' = Some [0x2000, 0x3000, 0x4000]"
  using tailq_simulates_list [OF ex_queue_holds, of "[Ins_Before 0x3000 0x4000, Rem 0x2000, Ins_Tail 0x2000]"]
  by (auto simp: is_entry_def ex_queue_def)

text \<open>C15: The singly-linked tail queue implements a list in the same way, with the operations it offers
  (not the insertion before an element); \<open>STAILQ_LAST\<close> then gives the last element.\<close>

theorem stailq_simulates_list:
  assumes "is_stailq m q xs" "ops_ok ps xs" "list_all (\<lambda>p. \<not> is_ins_before p) ps"
    and "list_all (is_qentry m) (concat (map added ps))"
  shows "\<exists>m'. fold_option (stailq_op q) ps m = Some m' \<and> is_stailq m' q (fold list_op ps xs)
    \<and> STAILQ_FOREACH q m' = Some (fold list_op ps xs)
    \<and> STAILQ_LAST q m' = Some (if fold list_op ps xs = [] then NULL else last (fold list_op ps xs))"
  using stq_ops.run [OF assms(1,3,2,4)] STAILQ_FOREACH_ok STAILQ_LAST_ok by blast

theorem stailq_simulates_list_witness:
  "\<exists>m'. fold_option (stailq_op 0x120) [Ins_Tail 0x10, Ins_Tail 0x20, Ins_After 0x10 0x30, Rem 0x20] ex_stailq = Some m'
     \<and> STAILQ_FOREACH 0x120 m' = Some [0x10, 0x30] \<and> STAILQ_LAST 0x120 m' = Some 0x30"
  using stailq_simulates_list [OF ex_stailq_holds, of "[Ins_Tail 0x10, Ins_Tail 0x20, Ins_After 0x10 0x30, Rem 0x20]"]
  by (auto simp: is_qentry_def ex_stailq_def)

text \<open>C16: The circular queue implements a list in the same way with all operations, as long as the head is
  not inserted; its loops end at the head in both directions.\<close>

theorem circleq_simulates_list:
  assumes "is_circleq m q xs" "ops_ok ps xs"
    and "list_all (\<lambda>x. is_qentry m x \<and> x \<noteq> q) (concat (map added ps))"
  shows "\<exists>m'. fold_option (circleq_op q) ps m = Some m' \<and> is_circleq m' q (fold list_op ps xs)
    \<and> CIRCLEQ_FOREACH q m' = Some (fold list_op ps xs)
    \<and> CIRCLEQ_FOREACH_REVERSE q m' = Some (rev (fold list_op ps xs))"
  using cq_ops.run [OF assms(1) _ assms(2,3)] CIRCLEQ_FOREACH_ok CIRCLEQ_FOREACH_REVERSE_ok
  by (fastforce simp: list_all_iff)

theorem circleq_simulates_list_witness:
  "\<exists>m'. fold_option (circleq_op 0x120) [Ins_Head 0x10, Ins_Before 0x10 0x20, Ins_Tail 0x30, Rem 0x10] ex_circleq = Some m'
     \<and> CIRCLEQ_FOREACH_REVERSE 0x120 m' = Some [0x30, 0x20]"
  using circleq_simulates_list [OF ex_circleq_holds, of "[Ins_Head 0x10, Ins_Before 0x10 0x20, Ins_Tail 0x30, Rem 0x10]"]
  by (auto simp: is_qentry_def ex_circleq_def)

text \<open>The two remaining families, which offer no insertion at the tail.\<close>

theorem slist_simulates_list:
  assumes "is_slist m q xs" "ops_ok ps xs" "list_all (\<lambda>p. \<not> is_ins_tail p \<and> \<not> is_ins_before p) ps"
    and "list_all (is_qentry m) (concat (map added ps))"
  shows "\<exists>m'. fold_option (slist_op q) ps m = Some m' \<and> is_slist m' q (fold list_op ps xs)
    \<and> SLIST_FOREACH q m' = Some (fold list_op ps xs)"
  using sl_ops.run [OF assms(1,3,2,4)] SLIST_FOREACH_ok by blast

theorem list_simulates_list:
  assumes "is_list m q xs" "ops_ok ps xs" "list_all (\<lambda>p. \<not> is_ins_tail p) ps"
    and "list_all (is_qentry m) (concat (map added ps))"
  shows "\<exists>m'. fold_option (listq_op q) ps m = Some m' \<and> is_list m' q (fold list_op ps xs)
    \<and> LIST_FOREACH q m' = Some (fold list_op ps xs)"
  using lq_ops.run [OF assms(1,3,2,4)] LIST_FOREACH_ok by blast

section \<open>Loops that remove\<close>

text \<open>C18: A \<open>SAFE\<close> loop over a tail queue whose body removes the elements with some property visits all
  elements in either direction and leaves the others.  The plain loop does not: since the removal
  clears the link of the element, it ends after the first one that is removed.\<close>

theorem tailq_loops_remove:
  assumes "is_tailq m q xs"
  shows "\<exists>m1 m2 m3.
     TAILQ_FOREACH_SAFE q (remove_if P (TAILQ_REMOVE q)) m = Some m1 \<and> is_tailq m1 q (filter (\<lambda>x. \<not> P x) xs)
     \<and> TAILQ_FOREACH_REVERSE_SAFE q (remove_if P (TAILQ_REMOVE q)) m = Some m2
     \<and> is_tailq m2 q (filter (\<lambda>x. \<not> P x) xs)
     \<and> TAILQ_FOREACH_DO q (remove_if P (TAILQ_REMOVE q)) m = Some m3
     \<and> is_tailq m3 q (takeWhile (\<lambda>x. \<not> P x) xs @ tl (dropWhile (\<lambda>x. \<not> P x) xs))"
proof -
  have "is_tailq m q (rev (rev xs))" using assms by simp
  from tq.safe_all [OF assms, of P] tqr.safe_all [OF this, of P] tq.plain_all [OF assms, of P]
  show ?thesis
    unfolding TAILQ_FOREACH_SAFE_def TAILQ_FOREACH_REVERSE_SAFE_def TAILQ_FOREACH_DO_def
    by (simp add: rev_filter [symmetric])
qed

theorem tailq_loops_remove_witness:
  "\<exists>m1 m3. TAILQ_FOREACH_SAFE 0x120 (remove_if (\<lambda>_. True) (TAILQ_REMOVE 0x120)) ex_queue = Some m1 \<and> is_tailq m1 0x120 []
     \<and> TAILQ_FOREACH_DO 0x120 (remove_if (\<lambda>_. True) (TAILQ_REMOVE 0x120)) ex_queue = Some m3 \<and> is_tailq m3 0x120 [0x3000]"
  using tailq_loops_remove [OF ex_queue_holds, of "\<lambda>_. True"] by auto

text \<open>The other families with a \<open>SAFE\<close> loop.\<close>

theorem slist_safe_loop:
  assumes "is_slist m q xs"
  shows "\<exists>m'. SLIST_FOREACH_SAFE q (remove_if P (SLIST_REMOVE q)) m = Some m' \<and> is_slist m' q (filter (\<lambda>x. \<not> P x) xs)"
  using sl.safe_all [OF assms] unfolding SLIST_FOREACH_SAFE_def .

theorem stailq_safe_loop:
  assumes "is_stailq m q xs"
  shows "\<exists>m'. STAILQ_FOREACH_SAFE q (remove_if P (STAILQ_REMOVE q)) m = Some m' \<and> is_stailq m' q (filter (\<lambda>x. \<not> P x) xs)"
  using stq.safe_all [OF assms] unfolding STAILQ_FOREACH_SAFE_def .

theorem list_safe_loop:
  assumes "is_list m q xs"
  shows "\<exists>m'. LIST_FOREACH_SAFE q (remove_if P LIST_REMOVE) m = Some m' \<and> is_list m' q (filter (\<lambda>x. \<not> P x) xs)"
  using lq.safe_all [OF assms] unfolding LIST_FOREACH_SAFE_def .

end
