(* ===== verification/Event_Loop.thy ===== *)
theory Event_Loop
  imports Examples
begin

text \<open>
  \<open>event_loop\<close> of src/cs_eventmgr.c, the coroutine of the event manager.  It hands the thread to other
  coroutines inside \<open>event_callback\<close> and \<open>sched_run_once\<close>, so it is split at these calls; \<open>ev_point\<close> is
  where it goes on.  An answer of \<open>epoll_wait\<close> is its result and the array it has filled: for every
  event the pointer and the mask.
\<close>

text \<open>
  \<open>Ev_top\<close>: at the test of the loop.  \<open>Ev_deliver evs\<close>: in the inner loop, before the events \<open>evs\<close>, and
  before \<open>sched_run_once\<close> when there are none left.  \<open>Ev_wait\<close>: before the second \<open>epoll_wait\<close>.
  \<open>Ev_end\<close>: the loop is left.
\<close>

datatype ev_point = Ev_top | Ev_deliver "(addr \<times> uint32) list" | Ev_wait | Ev_end

type_synonym epoll_answer = "int \<times> (addr \<times> uint32) list"

definition event_loop_top :: "addr \<Rightarrow> epoll_answer \<Rightarrow> world \<Rightarrow> fault + (ev_point \<times> world)" where
  "event_loop_top mgr ans w =
     andThen (deref (eventmgrs w mgr)) (\<lambda>m.
     if em_stop m \<noteq> 0 then Inr (Ev_end, w)
     else
       andThen (sched_has_task w) (\<lambda>b.
       if \<not> b then Inr (Ev_wait, w)
       else case ans of (nsd, evs) \<Rightarrow>
         if nsd < 0 then Inr (Ev_end, w) else Inr (Ev_deliver (take (nat nsd) evs), w)))"

definition event_loop_deliver ::
  "(addr \<times> uint32) list \<Rightarrow> world \<Rightarrow> (fault + (ev_point \<times> world)) option" where
  "event_loop_deliver evs w =
     (case evs of
        [] \<Rightarrow> map_option (\<lambda>r. andThen r (\<lambda>w. Inr (Ev_wait, w))) (sched_run_once w)
      | (ev, msk) # evs \<Rightarrow>
          map_option (\<lambda>r. andThen r (\<lambda>w. Inr (Ev_deliver evs, w))) (event_callback ev msk w))"

definition event_loop_wait :: "addr \<Rightarrow> epoll_answer \<Rightarrow> world \<Rightarrow> fault + (ev_point \<times> world)" where
  "event_loop_wait mgr ans w =
     andThen (deref (eventmgrs w mgr)) (\<lambda>m.
     case ans of (nsd, evs) \<Rightarrow> if nsd < 0 then Inr (Ev_end, w) else Inr (Ev_top, w))"

definition event_loop_step :: "addr \<Rightarrow> epoll_answer \<Rightarrow> ev_point \<Rightarrow> world \<Rightarrow> (fault + (ev_point \<times> world)) option" where
  "event_loop_step mgr ans p w =
     (case p of
        Ev_top \<Rightarrow> Some (andThen (ASSERT (mgr \<noteq> NULL)) (\<lambda>_. event_loop_top mgr ans w))
      | Ev_deliver evs \<Rightarrow> event_loop_deliver evs w
      | Ev_wait \<Rightarrow> Some (event_loop_wait mgr ans w)
      | Ev_end \<Rightarrow> None)"

text \<open>The steps with a list of answers, as long as nobody else runs.\<close>

fun event_loop_steps :: "addr \<Rightarrow> epoll_answer list \<Rightarrow> ev_point \<Rightarrow> world \<Rightarrow> (fault + (ev_point \<times> world)) option" where
  "event_loop_steps mgr [] p w = Some (Inr (p, w))"
| "event_loop_steps mgr (ans # answers) p w =
     (case event_loop_step mgr ans p w of
        None \<Rightarrow> None
      | Some (Inl e) \<Rightarrow> Some (Inl e)
      | Some (Inr (p, w)) \<Rightarrow> event_loop_steps mgr answers p w)"

lemma has_no_task: "is_tailq (tq w) (wait_q (g_mastersched w)) [] \<Longrightarrow> sched_has_task w = Inr False"
  by (simp add: sched_has_task_def empty_queue_def TAILQ_EMPTY_def get_head_def is_tailq_empty)

lemma idle_steps:
  assumes "mgr \<noteq> NULL" "eventmgrs w mgr = Some m" "em_stop m = 0" "is_tailq (tq w) (wait_q (g_mastersched w)) []"
    and "\<forall>(nsd, evs) \<in> set answers. 0 \<le> nsd" "p = Ev_top \<or> p = Ev_wait"
  shows "\<exists>p'. event_loop_steps mgr answers p w = Some (Inr (p', w)) \<and> (p' = Ev_top \<or> p' = Ev_wait)"
  using assms(5,6)
proof (induction answers arbitrary: p)
  case (Cons ans answers)
  have top: "event_loop_step mgr ans Ev_top w = Some (Inr (Ev_wait, w))"
    using assms(1-3) has_no_task [OF assms(4)] by (simp add: event_loop_step_def event_loop_top_def)
  have wait: "event_loop_step mgr ans Ev_wait w = Some (Inr (Ev_top, w))"
    using assms(2) Cons.prems(1) by (auto simp: event_loop_step_def event_loop_wait_def split: prod.splits)
  show ?case using Cons.IH [of Ev_top] Cons.IH [of Ev_wait] Cons.prems top wait by auto
qed simp

text \<open>C28: As long as no coroutine is ready the event manager makes none ready: whatever events the system reports,
  the loop only waits again and drops them, so a coroutine that waits for an event is not resumed by it.\<close>

theorem event_loop_drops:
  assumes "mgr \<noteq> NULL" "eventmgrs w mgr = Some m" "em_stop m = 0" "is_tailq (tq w) (wait_q (g_mastersched w)) []"
    and "\<forall>(nsd, evs) \<in> set answers. 0 \<le> nsd"
  shows "\<exists>p. event_loop_steps mgr answers Ev_top w = Some (Inr (p, w)) \<and> p \<noteq> Ev_end"
  using idle_steps [OF assms, of Ev_top] by auto

text \<open>A manager at \<open>0x700\<close> that waits, no coroutine is ready.\<close>

definition ex_idle :: world where
  "ex_idle = ex_loop
     \<lparr>eventmgrs := [0x700 \<mapsto> \<lparr>epfd = 6, em_events = 0x800, nevent = 1024, max_timeout = 0, evmgr_coro = 0x4000,
                              em_stop = 0\<rparr>],
      tq := \<lparr>tq_entries = Map.empty, tq_heads = [0x120 \<mapsto> \<lparr>tqh_first = 0, tqh_last = Link_First 0x120\<rparr>]\<rparr>\<rparr>"

theorem event_loop_drops_witness:
  "\<exists>p. event_loop_steps 0x700 [(0, []), (1, [(0x900, EPOLLIN)]), (0, [])] Ev_top ex_idle = Some (Inr (p, ex_idle))"
proof -
  have facts: "(0x700 :: addr) \<noteq> NULL" "em_stop (the (eventmgrs ex_idle 0x700)) = 0"
    "eventmgrs ex_idle 0x700 = Some (the (eventmgrs ex_idle 0x700))"
    "is_tailq (tq ex_idle) (wait_q (g_mastersched ex_idle)) []"
    by (simp_all add: ex_idle_def ex_loop_def is_tailq_def)
  from event_loop_drops [OF facts(1,3,2,4), of "[(0, []), (1, [(0x900, EPOLLIN)]), (0, [])]"]
  show ?thesis by auto
qed

end
