(* ===== verification/Strings.thy ===== *)
theory Strings
  imports Alloc
begin

text \<open>
  src/cs_string.c and src/cs_string.h.  A string is a 32-bit length and a pointer.  Memory is a map from
  the start of a block to its bytes; \<open>None\<close> and \<open>Inl Segv\<close> are accesses outside a block.  \<open>strndup\<close> and
  \<open>strncmp\<close> are those of the C library: the first copies up to a null byte or the given length and
  adds a null byte, the second compares up to a null byte or the given length (of its result only
  the sign is specified).
\<close>

record cs_string =
  str_len :: uint32
  str_data :: addr

type_synonym bytes_mem = "addr \<rightharpoonup> uint8 list"

section \<open>The C library\<close>

text \<open>The bytes that \<open>strndup (s, n)\<close> copies from the block behind \<open>s\<close>.\<close>

fun strn_bytes :: "nat \<Rightarrow> uint8 list \<Rightarrow> uint8 list option" where
  "strn_bytes 0 bs = Some []"
| "strn_bytes (Suc n) [] = None"
| "strn_bytes (Suc n) (b # bs) = (if b = 0 then Some [] else map_option (Cons b) (strn_bytes n bs))"

definition strndup :: "(size_t \<Rightarrow> addr) \<Rightarrow> addr \<Rightarrow> size_t \<Rightarrow> bytes_mem \<Rightarrow> (addr \<times> bytes_mem) option" where
  "strndup malloc s n m = do {
     bs \<leftarrow> m s;
     cs \<leftarrow> strn_bytes (unat n) bs;
     let p = malloc (of_nat (length cs + 1));
     Some (if p = NULL then (NULL, m) else (p, m(p \<mapsto> cs @ [0])))
   }"

fun strncmp :: "uint8 list \<Rightarrow> uint8 list \<Rightarrow> nat \<Rightarrow> int option" where
  "strncmp as bs 0 = Some 0"
| "strncmp (a # as) (b # bs) (Suc n) =
     (if a \<noteq> b then Some (if a < b then -1 else 1) else if a = 0 then Some 0 else strncmp as bs n)"
| "strncmp _ _ (Suc n) = None"

section \<open>The functions\<close>

definition string_init :: cs_string where
  "string_init = \<lparr>str_len = 0, str_data = NULL\<rparr>"

definition string_wf :: "cs_string \<Rightarrow> bool" where
  "string_wf str \<longleftrightarrow> str_len str = 0 \<and> str_data str = NULL \<or> str_len str \<noteq> 0 \<and> str_data str \<noteq> NULL"

definition string_deinit :: "cs_string \<Rightarrow> bytes_mem \<Rightarrow> fault + (cs_string \<times> bytes_mem)" where
  "string_deinit str m =
     andThen (ASSERT (string_wf str)) (\<lambda>_.
     if str_data str \<noteq> NULL
     then andThen (cs_free (str_data str) (\<lambda>p m. m(p := None)) m) (\<lambda>(_, m). Inr (string_init, m))
     else Inr (str, m))"

definition string_empty :: "cs_string \<Rightarrow> fault + bool" where
  "string_empty str = andThen (ASSERT (string_wf str)) (\<lambda>_. Inr (str_len str = 0))"

text \<open>What \<open>string_duplicate\<close> and \<open>string_copy\<close> do once the arguments are checked: the length plus one is
  computed in 32 bits, and the byte at the length is overwritten whatever the size of the copy.\<close>

definition string_fill ::
  "(size_t \<Rightarrow> addr) \<Rightarrow> cs_string \<Rightarrow> addr \<Rightarrow> uint32 \<Rightarrow> bytes_mem \<Rightarrow> fault + (int \<times> cs_string \<times> bytes_mem)" where
  "string_fill malloc dst src srclen m =
     andThen (deref (strndup malloc src (ucast (srclen + 1)) m)) (\<lambda>(p, m).
     if p = NULL then Inr (M_ENOMEM, dst\<lparr>str_data := NULL\<rparr>, m)
     else
       andThen (deref (m p)) (\<lambda>bs.
       if unat srclen < length bs
       then Inr (M_OK, \<lparr>str_len = srclen, str_data = p\<rparr>, m(p \<mapsto> bs[unat srclen := 0]))
       else Inl Segv))"

definition string_duplicate ::
  "(size_t \<Rightarrow> addr) \<Rightarrow> cs_string \<Rightarrow> cs_string \<Rightarrow> bytes_mem \<Rightarrow> fault + (int \<times> cs_string \<times> bytes_mem)" where
  "string_duplicate malloc dst src m =
     andThen (ASSERT (str_len dst = 0 \<and> str_data dst = NULL)) (\<lambda>_.
     andThen (ASSERT (str_len src \<noteq> 0 \<and> str_data src \<noteq> NULL)) (\<lambda>_.
     string_fill malloc dst (str_data src) (str_len src) m))"

definition string_copy ::
  "(size_t \<Rightarrow> addr) \<Rightarrow> cs_string \<Rightarrow> addr \<Rightarrow> uint32 \<Rightarrow> bytes_mem \<Rightarrow> fault + (int \<times> cs_string \<times> bytes_mem)" where
  "string_copy malloc dst src srclen m =
     andThen (ASSERT (str_len dst = 0 \<and> str_data dst = NULL)) (\<lambda>_.
     andThen (ASSERT (src \<noteq> NULL \<and> srclen \<noteq> 0)) (\<lambda>_.
     string_fill malloc dst src srclen m))"

text \<open>The difference of the lengths is an unsigned number.\<close>

definition string_compare :: "cs_string \<Rightarrow> cs_string \<Rightarrow> bytes_mem \<Rightarrow> int option" where
  "string_compare s1 s2 m =
     (if str_len s1 \<noteq> str_len s2 then Some (if str_len s1 - str_len s2 > 0 then 1 else -1)
      else if str_len s1 = 0 then Some 0
      else do { as \<leftarrow> m (str_data s1); bs \<leftarrow> m (str_data s2); strncmp as bs (unat (str_len s1)) })"

section \<open>Searching for a byte\<close>

text \<open>\<open>mem\<close> reads a byte.  The backward search compares addresses, so from the address 0 on it would
  not end.\<close>

partial_function (option) cs_strchr :: "(addr \<rightharpoonup> uint8) \<Rightarrow> addr \<Rightarrow> addr \<Rightarrow> uint8 \<Rightarrow> addr option" where
  "cs_strchr mem p limit c =
     (if p < limit then do {
        b \<leftarrow> mem p;
        (if b = c then Some p else cs_strchr mem (p + 1) limit c)
      } else Some NULL)"

partial_function (option) cs_strrchr :: "(addr \<rightharpoonup> uint8) \<Rightarrow> addr \<Rightarrow> addr \<Rightarrow> uint8 \<Rightarrow> addr option" where
  "cs_strrchr mem p start c =
     (if p \<ge> start then do {
        b \<leftarrow> mem p;
        (if b = c then Some p else cs_strrchr mem (p - 1) start c)
      } else Some NULL)"

section \<open>Lemmas\<close>

lemma unat_succ: "(x :: 'a::len word) \<noteq> - 1 \<Longrightarrow> unat (x + 1) = unat x + 1"
  using unatSuc [of x] by (simp add: add.commute eq_neg_iff_add_eq_0)

lemma unat_widen: "unat (ucast (x :: uint32) :: 64 word) = unat x"
proof -
  have "unat x < 2 ^ LENGTH(32)" by (rule unsigned_less)
  then have "unat x < 2 ^ 64" by simp
  then show ?thesis by (simp add: unsigned_ucast_eq take_bit_word_eq_self take_bit_nat_eq_self)
qed

lemma strn_bytes_no_null:
  "0 \<notin> set as \<Longrightarrow> strn_bytes (length as + 1) (as @ b # rest) = Some (if b = 0 then as else as @ [b])"
  by (induction as) auto

lemma strn_bytes_null:
  "0 \<notin> set as \<Longrightarrow> length as < n \<Longrightarrow> strn_bytes n (as @ 0 # rest) = Some as"
proof (induction as arbitrary: n)
  case Nil
  then show ?case by (cases n) auto
next
  case (Cons a as)
  then show ?case by (cases n) auto
qed

text \<open>A source with at least one byte behind its length: the copy holds exactly its bytes and a null byte.\<close>

lemma strndup_copies:
  assumes "m src = Some bs" "strn_bytes (unat n) bs = Some cs" "malloc (of_nat (length cs + 1)) = p" "p \<noteq> NULL"
  shows "strndup malloc src n m = Some (p, m(p \<mapsto> cs @ [0]))"
  unfolding strndup_def assms(1,2) Option.bind.simps(2) assms(3) Let_def using assms(4) by simp

lemma fill_length: "srclen \<noteq> - 1 \<Longrightarrow> unat (ucast (srclen + 1 :: uint32) :: 64 word) = unat srclen + 1"
  by (simp add: unat_widen unat_succ)

lemma string_fill_ok:
  assumes "m src = Some (as @ b # rest)" "length as = unat srclen" "0 \<notin> set as" "srclen \<noteq> - 1"
    and "malloc (of_nat (length (if b = 0 then as else as @ [b]) + 1)) = p" "p \<noteq> NULL"
  shows "\<exists>tl. string_fill malloc dst src srclen m
           = Inr (M_OK, \<lparr>str_len = srclen, str_data = p\<rparr>, m(p \<mapsto> as @ 0 # tl))"
proof -
  have "strndup malloc src (ucast (srclen + 1)) m
          = Some (p, m(p \<mapsto> (if b = 0 then as else as @ [b]) @ [0]))"
    using strndup_copies [where m = m and src = src and p = p and malloc = malloc, OF assms(1) _ assms(5) assms(6)]
      strn_bytes_no_null [OF assms(3), of b rest]
      fill_length [OF assms(4)] assms(2) by simp
  then show ?thesis using assms(2,6)
    by (auto simp: string_fill_def list_update_append)
qed

text \<open>A null byte before the length: the copy is too short for the byte that is written at the length.\<close>

lemma string_fill_overflow:
  assumes "m src = Some (as @ 0 # rest)" "length as < unat srclen" "0 \<notin> set as" "srclen \<noteq> - 1"
    and "malloc (of_nat (length as + 1)) \<noteq> NULL"
  shows "string_fill malloc dst src srclen m = Inl Segv"
proof -
  have "strndup malloc src (ucast (srclen + 1)) m
          = Some (malloc (of_nat (length as + 1)), m(malloc (of_nat (length as + 1)) \<mapsto> as @ [0]))"
    using strndup_copies [where m = m and src = src and malloc = malloc, OF assms(1) _ refl assms(5)]
      strn_bytes_null [OF assms(3), of _ rest]
      fill_length [OF assms(4)] assms(2) by simp
  then show ?thesis using assms(2,5) by (simp add: string_fill_def)
qed

lemma strncmp_zero:
  "0 \<notin> set (take n as) \<Longrightarrow> n \<le> length as \<Longrightarrow> n \<le> length bs \<Longrightarrow>
   \<exists>r. strncmp as bs n = Some r \<and> (r = 0 \<longleftrightarrow> take n as = take n bs)"
proof (induction as bs n rule: strncmp.induct)
  case (2 a as b bs n)
  then show ?case by auto
qed auto

lemma strchr_finds:
  assumes "p \<le> q" "q < limit" "mem q = Some c" "\<forall>x. p \<le> x \<and> x < q \<longrightarrow> (\<exists>b. mem x = Some b \<and> b \<noteq> c)"
  shows "cs_strchr mem p limit c = Some q"
  using assms
proof (induction "unat (q - p)" arbitrary: p)
  case 0
  then have "p = q" by (metis eq_iff_diff_eq_0 unat_eq_0)
  with 0 show ?case by (simp add: cs_strchr.simps [of mem q])
next
  case (Suc n)
  then have "p < q" by (metis Suc_neq_Zero diff_self order_le_less unat_0)
  then have "p + 1 \<le> q" by (rule inc_le)
  moreover have "n = unat (q - (p + 1))"
  proof -
    have "q - p \<noteq> 0" using \<open>p < q\<close> by auto
    then have "unat (q - p - 1) = unat (q - p) - 1" by (simp add: unat_minus_one)
    then show ?thesis using Suc.hyps(2) by (simp add: diff_diff_add)
  qed
  moreover have "p \<noteq> - 1" using \<open>p < q\<close> by (metis word_not_simps(3))
  then have "p \<le> x" if "p + 1 \<le> x" for x using that by (simp add: word_le_nat_alt unat_succ)
  then have "\<forall>x. p + 1 \<le> x \<and> x < q \<longrightarrow> (\<exists>b. mem x = Some b \<and> b \<noteq> c)"
    using Suc.prems(4) by blast
  ultimately have "cs_strchr mem (p + 1) limit c = Some q" using Suc.hyps(1) Suc.prems(2,3) by blast
  moreover obtain b where "mem p = Some b" "b \<noteq> c" using Suc.prems(4) \<open>p < q\<close> by auto
  moreover have "p < limit" using \<open>p < q\<close> Suc.prems(2) by simp
  ultimately show ?case by (simp add: cs_strchr.simps [of mem p])
qed

end
