(* ===== verification/Printf.thy ===== *)
theory Printf
  imports Prelude "HOL-Library.Signed_Division"
begin

text \<open>
  Numbers and formatted text of src/cs_util.c: \<open>_cs_atoi\<close>, \<open>cs_valid_port\<close>, \<open>_scnprintf\<close>,
  \<open>_vscnprintf\<close> and the clock functions.  Text is a list of characters, one per byte.  The C
  library's \<open>vsnprintf\<close> is written out: its argument is the text the format and its arguments
  produce (\<open>None\<close> is an encoding error), and \<open>None\<close> as a result is a write outside the buffer.
\<close>

section \<open>Numbers as text\<close>

text \<open>What the conversions \<open>%d\<close>, \<open>%02x\<close> and \<open>%08x\<close> print.\<close>

definition digit :: "nat \<Rightarrow> char" where
  "digit d = char_of (if d < 10 then 48 + d else 87 + d)"

fun dec_nat :: "nat \<Rightarrow> string" where
  "dec_nat n = (if n < 10 then [digit n] else dec_nat (n div 10) @ [digit (n mod 10)])"

fun hex_nat :: "nat \<Rightarrow> string" where
  "hex_nat n = (if n < 16 then [digit n] else hex_nat (n div 16) @ [digit (n mod 16)])"

declare dec_nat.simps [simp del] hex_nat.simps [simp del]

definition fmt_d :: "int \<Rightarrow> string" where
  "fmt_d i = (if i < 0 then CHR ''-'' # dec_nat (nat (- i)) else dec_nat (nat i))"

definition fmt_x :: "nat \<Rightarrow> nat \<Rightarrow> string" where
  "fmt_x w n = replicate (w - length (hex_nat n)) (CHR ''0'') @ hex_nat n"

text \<open>
  \<open>_cs_atoi\<close> reads \<open>n\<close> bytes at \<open>line\<close>; \<open>None\<close> is a read behind the bytes that are there or a
  signed overflow of \<open>value\<close>.
\<close>

definition int_op :: "int \<Rightarrow> int option" where
  "int_op i = (if int_range i then Some i else None)"

fun cs_atoi_loop :: "nat \<Rightarrow> string \<Rightarrow> int \<Rightarrow> int option" where
  "cs_atoi_loop 0 line val = Some (if val < 0 then - 1 else val)"
| "cs_atoi_loop (Suc n) [] val = None"
| "cs_atoi_loop (Suc n) (c # line) val =
     (if of_char c < (48 :: nat) \<or> of_char c > (57 :: nat) then Some (- 1)
      else do {
        v \<leftarrow> int_op (val * 10);
        v \<leftarrow> int_op (v + (of_char c - 48));
        cs_atoi_loop n line v
      })"

definition cs_atoi :: "string \<Rightarrow> size_t \<Rightarrow> int option" where
  "cs_atoi line n = (if n = 0 then Some (- 1) else cs_atoi_loop (unat n) line 0)"

definition cs_valid_port :: "int \<Rightarrow> bool" where
  "cs_valid_port n = (if n < 1 \<or> n > 65535 then False else True)"

section \<open>Formatted text into a buffer\<close>

text \<open>\<open>vsnprintf (buf + off, n, ...)\<close>: the length of the text, and the buffer afterwards.\<close>

definition vsnprintf :: "string option \<Rightarrow> size_t \<Rightarrow> nat \<Rightarrow> string \<Rightarrow> (int \<times> string) option" where
  "vsnprintf txt n off buf =
     (case txt of None \<Rightarrow> Some (- 1, buf)
      | Some s \<Rightarrow>
          if INT_MAX < int (length s) then Some (- 1, buf)
          else if n = 0 then Some (int (length s), buf)
          else
            let w = take (unat n - 1) s @ [CHR 0x00]
            in if off + length w \<le> length buf
               then Some (int (length s), take off buf @ w @ drop (off + length w) buf)
               else None)"

definition cast_int :: "size_t \<Rightarrow> int" where
  "cast_int n = sint (ucast n :: 32 word)"

definition vscnprintf :: "string option \<Rightarrow> size_t \<Rightarrow> nat \<Rightarrow> string \<Rightarrow> (int \<times> string) option" where
  "vscnprintf txt n off buf = do {
     (k, buf) \<leftarrow> vsnprintf txt n off buf;
     Some (if k \<le> 0 then 0 else if k < cast_int n then k else cast_int (n - 1), buf)
   }"

definition scnprintf :: "string option \<Rightarrow> size_t \<Rightarrow> nat \<Rightarrow> string \<Rightarrow> (int \<times> string) option" where
  "scnprintf txt n off buf = vscnprintf txt n off buf"

text \<open>The idiom \<open>len += cs_scnprintf (buf + len, size - len, ...)\<close> on a buffer of \<open>sz\<close> bytes.\<close>

definition append_text :: "int \<Rightarrow> string option \<Rightarrow> int \<times> string \<Rightarrow> (int \<times> string) option" where
  "append_text sz txt = (\<lambda>(n, buf). do {
     (k, buf) \<leftarrow> scnprintf txt (of_int (sz - n)) (nat n) buf;
     Some (n + k, buf)
   })"

section \<open>The clock\<close>

text \<open>
  \<open>gettimeofday\<close> is a parameter: its status, and the seconds and microseconds it stores.  \<open>None\<close>
  is an overflow of 64 bits.
\<close>

definition cs_usec_now :: "int \<times> int \<times> int \<Rightarrow> int option" where
  "cs_usec_now = (\<lambda>(status, sec, usec).
     if status < 0 then Some (- 1)
     else
       let t = sec * 1000000; u = t + usec
       in if \<bar>t\<bar> < 2 ^ 63 \<and> \<bar>u\<bar> < 2 ^ 63 then Some u else None)"

definition cs_msec_now :: "int \<times> int \<times> int \<Rightarrow> int option" where
  "cs_msec_now now = map_option (\<lambda>u. u sdiv 1000) (cs_usec_now now)"

section \<open>Numbers: lemmas\<close>

text \<open>The value of a list of decimal digits.\<close>

definition is_digit :: "char \<Rightarrow> bool" where
  "is_digit c \<longleftrightarrow> 48 \<le> (of_char c :: nat) \<and> (of_char c :: nat) \<le> 57"

fun dec_value :: "int \<Rightarrow> string \<Rightarrow> int" where
  "dec_value v [] = v"
| "dec_value v (c # cs) = dec_value (v * 10 + (of_char c - 48)) cs"

lemma of_char_int: "(of_char c :: int) = int (of_char c)"
  by (rule of_nat_of_char [symmetric])

lemma digit_bounds: "is_digit c \<Longrightarrow> 0 \<le> of_char c - (48 :: int) \<and> of_char c - (48 :: int) \<le> 9"
  unfolding is_digit_def of_char_int by linarith

lemma dec_value_mono: "list_all is_digit cs \<Longrightarrow> 0 \<le> v \<Longrightarrow> v \<le> dec_value v cs"
proof (induction cs arbitrary: v)
  case (Cons c cs)
  let ?w = "v * 10 + (of_char c - 48) :: int"
  have "v \<le> ?w" "0 \<le> ?w" using digit_bounds [of c] Cons.prems by auto
  then show ?case using Cons.IH [of ?w] Cons.prems by simp
qed simp

lemma dec_value_append: "dec_value v (as @ bs) = dec_value (dec_value v as) bs"
  by (induction v as rule: dec_value.induct) auto

text \<open>All bytes are digits: the value, or an overflow as soon as it does not fit.\<close>

lemma atoi_loop_digits:
  assumes "list_all is_digit cs" "0 \<le> v" "v \<le> INT_MAX"
  shows "cs_atoi_loop (length cs) (cs @ rest) v
           = (if dec_value v cs \<le> INT_MAX then Some (dec_value v cs) else None)"
  using assms
proof (induction cs arbitrary: v)
  case Nil
  then show ?case by simp
next
  case (Cons c cs)
  let ?w = "v * 10 + (of_char c - 48) :: int"
  have c: "is_digit c" and cs: "list_all is_digit cs" using Cons.prems by auto
  have b: "0 \<le> of_char c - (48 :: int)" "of_char c - (48 :: int) \<le> 9" using digit_bounds [OF c] by auto
  have w: "0 \<le> ?w" using b Cons.prems by auto
  have nd: "\<not> (of_char c < (48 :: nat) \<or> of_char c > (57 :: nat))" using c by (auto simp: is_digit_def)
  show ?case
  proof (cases "?w \<le> INT_MAX")
    case True
    then have "int_op (v * 10) = Some (v * 10)" "int_op ?w = Some ?w"
      using b w Cons.prems by (auto simp: int_op_def int_range_def INT_MIN_def)
    then show ?thesis using Cons.IH [OF cs w True] nd by simp
  next
    case False
    then have "\<not> dec_value v (c # cs) \<le> INT_MAX" using dec_value_mono [OF cs w] by simp
    moreover have "Option.bind (int_op (v * 10)) (\<lambda>x. int_op (x + (of_char c - 48))) = None"
      using False by (auto simp: int_op_def int_range_def)
    ultimately show ?thesis using nd
      by (auto simp: int_op_def int_range_def)
  qed
qed

text \<open>A byte that is no digit, before the value overflows: the error code.\<close>

lemma atoi_loop_no_digit:
  assumes "list_all is_digit cs" "0 \<le> v" "dec_value v cs \<le> INT_MAX" "\<not> is_digit c" "length cs < n"
  shows "cs_atoi_loop n (cs @ c # rest) v = Some (- 1)"
  using assms
proof (induction cs arbitrary: v n)
  case Nil
  then show ?case by (cases n) (auto simp: is_digit_def)
next
  case (Cons d cs)
  let ?w = "v * 10 + (of_char d - 48) :: int"
  obtain k where n: "n = Suc k" using Cons.prems by (cases n) auto
  have d: "is_digit d" and cs: "list_all is_digit cs" using Cons.prems by auto
  have b: "0 \<le> of_char d - (48 :: int)" "of_char d - (48 :: int) \<le> 9" using digit_bounds [OF d] by auto
  have w: "0 \<le> ?w" using b Cons.prems by auto
  have "?w \<le> INT_MAX" using dec_value_mono [OF cs w] Cons.prems by simp
  then have "int_op (v * 10) = Some (v * 10)" "int_op ?w = Some ?w"
    using b w Cons.prems by (auto simp: int_op_def int_range_def INT_MIN_def)
  then show ?case using Cons.IH [OF cs w, of k] Cons.prems n d
    by (simp add: is_digit_def)
qed

lemma digit_is_digit: "d < 10 \<Longrightarrow> is_digit (digit d)"
  by (simp add: is_digit_def digit_def)

lemma digit_value: "d < 10 \<Longrightarrow> of_char (digit d) - 48 = int d"
  by (simp add: digit_def of_char_int)

lemma dec_nat_digits: "list_all is_digit (dec_nat n)"
proof (induction n rule: dec_nat.induct)
  case (1 n)
  then show ?case by (cases "n < 10") (simp_all add: dec_nat.simps [of n] digit_is_digit)
qed

lemma dec_nat_value: "dec_value 0 (dec_nat n) = int n"
proof (induction n rule: dec_nat.induct)
  case (1 n)
  show ?case
  proof (cases "n < 10")
    case True
    then show ?thesis by (simp add: dec_nat.simps [of n] digit_value)
  next
    case False
    have "int (n div 10) * 10 + int (n mod 10) = int n"
      by (metis div_mod_decomp mult.commute of_nat_add of_nat_mult of_nat_numeral)
    then show ?thesis using 1 False by (simp add: dec_nat.simps [of n] dec_value_append digit_value)
  qed
qed

lemma dec_nat_not_Nil [simp]: "dec_nat n \<noteq> []"
  by (subst dec_nat.simps) simp

lemma dec_nat_length: "n < 10 ^ k \<Longrightarrow> 0 < k \<Longrightarrow> length (dec_nat n) \<le> k"
proof (induction k arbitrary: n)
  case (Suc k)
  show ?case
  proof (cases "n < 10")
    case True
    then show ?thesis by (simp add: dec_nat.simps [of n])
  next
    case False
    then have "n div 10 < 10 ^ k" "0 < k" using Suc.prems by (auto simp: less_mult_imp_div_less intro: Nat.gr0I)
    then show ?thesis using Suc.IH [of "n div 10"] False by (simp add: dec_nat.simps [of n])
  qed
qed simp

section \<open>Formatted text: lemmas\<close>

lemma sint_small:
  assumes "0 \<le> k" "k < 2 ^ 31"
  shows "cast_int (of_int k) = k"
proof -
  have "unsigned (of_int k :: size_t) = k" using assms by (simp add: unsigned_of_int take_bit_int_eq_self)
  then have "uint (ucast (of_int k :: size_t) :: 32 word) = k"
    using assms by (simp add: unsigned_ucast_eq take_bit_int_eq_self)
  then show ?thesis unfolding cast_int_def
    using assms by (simp add: sint_uint signed_take_bit_int_eq_self)
qed

text \<open>What \<open>append_text\<close> keeps: \<open>n\<close> bytes of text at the start of a buffer of \<open>sz\<close> bytes, cut off at \<open>sz - 1\<close>.\<close>

definition holds :: "int \<Rightarrow> string \<Rightarrow> int \<times> string \<Rightarrow> bool" where
  "holds sz acc = (\<lambda>(n, buf).
     int (length buf) = sz \<and> n = int (length (take (nat sz - 1) acc)) \<and>
     take (nat n) buf = take (nat sz - 1) acc)"

lemma holds_start: "0 < sz \<Longrightarrow> int (length buf) = sz \<Longrightarrow> holds sz [] (0, buf)"
  by (simp add: holds_def)

text \<open>An append is the concatenation of the texts, cut off at the end of the buffer.\<close>

lemma append_text_holds:
  assumes "holds sz acc st" "0 < sz" "sz \<le> INT_MAX" "int (length s) \<le> INT_MAX"
  shows "\<exists>st'. append_text sz (Some s) st = Some st' \<and> holds sz (acc @ s) st'"
proof -
  obtain n buf where st: "st = (n, buf)" by (cases st)
  define a where "a = take (nat sz - 1) acc"
  define r where "r = nat (sz - n)"
  have n: "n = int (length a)" "length a \<le> nat sz - 1" "take (length a) buf = a" "length buf = nat sz"
    using assms(1) by (auto simp: st holds_def a_def)
  have r: "0 < r" "sz - n = int r" "length a + r = nat sz" using n assms(2) by (auto simp: r_def)
  have small: "int r < 2 ^ 31" using r n assms(3) by (auto simp: INT_MAX_def)
  have ur: "unat (of_int (sz - n) :: size_t) = r" "(of_int (sz - n) :: size_t) \<noteq> 0"
  proof -
    show "unat (of_int (sz - n) :: size_t) = r" using r small by (simp add: unat_of_nat)
    then show "(of_int (sz - n) :: size_t) \<noteq> 0" using r by (auto simp del: of_int_of_nat_eq)
  qed
  have cr: "cast_int (of_int (sz - n)) = int r" using sint_small [of "int r"] r small by simp
  have "of_int (sz - n) - 1 = (of_int (int r - 1) :: size_t)" using r by simp
  then have cr1: "cast_int (of_int (sz - n) - 1) = int r - 1"
    using sint_small [of "int r - 1"] r small by simp
  let ?w = "take (r - 1) s @ [CHR 0x00]"
  let ?k = "if length s < r then int (length s) else int r - 1"
  have fits: "length a + length ?w \<le> length buf" using r n by simp
  have "append_text sz (Some s) st
          = Some (n + ?k, take (length a) buf @ ?w @ drop (length a + length ?w) buf)"
    using fits ur cr cr1 n assms(4) r
    by (auto simp: append_text_def scnprintf_def vscnprintf_def vsnprintf_def st Let_def)
  moreover have "holds sz (acc @ s) (n + ?k, take (length a) buf @ ?w @ drop (length a + length ?w) buf)"
  proof -
    have "take (nat sz - 1) (acc @ s) = a @ take (nat sz - 1 - length acc) s"
      by (simp add: a_def)
    also have "take (nat sz - 1 - length acc) s = take (r - 1) s"
    proof (cases "length acc \<le> nat sz - 1")
      case True
      then have "nat sz - 1 - length acc = r - 1" using r by (simp add: a_def)
      then show ?thesis by simp
    next
      case False
      then show ?thesis using r by (simp add: a_def)
    qed
    finally have t: "take (nat sz - 1) (acc @ s) = a @ take (r - 1) s" .
    have k: "?k = int (length (take (r - 1) s))" using r by auto
    show ?thesis unfolding holds_def prod.case t k
      using n r fits by (auto simp: nat_int_add min_def)
  qed
  ultimately show ?thesis by blast
qed

lemma append_text_error: "append_text sz None st = Some st"
  by (cases st) (simp add: append_text_def scnprintf_def vscnprintf_def vsnprintf_def)

end
