(* ===== verification/Log.thy ===== *)
theory Log
  imports Printf
begin

text \<open>
  src/cs_log.c and src/cs_log.h, and the two functions of src/cs_util.c that write to the log,
  \<open>cs_stacktrace\<close> and \<open>cs_assert\<close>.  The system is a parameter: a record of the calls the code makes
  and a state of any type they change.  A local array holds arbitrary bytes at first
  (\<open>c_garbage\<close>).  \<open>None\<close> is undefined behaviour, in particular a write outside an array.  The result
  of a function that may abort carries a flag that says whether it did.  That \<open>errno\<close> is
  saved and restored is not modelled.
\<close>

record logger =
  log_name :: "string option"
  log_level :: int
  log_fd :: int
  log_nerror :: int

record 'o libc =
  c_open :: "string \<Rightarrow> 'o \<Rightarrow> int \<times> 'o"
  c_close :: "int \<Rightarrow> 'o \<Rightarrow> 'o"
  c_write :: "int \<Rightarrow> string \<Rightarrow> 'o \<Rightarrow> int \<times> 'o"
  c_asctime :: "'o \<Rightarrow> string"
  c_strerror :: "'o \<Rightarrow> string"
  c_garbage :: "'o \<Rightarrow> nat \<Rightarrow> char"

text \<open>The place of a call: \<open>__FILE__\<close> and \<open>__LINE__\<close>.\<close>

type_synonym site = "string \<times> int"

section \<open>The levels\<close>

abbreviation (input) LOG_EMERG :: int where "LOG_EMERG \<equiv> 0"
abbreviation (input) LOG_ALERT :: int where "LOG_ALERT \<equiv> 1"
abbreviation (input) LOG_WARN :: int where "LOG_WARN \<equiv> 4"
abbreviation (input) LOG_PVERB :: int where "LOG_PVERB \<equiv> 11"

definition LOG_MAX_LEN :: int where
  "LOG_MAX_LEN = 256"

definition STDERR_FILENO :: int where
  "STDERR_FILENO = 2"

definition log_loggable :: "int \<Rightarrow> logger \<Rightarrow> bool" where
  "log_loggable level l = (\<not> level > log_level l)"

definition log_clamp :: "int \<Rightarrow> int" where
  "log_clamp level =
     (let m = if level < LOG_PVERB then level else LOG_PVERB
      in if LOG_EMERG > m then LOG_EMERG else m)"

section \<open>Writing a line\<close>

definition new_array :: "'o libc \<Rightarrow> int \<Rightarrow> 'o \<Rightarrow> string" where
  "new_array c sz os = map (c_garbage c os) [0..<nat sz]"

text \<open>\<open>buf[len++] = b\<close>.\<close>

definition push_byte :: "char \<Rightarrow> int \<times> string \<Rightarrow> (int \<times> string) option" where
  "push_byte b = (\<lambda>(n, buf).
     if 0 \<le> n \<and> n < int (length buf) then Some (n + 1, buf[nat n := b]) else None)"

text \<open>The write at the end of each function, and the count of its failures.\<close>

definition log_write :: "'o libc \<Rightarrow> int \<Rightarrow> int \<times> string \<Rightarrow> logger \<times> 'o \<Rightarrow> (logger \<times> 'o) option" where
  "log_write c fd = (\<lambda>(len, buf) (l, os).
     let (n, os) = c_write c fd (take (nat len) buf) os in
     if n < 0 then do { e \<leftarrow> int_op (log_nerror l + 1); Some (l\<lparr>log_nerror := e\<rparr>, os) }
     else Some (l, os))"

definition log_header :: "string \<Rightarrow> string \<Rightarrow> string" where
  "log_header timestr level = ''['' @ take (length timestr - 1) timestr @ ''] ['' @ level @ ''] ''"

definition log_trailer :: "site \<Rightarrow> string" where
  "log_trailer = (\<lambda>(file, line). '' ['' @ file @ '':'' @ fmt_d line @ '']'')"

definition log_line ::
  "'o libc \<Rightarrow> string \<Rightarrow> site \<Rightarrow> bool \<Rightarrow> string option \<Rightarrow> logger \<times> 'o \<Rightarrow> (bool \<times> logger \<times> 'o) option" where
  "log_line c level at panic msg = (\<lambda>(l, os).
     if log_fd l < 0 then Some (False, l, os)
     else do {
       let timestr = c_asctime c os;
       st \<leftarrow> append_text LOG_MAX_LEN (Some (log_header timestr level)) (0, new_array c LOG_MAX_LEN os);
       st \<leftarrow> append_text LOG_MAX_LEN msg st;
       st \<leftarrow> append_text LOG_MAX_LEN (Some (log_trailer at)) st;
       st \<leftarrow> push_byte (CHR 0x0A) st;
       (l, os) \<leftarrow> log_write c (log_fd l) st (l, os);
       Some (panic, l, os)
     })"

definition log_stderr :: "'o libc \<Rightarrow> string option \<Rightarrow> logger \<times> 'o \<Rightarrow> (logger \<times> 'o) option" where
  "log_stderr c msg = (\<lambda>(l, os). do {
     st \<leftarrow> append_text (4 * LOG_MAX_LEN) msg (0, new_array c (4 * LOG_MAX_LEN) os);
     st \<leftarrow> push_byte (CHR 0x0A) st;
     log_write c STDERR_FILENO st (l, os)
   })"

section \<open>The macros\<close>

definition loga :: "'o libc \<Rightarrow> string \<Rightarrow> site \<Rightarrow> string option \<Rightarrow> logger \<times> 'o \<Rightarrow> (bool \<times> logger \<times> 'o) option" where
  "loga c level at msg = log_line c level at False msg"

definition log_if ::
  "'o libc \<Rightarrow> int \<Rightarrow> string \<Rightarrow> bool \<Rightarrow> site \<Rightarrow> string option \<Rightarrow> logger \<times> 'o \<Rightarrow> (bool \<times> logger \<times> 'o) option" where
  "log_if c level txt panic at msg = (\<lambda>(l, os).
     if log_loggable level l then log_line c txt at panic msg (l, os) else Some (False, l, os))"

definition log_error where
  "log_error c at msg = log_if c LOG_ALERT ''LOG_ALERT'' False at msg"

definition log_warn where
  "log_warn c at msg = log_if c LOG_WARN ''LOG_WARN'' False at msg"

definition log_panic where
  "log_panic c at msg = log_if c LOG_EMERG ''LOG_EMERG'' True at msg"

section \<open>The logger\<close>

text \<open>A log file that does not open is reported on the standard error stream.\<close>

definition log_init :: "'o libc \<Rightarrow> int \<Rightarrow> string option \<Rightarrow> logger \<times> 'o \<Rightarrow> (rstatus_t \<times> logger \<times> 'o) option" where
  "log_init c level name = (\<lambda>(l, os).
     let l = l\<lparr>log_level := log_clamp level, log_name := name\<rparr> in
     case name of
       None \<Rightarrow> Some (0, l\<lparr>log_fd := STDERR_FILENO\<rparr>, os)
     | Some file \<Rightarrow>
         if file = [] then Some (0, l\<lparr>log_fd := STDERR_FILENO\<rparr>, os)
         else
           let (fd, os) = c_open c file os; l = l\<lparr>log_fd := fd\<rparr> in
           if fd < 0 then do {
             (l, os) \<leftarrow> log_stderr c (Some (''opening log file '' @ [CHR 0x27] @ file @ [CHR 0x27] @
                          '' failed: '' @ c_strerror c os)) (l, os);
             Some (- 1, l, os)
           } else Some (0, l, os))"

definition log_deinit :: "'o libc \<Rightarrow> logger \<times> 'o \<Rightarrow> logger \<times> 'o" where
  "log_deinit c = (\<lambda>(l, os).
     if log_fd l < 0 \<or> log_fd l = STDERR_FILENO then (l, os) else (l, c_close c (log_fd l) os))"

text \<open>\<open>open (NULL, ...)\<close> follows a null pointer; the name is null only when the stream is the standard error.\<close>

definition log_reopen :: "'o libc \<Rightarrow> logger \<times> 'o \<Rightarrow> (logger \<times> 'o) option" where
  "log_reopen c = (\<lambda>(l, os).
     if log_fd l \<noteq> STDERR_FILENO then do {
       let os = c_close c (log_fd l) os;
       file \<leftarrow> log_name l;
       let (fd, os) = c_open c file os;
       let l = l\<lparr>log_fd := fd\<rparr>;
       (if fd < 0 then
          log_stderr c (Some (''reopening log file '' @ [CHR 0x27] @ file @ [CHR 0x27] @
            '' failed, ignored: '' @ c_strerror c os)) (l, os)
        else Some (l, os))
     } else Some (l, os))"

definition log_level_up :: "'o libc \<Rightarrow> site \<Rightarrow> logger \<times> 'o \<Rightarrow> (bool \<times> logger \<times> 'o) option" where
  "log_level_up c at = (\<lambda>(l, os).
     if log_level l < LOG_PVERB then
       let l = l\<lparr>log_level := log_level l + 1\<rparr> in
       loga c ''LOG_INFO'' at (Some (''up log level to '' @ fmt_d (log_level l))) (l, os)
     else Some (False, l, os))"

definition log_level_down :: "'o libc \<Rightarrow> site \<Rightarrow> logger \<times> 'o \<Rightarrow> (bool \<times> logger \<times> 'o) option" where
  "log_level_down c at = (\<lambda>(l, os).
     if log_level l > LOG_EMERG then
       let l = l\<lparr>log_level := log_level l - 1\<rparr> in
       loga c ''LOG_INFO'' at (Some (''down log level to '' @ fmt_d (log_level l))) (l, os)
     else Some (False, l, os))"

definition log_level_set :: "'o libc \<Rightarrow> site \<Rightarrow> int \<Rightarrow> logger \<times> 'o \<Rightarrow> (bool \<times> logger \<times> 'o) option" where
  "log_level_set c at level = (\<lambda>(l, os).
     let l = l\<lparr>log_level := log_clamp level\<rparr> in
     loga c ''LOG_INFO'' at (Some (''set log level to '' @ fmt_d (log_level l))) (l, os))"

section \<open>The hexadecimal dump\<close>

definition HEX_LEN :: int where
  "HEX_LEN = 8 * LOG_MAX_LEN"

definition hex_gap :: "nat \<Rightarrow> string" where
  "hex_gap i = (if i = 7 then ''  '' else '' '')"

text \<open>\<open>isprint\<close> of the C locale.\<close>

definition isprint :: "char \<Rightarrow> bool" where
  "isprint ch \<longleftrightarrow> 32 \<le> (of_char ch :: nat) \<and> (of_char ch :: nat) \<le> 126"

definition print_char :: "char \<Rightarrow> char" where
  "print_char ch = (if isprint ch then ch else CHR ''.'')"

text \<open>
  The three inner loops.  \<open>data\<close> holds the bytes that can be read; the first and the third advance
  over them while \<open>datalen\<close> is not zero.
\<close>

fun hexdump_bytes :: "nat \<Rightarrow> string \<Rightarrow> int \<Rightarrow> int \<times> string \<Rightarrow> (nat \<times> int \<times> string) option" where
  "hexdump_bytes i data datalen st =
     (if datalen \<noteq> 0 \<and> i < 16 then
        (case data of [] \<Rightarrow> None
         | ch # data' \<Rightarrow>
             Option.bind (append_text HEX_LEN (Some (fmt_x 2 (of_char ch) @ hex_gap i)) st)
               (hexdump_bytes (i + 1) data' (datalen - 1)))
      else Some (i, st))"

function hexdump_pad :: "nat \<Rightarrow> int \<times> string \<Rightarrow> (int \<times> string) option" where
  "hexdump_pad i st =
     (if i < 16 then
        Option.bind (append_text HEX_LEN (Some (''  '' @ hex_gap i)) st) (hexdump_pad (i + 1))
      else Some st)"
  by pat_completeness auto
termination
  by (relation "measure (\<lambda>(i, st). 16 - i)") auto

fun hexdump_chars :: "nat \<Rightarrow> string \<Rightarrow> int \<Rightarrow> int \<times> string \<Rightarrow> (string \<times> int \<times> int \<times> string) option" where
  "hexdump_chars i data datalen st =
     (if datalen \<noteq> 0 \<and> i < 16 then
        (case data of [] \<Rightarrow> None
         | ch # data' \<Rightarrow>
             Option.bind (append_text HEX_LEN (Some [print_char ch]) st)
               (hexdump_chars (i + 1) data' (datalen - 1)))
      else Some (data, datalen, st))"

declare hexdump_bytes.simps [simp del] hexdump_pad.simps [simp del] hexdump_chars.simps [simp del]

text \<open>One line.\<close>

definition hexdump_row :: "nat \<Rightarrow> string \<Rightarrow> int \<Rightarrow> int \<times> string \<Rightarrow> (string \<times> int \<times> int \<times> string) option" where
  "hexdump_row off data datalen st = do {
     st \<leftarrow> append_text HEX_LEN (Some (fmt_x 8 off @ ''  '')) st;
     (i, st) \<leftarrow> hexdump_bytes 0 data datalen st;
     st \<leftarrow> hexdump_pad i st;
     st \<leftarrow> append_text HEX_LEN (Some ''  |'') st;
     (data, datalen, st) \<leftarrow> hexdump_chars 0 data datalen st;
     st \<leftarrow> append_text HEX_LEN (Some ([CHR ''|'', CHR 0x0A])) st;
     Some (data, datalen, st)
   }"

partial_function (option) hexdump_loop ::
  "nat \<Rightarrow> string \<Rightarrow> int \<Rightarrow> int \<times> string \<Rightarrow> (int \<times> string) option" where
  "hexdump_loop off data datalen st =
     (if datalen \<noteq> 0 \<and> fst st < HEX_LEN - 1 then
        Option.bind (hexdump_row off data datalen st)
          (\<lambda>r. hexdump_loop (off + 16) (fst r) (fst (snd r)) (snd (snd r)))
      else Some st)"

definition log_hexdump :: "'o libc \<Rightarrow> string \<Rightarrow> int \<Rightarrow> logger \<times> 'o \<Rightarrow> (logger \<times> 'o) option" where
  "log_hexdump c data datalen = (\<lambda>(l, os).
     if log_fd l < 0 then Some (l, os)
     else do {
       st \<leftarrow> hexdump_loop 0 data datalen (0, new_array c HEX_LEN os);
       log_write c (log_fd l) st (l, os)
     })"

definition loga_hexdump ::
  "'o libc \<Rightarrow> string \<Rightarrow> site \<Rightarrow> string \<Rightarrow> int \<Rightarrow> string option \<Rightarrow> logger \<times> 'o \<Rightarrow> (logger \<times> 'o) option" where
  "loga_hexdump c level at data datalen msg w = do {
     (_, w) \<leftarrow> log_line c level at False msg w;
     log_hexdump c data datalen w
   }"

section \<open>Assertions\<close>

text \<open>
  \<open>symbols\<close> is what \<open>backtrace_symbols\<close> returns for the frames of the stack.
\<close>

fun stacktrace_loop :: "'o libc \<Rightarrow> site \<Rightarrow> nat \<Rightarrow> string list \<Rightarrow> logger \<times> 'o \<Rightarrow> (logger \<times> 'o) option" where
  "stacktrace_loop c at j [] w = Some w"
| "stacktrace_loop c at j (s # ss) w =
     Option.bind (loga c ''LOG_WARN'' at (Some (''['' @ fmt_d (int j) @ ''] '' @ s)) w)
       (\<lambda>(_, w). stacktrace_loop c at (j + 1) ss w)"

definition cs_stacktrace ::
  "'o libc \<Rightarrow> site \<Rightarrow> string list option \<Rightarrow> nat \<Rightarrow> logger \<times> 'o \<Rightarrow> (logger \<times> 'o) option" where
  "cs_stacktrace c at symbols skip_count w =
     (case symbols of None \<Rightarrow> Some w
      | Some syms \<Rightarrow> stacktrace_loop c at 0 (drop (skip_count + 1) syms) w)"

definition cs_assert ::
  "'o libc \<Rightarrow> site \<Rightarrow> string list option \<Rightarrow> string \<Rightarrow> site \<Rightarrow> bool \<Rightarrow> logger \<times> 'o \<Rightarrow> (bool \<times> logger \<times> 'o) option" where
  "cs_assert c at symbols cond = (\<lambda>(file, line) panic w. do {
     (_, w) \<leftarrow> log_error c at (Some (''assert '' @ [CHR 0x27] @ cond @ [CHR 0x27] @
                 '' failed @ ('' @ file @ '', '' @ fmt_d line @ '')'')) w;
     (if panic then do { w \<leftarrow> cs_stacktrace c at symbols 1 w; Some (True, w) } else Some (False, w))
   })"

section \<open>Lines: lemmas\<close>

lemma new_array_length [simp]: "0 \<le> sz \<Longrightarrow> int (length (new_array c sz os)) = sz"
  by (simp add: new_array_def)

lemma push_byte_holds:
  assumes "holds sz acc (n, buf)" "0 < sz"
  shows "\<exists>buf'. push_byte b (n, buf) = Some (n + 1, buf') \<and>
           take (nat (n + 1)) buf' = take (nat sz - 1) acc @ [b]"
proof -
  have n: "n = int (length (take (nat sz - 1) acc))" "length buf = nat sz" "take (nat n) buf = take (nat sz - 1) acc"
    using assms by (auto simp: holds_def)
  then have lt: "nat n < length buf" using assms(2) by auto
  have "take (nat (n + 1)) (buf[nat n := b]) = take (nat n) buf @ [b]"
  proof -
    have "0 \<le> n" using n by simp
    then have "nat (n + 1) = Suc (nat n)" by (simp add: nat_add_distrib)
    then show ?thesis using lt by (simp add: take_Suc_conv_app_nth)
  qed
  then show ?thesis using n lt by (auto simp: push_byte_def)
qed

text \<open>The error count goes up by one when the write fails.\<close>

definition count_error :: "int \<Rightarrow> logger \<Rightarrow> logger" where
  "count_error r l = (if r < 0 then l\<lparr>log_nerror := log_nerror l + 1\<rparr> else l)"

definition nerror_ok :: "logger \<Rightarrow> bool" where
  "nerror_ok l \<longleftrightarrow> 0 \<le> log_nerror l \<and> log_nerror l < INT_MAX"

lemma log_write_ok:
  assumes "nerror_ok l" "c_write c fd (take (nat n) buf) os = (r, os')"
  shows "log_write c fd (n, buf) (l, os) = Some (count_error r l, os')"
proof -
  have "int_op (log_nerror l + 1) = Some (log_nerror l + 1)"
    using assms(1) by (simp add: nerror_ok_def int_op_def int_range_def INT_MIN_def)
  then show ?thesis using assms(2) by (simp add: log_write_def count_error_def)
qed

text \<open>What \<open>log_line\<close> writes: header, message and trailer, cut off to leave room for the new line.\<close>

definition log_text :: "string \<Rightarrow> string \<Rightarrow> string option \<Rightarrow> site \<Rightarrow> string" where
  "log_text timestr level msg at =
     take 255 (log_header timestr level @ (case msg of None \<Rightarrow> [] | Some m \<Rightarrow> m) @ log_trailer at) @ [CHR 0x0A]"

definition texts_fit :: "string \<Rightarrow> string \<Rightarrow> string option \<Rightarrow> site \<Rightarrow> bool" where
  "texts_fit timestr level msg at \<longleftrightarrow>
     int (length (log_header timestr level)) \<le> INT_MAX \<and>
     (case msg of None \<Rightarrow> True | Some m \<Rightarrow> int (length m) \<le> INT_MAX) \<and>
     int (length (log_trailer at)) \<le> INT_MAX"

lemma append_text_any:
  assumes "holds sz acc st" "0 < sz" "sz \<le> INT_MAX" "case txt of None \<Rightarrow> True | Some m \<Rightarrow> int (length m) \<le> INT_MAX"
  shows "\<exists>st'. append_text sz txt st = Some st' \<and> holds sz (acc @ (case txt of None \<Rightarrow> [] | Some m \<Rightarrow> m)) st'"
  using assms append_text_holds [of sz acc st] by (cases "txt") (auto simp: append_text_error)

lemma log_sizes [simp]: "0 < LOG_MAX_LEN" "LOG_MAX_LEN \<le> INT_MAX" "nat LOG_MAX_LEN = 256"
  "0 \<le> LOG_MAX_LEN" "0 < HEX_LEN" "HEX_LEN \<le> INT_MAX" "nat HEX_LEN = 2048" "0 \<le> HEX_LEN"
  by (simp_all add: LOG_MAX_LEN_def HEX_LEN_def INT_MAX_def)

lemma log_line_writes:
  assumes fd: "0 \<le> log_fd l" and fit: "texts_fit (c_asctime c os) level msg at" and ne: "nerror_ok l"
    and w: "c_write c (log_fd l) (log_text (c_asctime c os) level msg at) os = (r, os')"
  shows "log_line c level at panic msg (l, os) = Some (panic, count_error r l, os')"
proof -
  let ?h = "log_header (c_asctime c os) level" and ?m = "case msg of None \<Rightarrow> [] | Some m \<Rightarrow> m"
  let ?buf = "new_array c LOG_MAX_LEN os"
  have fits: "int (length ?h) \<le> INT_MAX" "case msg of None \<Rightarrow> True | Some m \<Rightarrow> int (length m) \<le> INT_MAX"
      "int (length (log_trailer at)) \<le> INT_MAX"
    using fit by (simp_all add: texts_fit_def)
  have "holds LOG_MAX_LEN [] (0, ?buf)" by (rule holds_start) simp_all
  then obtain st1 where 1: "append_text LOG_MAX_LEN (Some ?h) (0, ?buf) = Some st1" "holds LOG_MAX_LEN ?h st1"
    using append_text_holds [of LOG_MAX_LEN "[]" "(0, ?buf)" ?h] fits by auto
  obtain st2 where 2: "append_text LOG_MAX_LEN msg st1 = Some st2" "holds LOG_MAX_LEN (?h @ ?m) st2"
    using append_text_any [OF 1(2), of msg] fits by auto
  obtain n buf where 3: "append_text LOG_MAX_LEN (Some (log_trailer at)) st2 = Some (n, buf)"
      "holds LOG_MAX_LEN ((?h @ ?m) @ log_trailer at) (n, buf)"
    using append_text_holds [OF 2(2), of "log_trailer at"] fits by auto
  obtain buf' where 4: "push_byte (CHR 0x0A) (n, buf) = Some (n + 1, buf')"
      "take (nat (n + 1)) buf' = log_text (c_asctime c os) level msg at"
    using push_byte_holds [OF 3(2), of "CHR 0x0A"] by (auto simp: log_text_def)
  have "log_write c (log_fd l) (n + 1, buf') (l, os) = Some (count_error r l, os')"
    by (rule log_write_ok [OF ne]) (simp add: 4(2) w)
  then show ?thesis using fd by (simp add: log_line_def Let_def 1 2 3 4)
qed

lemma log_line_closed: "log_fd l < 0 \<Longrightarrow> log_line c level at panic msg (l, os) = Some (False, l, os)"
  by (simp add: log_line_def)

section \<open>The dump: lemmas\<close>

lemma hex_nat_length: "n < 16 ^ k \<Longrightarrow> 0 < k \<Longrightarrow> length (hex_nat n) \<le> k"
proof (induction k arbitrary: n)
  case (Suc k)
  show ?case
  proof (cases "n < 16")
    case True
    then show ?thesis by (simp add: hex_nat.simps [of n])
  next
    case False
    then have "n div 16 < 16 ^ k" "0 < k" using Suc.prems by (auto simp: less_mult_imp_div_less intro: Nat.gr0I)
    then show ?thesis using Suc.IH [of "n div 16"] False by (simp add: hex_nat.simps [of n])
  qed
qed simp

lemma fmt_x_length: "n < 16 ^ w \<Longrightarrow> 0 < w \<Longrightarrow> length (fmt_x w n) = w"
  using hex_nat_length [of n w] by (simp add: fmt_x_def)

lemma fmt_x_byte: "length (fmt_x 2 (of_char ch)) = 2"
proof (rule fmt_x_length)
  have "of_char ch mod 256 < (256 :: nat)" by simp
  then show "of_char ch < (16 :: nat) ^ 2" by simp
qed simp

text \<open>What a line and a dump say.\<close>

definition hex_cell :: "nat \<times> char \<Rightarrow> string" where
  "hex_cell = (\<lambda>(i, ch). fmt_x 2 (of_char ch) @ hex_gap i)"

definition hexdump_line :: "nat \<Rightarrow> string \<Rightarrow> string" where
  "hexdump_line off chunk =
     fmt_x 8 off @ ''  '' @ concat (map hex_cell (enumerate 0 chunk)) @
     concat (map (\<lambda>i. ''  '' @ hex_gap i) [length chunk..<16]) @
     ''  |'' @ map print_char chunk @ [CHR ''|'', CHR 0x0A]"

fun hexdump_text :: "nat \<Rightarrow> string \<Rightarrow> string" where
  "hexdump_text off data =
     (if data = [] then [] else hexdump_line off (take 16 data) @ hexdump_text (off + 16) (drop 16 data))"

declare hexdump_text.simps [simp del]

lemma small_text: "length s \<le> 1000 \<Longrightarrow> int (length s) \<le> INT_MAX"
  by (simp add: INT_MAX_def)

lemma hex_append:
  assumes "holds HEX_LEN acc st" "length s \<le> 1000"
  obtains st' where "append_text HEX_LEN (Some s) st = Some st'" "holds HEX_LEN (acc @ s) st'"
  using append_text_holds [OF assms(1), of s] small_text [OF assms(2)] by auto

lemma hexdump_bytes_holds:
  assumes "holds HEX_LEN acc st" "i \<le> 16"
  shows "\<exists>st'. hexdump_bytes i data (int (length data)) st = Some (i + min (length data) (16 - i), st') \<and>
           holds HEX_LEN (acc @ concat (map hex_cell (enumerate i (take (16 - i) data)))) st'"
  using assms
proof (induction data arbitrary: i st acc)
  case Nil
  then show ?case by (simp add: hexdump_bytes.simps)
next
  case (Cons ch data)
  show ?case
  proof (cases "i < 16")
    case False
    then show ?thesis using Cons.prems by (simp add: hexdump_bytes.simps)
  next
    case True
    have "length (fmt_x 2 (of_char ch) @ hex_gap i) \<le> 1000" by (simp add: fmt_x_byte hex_gap_def)
    then obtain st1 where 1: "append_text HEX_LEN (Some (fmt_x 2 (of_char ch) @ hex_gap i)) st = Some st1"
        "holds HEX_LEN (acc @ fmt_x 2 (of_char ch) @ hex_gap i) st1"
      by (rule hex_append [OF Cons.prems(1)])
    have "16 - i = Suc (16 - (i + 1))" using True by simp
    then have "take (16 - i) (ch # data) = ch # take (16 - (i + 1)) data" by (simp only: take_Suc_Cons)
    moreover have "i + min (length (ch # data)) (16 - i) = (i + 1) + min (length data) (16 - (i + 1))"
      using True by auto
    ultimately show ?thesis
      using Cons.IH [OF 1(2), of "i + 1"] True 1(1)
      by (simp add: hexdump_bytes.simps [of i "ch # data"] hex_cell_def)
  qed
qed

lemma hexdump_pad_holds:
  assumes "holds HEX_LEN acc st" "i \<le> 16"
  shows "\<exists>st'. hexdump_pad i st = Some st' \<and>
           holds HEX_LEN (acc @ concat (map (\<lambda>i. ''  '' @ hex_gap i) [i..<16])) st'"
  using assms
proof (induction "16 - i" arbitrary: i st acc)
  case 0
  then show ?case by (simp add: hexdump_pad.simps)
next
  case (Suc k)
  have lt: "i < 16" using Suc.hyps by simp
  have "length (''  '' @ hex_gap i) \<le> 1000" by (simp add: hex_gap_def)
  then obtain st1 where 1: "append_text HEX_LEN (Some (''  '' @ hex_gap i)) st = Some st1"
      "holds HEX_LEN (acc @ ''  '' @ hex_gap i) st1"
    by (rule hex_append [OF Suc.prems(1)])
  have "k = 16 - (i + 1)" "i + 1 \<le> 16" using Suc.hyps lt by auto
  from Suc.hyps(1) [OF this(1) 1(2) this(2)] show ?case
    using lt 1(1) by (simp add: hexdump_pad.simps [of i] upt_rec [of i 16])
qed

lemma hexdump_chars_holds:
  assumes "holds HEX_LEN acc st" "i \<le> 16"
  shows "\<exists>st'. hexdump_chars i data (int (length data)) st
             = Some (drop (16 - i) data, int (length (drop (16 - i) data)), st') \<and>
           holds HEX_LEN (acc @ map print_char (take (16 - i) data)) st'"
  using assms
proof (induction data arbitrary: i st acc)
  case Nil
  then show ?case by (simp add: hexdump_chars.simps)
next
  case (Cons ch data)
  show ?case
  proof (cases "i < 16")
    case False
    then show ?thesis using Cons.prems by (simp add: hexdump_chars.simps)
  next
    case True
    obtain st1 where 1: "append_text HEX_LEN (Some [print_char ch]) st = Some st1"
        "holds HEX_LEN (acc @ [print_char ch]) st1"
      by (rule hex_append [OF Cons.prems(1), of "[print_char ch]"]) simp_all
    have e: "16 - i = Suc (16 - (i + 1))" using True by simp
    have "take (16 - i) (ch # data) = ch # take (16 - (i + 1)) data"
        "drop (16 - i) (ch # data) = drop (16 - (i + 1)) data"
      unfolding e by simp_all
    then show ?thesis
      using Cons.IH [OF 1(2), of "i + 1"] True 1(1)
      by (simp add: hexdump_chars.simps [of i "ch # data"])
  qed
qed

lemma hexdump_row_holds:
  assumes "holds HEX_LEN acc st" "off < 2 ^ 32"
  shows "\<exists>st'. hexdump_row off data (int (length data)) st
             = Some (drop 16 data, int (length (drop 16 data)), st') \<and>
           holds HEX_LEN (acc @ hexdump_line off (take 16 data)) st'"
proof -
  have "length (fmt_x 8 off @ ''  '') \<le> 1000" using assms(2) by (simp add: fmt_x_length)
  then obtain st1 where 1: "append_text HEX_LEN (Some (fmt_x 8 off @ ''  '')) st = Some st1"
      "holds HEX_LEN (acc @ fmt_x 8 off @ ''  '') st1"
    by (rule hex_append [OF assms(1)])
  obtain st2 where 2: "hexdump_bytes 0 data (int (length data)) st1 = Some (min (length data) 16, st2)"
      "holds HEX_LEN ((acc @ fmt_x 8 off @ ''  '') @ concat (map hex_cell (enumerate 0 (take 16 data)))) st2"
    using hexdump_bytes_holds [OF 1(2), of 0 data] by auto
  obtain st3 where 3: "hexdump_pad (min (length data) 16) st2 = Some st3"
      "holds HEX_LEN (((acc @ fmt_x 8 off @ ''  '') @ concat (map hex_cell (enumerate 0 (take 16 data)))) @
         concat (map (\<lambda>i. ''  '' @ hex_gap i) [min (length data) 16..<16])) st3"
    using hexdump_pad_holds [OF 2(2), of "min (length data) 16"] by auto
  obtain st4 where 4: "append_text HEX_LEN (Some ''  |'') st3 = Some st4"
      "holds HEX_LEN ((((acc @ fmt_x 8 off @ ''  '') @ concat (map hex_cell (enumerate 0 (take 16 data)))) @
         concat (map (\<lambda>i. ''  '' @ hex_gap i) [min (length data) 16..<16])) @ ''  |'') st4"
    by (rule hex_append [OF 3(2), of "''  |''"]) simp_all
  obtain st5 where 5: "hexdump_chars 0 data (int (length data)) st4
        = Some (drop 16 data, int (length (drop 16 data)), st5)"
      "holds HEX_LEN (((((acc @ fmt_x 8 off @ ''  '') @ concat (map hex_cell (enumerate 0 (take 16 data)))) @
         concat (map (\<lambda>i. ''  '' @ hex_gap i) [min (length data) 16..<16])) @ ''  |'') @
         map print_char (take 16 data)) st5"
    using hexdump_chars_holds [OF 4(2), of 0 data] by auto
  obtain st6 where 6: "append_text HEX_LEN (Some ([CHR ''|'', CHR 0x0A])) st5 = Some st6"
      "holds HEX_LEN ((((((acc @ fmt_x 8 off @ ''  '') @ concat (map hex_cell (enumerate 0 (take 16 data)))) @
         concat (map (\<lambda>i. ''  '' @ hex_gap i) [min (length data) 16..<16])) @ ''  |'') @
         map print_char (take 16 data)) @ [CHR ''|'', CHR 0x0A]) st6"
    by (rule hex_append [OF 5(2), of "[CHR ''|'', CHR 0x0A]"]) simp_all
  show ?thesis
    using 6(2) by (cases st6) (simp add: hexdump_row_def 1(1) 2(1) 3(1) 4(1) 5(1) 6(1) hexdump_line_def)
qed

lemma holds_text: "holds HEX_LEN acc st \<Longrightarrow> take (nat (fst st)) (snd st) = take 2047 acc"
  by (auto simp: holds_def)

text \<open>The loop ends, and the buffer holds the text cut off at its last byte but one.\<close>

lemma hexdump_loop_holds:
  assumes "holds HEX_LEN acc st" "off + length data < 2 ^ 32"
  shows "\<exists>st'. hexdump_loop off data (int (length data)) st = Some st' \<and>
           take (nat (fst st')) (snd st') = take 2047 (acc @ hexdump_text off data)"
  using assms
proof (induction off data arbitrary: st acc rule: hexdump_text.induct)
  case (1 off data)
  show ?case
  proof (cases "data \<noteq> [] \<and> fst st < HEX_LEN - 1")
    case False
    have "take 2047 acc = take 2047 (acc @ hexdump_text off data)"
    proof (cases "data = []")
      case True
      then show ?thesis by (simp add: hexdump_text.simps)
    next
      case ne: False
      then have "2047 \<le> fst st" using False by (auto simp: HEX_LEN_def LOG_MAX_LEN_def)
      then have "2047 \<le> length acc" using "1.prems"(1) by (auto simp: holds_def)
      then show ?thesis by simp
    qed
    then show ?thesis using False holds_text [OF "1.prems"(1)]
      by (intro exI [of _ st]) (auto simp: hexdump_loop.simps [of off])
  next
    case True
    have "off < 2 ^ 32" using "1.prems"(2) by simp
    then obtain st1 where row: "hexdump_row off data (int (length data)) st
          = Some (drop 16 data, int (length (drop 16 data)), st1)"
        "holds HEX_LEN (acc @ hexdump_line off (take 16 data)) st1"
      using hexdump_row_holds [OF "1.prems"(1), of off data] by auto
    have ne: "data \<noteq> []" using True by simp
    have off: "off + 16 + length (drop 16 data) < 2 ^ 32" if "16 \<le> length data"
      using "1.prems"(2) that by simp
    show ?thesis
    proof (cases "16 \<le> length data")
      case big: True
      from "1.IH" [OF ne row(2) off [OF big]] show ?thesis
        using True row(1)
        by (simp add: hexdump_loop.simps [of off] hexdump_text.simps [of off])
    next
      case small: False
      then have "drop 16 data = []" by simp
      then show ?thesis
        using True row(1) holds_text [OF row(2)]
        by (simp add: hexdump_loop.simps [of off] hexdump_loop.simps [of "off + 16"]
            hexdump_text.simps [of off] hexdump_text.simps [of "off + 16"])
    qed
  qed
qed

lemma log_hexdump_writes:
  assumes "0 \<le> log_fd l" "length data < 2 ^ 31" "nerror_ok l"
    and w: "c_write c (log_fd l) (take 2047 (hexdump_text 0 data)) os = (r, os')"
  shows "log_hexdump c data (int (length data)) (l, os) = Some (count_error r l, os')"
proof -
  have "holds HEX_LEN [] (0, new_array c HEX_LEN os)" by (rule holds_start) simp_all
  then obtain n buf where 1: "hexdump_loop 0 data (int (length data)) (0, new_array c HEX_LEN os) = Some (n, buf)"
      "take (nat n) buf = take 2047 (hexdump_text 0 data)"
    using hexdump_loop_holds [of "[]" "(0, new_array c HEX_LEN os)" 0 data] assms(2) by auto
  have "log_write c (log_fd l) (n, buf) (l, os) = Some (count_error r l, os')"
    by (rule log_write_ok [OF assms(3)]) (simp add: 1(2) w)
  then show ?thesis using assms(1) by (simp add: log_hexdump_def 1(1))
qed

section \<open>The level: lemmas\<close>

definition level_ok :: "logger \<Rightarrow> bool" where
  "level_ok l \<longleftrightarrow> LOG_EMERG \<le> log_level l \<and> log_level l \<le> LOG_PVERB"

lemma log_clamp_bounds: "LOG_EMERG \<le> log_clamp level \<and> log_clamp level \<le> LOG_PVERB"
  by (simp add: log_clamp_def Let_def)

lemma log_write_level: "log_write c fd st (l, os) = Some (l', os') \<Longrightarrow> log_level l' = log_level l"
  by (cases st) (auto simp: log_write_def Let_def split: prod.splits if_splits Option.bind_splits)

lemma log_line_level:
  "log_line c level at panic msg (l, os) = Some (b, l', os') \<Longrightarrow> log_level l' = log_level l"
  by (auto simp: log_line_def Let_def split: prod.splits if_splits Option.bind_splits dest: log_write_level)

lemma log_stderr_level: "log_stderr c msg (l, os) = Some (l', os') \<Longrightarrow> log_level l' = log_level l"
  by (auto simp: log_stderr_def split: Option.bind_splits dest: log_write_level)

end
