(* ===== verification/Sockets.thy ===== *)
theory Sockets
  imports Strings Printf
begin

text \<open>
  The socket functions of src/cs_util.c.  The system calls are parameters; each takes the state of
  the system and returns its result and the new state.  The record \<open>sockinfo\<close> holds the bytes of
  its union of addresses; messages to the log are left out.
\<close>

section \<open>Socket options\<close>

text \<open>The constants are those of Linux.\<close>

abbreviation (input) F_GETFL :: int where "F_GETFL \<equiv> 3"
abbreviation (input) F_SETFL :: int where "F_SETFL \<equiv> 4"
abbreviation (input) O_NONBLOCK :: int where "O_NONBLOCK \<equiv> 2048"
abbreviation (input) SOL_SOCKET :: int where "SOL_SOCKET \<equiv> 1"
abbreviation (input) SO_REUSEADDR :: int where "SO_REUSEADDR \<equiv> 2"
abbreviation (input) SO_ERROR :: int where "SO_ERROR \<equiv> 4"
abbreviation (input) SO_SNDBUF :: int where "SO_SNDBUF \<equiv> 7"
abbreviation (input) SO_RCVBUF :: int where "SO_RCVBUF \<equiv> 8"
abbreviation (input) SO_LINGER :: int where "SO_LINGER \<equiv> 13"
abbreviation (input) IPPROTO_TCP :: int where "IPPROTO_TCP \<equiv> 6"
abbreviation (input) TCP_NODELAY :: int where "TCP_NODELAY \<equiv> 1"
abbreviation (input) E_INTR :: int where "E_INTR \<equiv> 4"

text \<open>\<open>fcntl sd command argument\<close>, \<open>setsockopt sd level name values\<close> (a list of \<open>int\<close>s, the
  option's length being that of the list) and \<open>getsockopt sd level name value\<close>, which returns the
  status and the value stored, if any.\<close>

type_synonym 'o fcntl_call = "int \<Rightarrow> int \<Rightarrow> int \<Rightarrow> 'o \<Rightarrow> int \<times> 'o"
type_synonym 'o setopt_call = "int \<Rightarrow> int \<Rightarrow> int \<Rightarrow> int list \<Rightarrow> 'o \<Rightarrow> int \<times> 'o"
type_synonym 'o getopt_call = "int \<Rightarrow> int \<Rightarrow> int \<Rightarrow> int \<Rightarrow> 'o \<Rightarrow> int \<times> int \<times> 'o"

definition cs_set_blocking :: "'o fcntl_call \<Rightarrow> int \<Rightarrow> 'o \<Rightarrow> int \<times> 'o" where
  "cs_set_blocking fcntl sd os =
     (let (flags, os) = fcntl sd F_GETFL 0 os in
      if flags < 0 then (flags, os) else fcntl sd F_SETFL (flags AND NOT O_NONBLOCK) os)"

definition cs_set_nonblocking :: "'o fcntl_call \<Rightarrow> int \<Rightarrow> 'o \<Rightarrow> int \<times> 'o" where
  "cs_set_nonblocking fcntl sd os =
     (let (flags, os) = fcntl sd F_GETFL 0 os in
      if flags < 0 then (flags, os) else fcntl sd F_SETFL (flags OR O_NONBLOCK) os)"

definition cs_set_reuseaddr :: "'o setopt_call \<Rightarrow> int \<Rightarrow> 'o \<Rightarrow> int \<times> 'o" where
  "cs_set_reuseaddr setsockopt sd os = setsockopt sd SOL_SOCKET SO_REUSEADDR [1] os"

definition cs_set_tcpnodelay :: "'o setopt_call \<Rightarrow> int \<Rightarrow> 'o \<Rightarrow> int \<times> 'o" where
  "cs_set_tcpnodelay setsockopt sd os = setsockopt sd IPPROTO_TCP TCP_NODELAY [1] os"

definition cs_set_linger :: "'o setopt_call \<Rightarrow> int \<Rightarrow> int \<Rightarrow> 'o \<Rightarrow> int \<times> 'o" where
  "cs_set_linger setsockopt sd timeout os = setsockopt sd SOL_SOCKET SO_LINGER [1, timeout] os"

definition cs_set_sndbuf :: "'o setopt_call \<Rightarrow> int \<Rightarrow> int \<Rightarrow> 'o \<Rightarrow> int \<times> 'o" where
  "cs_set_sndbuf setsockopt sd sz os = setsockopt sd SOL_SOCKET SO_SNDBUF [sz] os"

definition cs_set_rcvbuf :: "'o setopt_call \<Rightarrow> int \<Rightarrow> int \<Rightarrow> 'o \<Rightarrow> int \<times> 'o" where
  "cs_set_rcvbuf setsockopt sd sz os = setsockopt sd SOL_SOCKET SO_RCVBUF [sz] os"

text \<open>The status, and \<open>errno\<close> afterwards.\<close>

definition cs_get_soerror :: "'o getopt_call \<Rightarrow> int \<Rightarrow> int \<Rightarrow> 'o \<Rightarrow> int \<times> int \<times> 'o" where
  "cs_get_soerror getsockopt sd errno os =
     (let (status, err, os) = getsockopt sd SOL_SOCKET SO_ERROR 0 os in
      (status, if status = 0 then err else errno, os))"

definition cs_get_sndbuf :: "'o getopt_call \<Rightarrow> int \<Rightarrow> 'o \<Rightarrow> int \<times> 'o" where
  "cs_get_sndbuf getsockopt sd os =
     (let (status, sz, os) = getsockopt sd SOL_SOCKET SO_SNDBUF 0 os in
      if status < 0 then (status, os) else (sz, os))"

definition cs_get_rcvbuf :: "'o getopt_call \<Rightarrow> int \<Rightarrow> 'o \<Rightarrow> int \<times> 'o" where
  "cs_get_rcvbuf getsockopt sd os =
     (let (status, sz, os) = getsockopt sd SOL_SOCKET SO_RCVBUF 0 os in
      if status < 0 then (status, os) else (sz, os))"

section \<open>Whole messages\<close>

text \<open>
  \<open>send sd ptr n\<close> and \<open>recv sd ptr n\<close> return the number of bytes (or a negative number), \<open>errno\<close> and
  the new state.  A call that is interrupted is made again, so the loops may not end.
\<close>

type_synonym 'o transfer_call = "int \<Rightarrow> addr \<Rightarrow> size_t \<Rightarrow> 'o \<Rightarrow> int \<times> int \<times> 'o"

partial_function (option) cs_sendn_loop ::
  "'o transfer_call \<Rightarrow> int \<Rightarrow> size_t \<Rightarrow> addr \<Rightarrow> size_t \<Rightarrow> 'o \<Rightarrow> (int \<times> 'o) option" where
  "cs_sendn_loop send sd n ptr nleft os =
     (if nleft > 0 then
        (case send sd ptr nleft os of (nsend, errno, os) \<Rightarrow>
           if nsend < 0 then
             if errno = E_INTR then cs_sendn_loop send sd n ptr nleft os else Some (nsend, os)
           else if nsend = 0 then Some (- 1, os)
           else cs_sendn_loop send sd n (ptr + of_int nsend) (nleft - of_int nsend) os)
      else Some (sint n, os))"

definition cs_sendn :: "'o transfer_call \<Rightarrow> int \<Rightarrow> addr \<Rightarrow> size_t \<Rightarrow> 'o \<Rightarrow> (int \<times> 'o) option" where
  "cs_sendn send sd vptr n os = cs_sendn_loop send sd n vptr n os"

partial_function (option) cs_recvn_loop ::
  "'o transfer_call \<Rightarrow> int \<Rightarrow> size_t \<Rightarrow> addr \<Rightarrow> size_t \<Rightarrow> 'o \<Rightarrow> (int \<times> 'o) option" where
  "cs_recvn_loop recv sd n ptr nleft os =
     (if nleft > 0 then
        (case recv sd ptr nleft os of (nrecv, errno, os) \<Rightarrow>
           if nrecv < 0 then
             if errno = E_INTR then cs_recvn_loop recv sd n ptr nleft os else Some (nrecv, os)
           else if nrecv = 0 then Some (sint (n - nleft), os)
           else cs_recvn_loop recv sd n (ptr + of_int nrecv) (nleft - of_int nrecv) os)
      else Some (sint (n - nleft), os))"

definition cs_recvn :: "'o transfer_call \<Rightarrow> int \<Rightarrow> addr \<Rightarrow> size_t \<Rightarrow> 'o \<Rightarrow> (int \<times> 'o) option" where
  "cs_recvn recv sd vptr n os = cs_recvn_loop recv sd n vptr n os"

section \<open>Addresses\<close>

record sockinfo =
  si_family :: int
  si_addrlen :: uint32
  si_addr :: "uint8 list"

record addrinfo =
  ai_family :: int
  ai_addrlen :: uint32
  ai_addr :: "uint8 list"

abbreviation (input) AF_UNIX :: int where "AF_UNIX \<equiv> 1"
abbreviation (input) AI_PASSIVE :: int where "AI_PASSIVE \<equiv> 1"
abbreviation (input) AI_NUMERICSERV :: int where "AI_NUMERICSERV \<equiv> 1024"

text \<open>\<open>sizeof(struct sockaddr_un)\<close>, the offset of its path and the length of the path.\<close>

definition SOCKADDR_UN_LEN :: nat where
  "SOCKADDR_UN_LEN = 110"

definition SUN_PATH :: nat where
  "SUN_PATH = 2"

definition M_UNIX_ADDRSTRLEN :: nat where
  "M_UNIX_ADDRSTRLEN = SOCKADDR_UN_LEN - SUN_PATH"

text \<open>Writing bytes into an object: \<open>None\<close> is a write outside it.\<close>

definition overwrite :: "nat \<Rightarrow> 'a list \<Rightarrow> 'a list \<Rightarrow> 'a list option" where
  "overwrite off bs dst =
     (if off + length bs \<le> length dst then Some (take off dst @ bs @ drop (off + length bs) dst) else None)"

definition read_bytes :: "bytes_mem \<Rightarrow> addr \<Rightarrow> nat \<Rightarrow> uint8 list option" where
  "read_bytes m p n = Option.bind (m p) (\<lambda>bs. if n \<le> length bs then Some (take n bs) else None)"

text \<open>The C string at an address.\<close>

definition c_string :: "bytes_mem \<Rightarrow> addr \<Rightarrow> uint8 list option" where
  "c_string m p = Option.bind (m p) (\<lambda>bs. if 0 \<in> set bs then Some (takeWhile (\<lambda>b. b \<noteq> 0) bs) else None)"

definition cs_resolve_unix :: "bytes_mem \<Rightarrow> cs_string \<Rightarrow> sockinfo \<Rightarrow> (rstatus_t \<times> sockinfo) option" where
  "cs_resolve_unix m name si =
     (if unat (str_len name) \<ge> M_UNIX_ADDRSTRLEN then Some (- 1, si)
      else do {
        un \<leftarrow> overwrite 0 [1, 0] (si_addr si);
        path \<leftarrow> read_bytes m (str_data name) (unat (str_len name));
        un \<leftarrow> overwrite SUN_PATH path un;
        un \<leftarrow> overwrite (SUN_PATH + unat (str_len name)) [0] un;
        Some (0, \<lparr>si_family = AF_UNIX, si_addrlen = of_nat SOCKADDR_UN_LEN, si_addr = un\<rparr>)
      })"

text \<open>
  \<open>getaddrinfo node service flags\<close> returns its status and, unless it fails, the list of addresses.
  \<open>service\<close> is the local array of 21 bytes the port is printed into.
\<close>

type_synonym getaddrinfo_call = "uint8 list option \<Rightarrow> string \<Rightarrow> int \<Rightarrow> int \<times> addrinfo list option"

definition cs_resolve_inet ::
  "getaddrinfo_call \<Rightarrow> string \<Rightarrow> bytes_mem \<Rightarrow> cs_string option \<Rightarrow> int \<Rightarrow> sockinfo \<Rightarrow> fault + (rstatus_t \<times> sockinfo)" where
  "cs_resolve_inet getaddrinfo service m name port si =
     andThen (ASSERT (cs_valid_port port)) (\<lambda>_.
     andThen (deref (case name of None \<Rightarrow> Some None
                     | Some str \<Rightarrow> map_option Some (c_string m (str_data str)))) (\<lambda>node.
     let flags = (if name = None then AI_NUMERICSERV OR AI_PASSIVE else AI_NUMERICSERV) in
     andThen (deref (vsnprintf (Some (fmt_d port)) 21 0 service)) (\<lambda>(_, service).
     case getaddrinfo node (takeWhile (\<lambda>ch. ch \<noteq> CHR 0x00) service) flags of (status, ai) \<Rightarrow>
     if status < 0 then Inr (- 1, si)
     else
       andThen (deref ai) (\<lambda>ais.
       case ais of
         [] \<Rightarrow> Inr (- 1, si)
       | cai # _ \<Rightarrow>
           andThen (deref (if unat (ai_addrlen cai) \<le> length (ai_addr cai)
                          then overwrite 0 (take (unat (ai_addrlen cai)) (ai_addr cai)) (si_addr si)
                          else None)) (\<lambda>bytes.
           Inr (0, \<lparr>si_family = ai_family cai, si_addrlen = ai_addrlen cai, si_addr = bytes\<rparr>))))))"

definition cs_resolve ::
  "getaddrinfo_call \<Rightarrow> string \<Rightarrow> bytes_mem \<Rightarrow> cs_string option \<Rightarrow> int \<Rightarrow> sockinfo \<Rightarrow> fault + (rstatus_t \<times> sockinfo)" where
  "cs_resolve getaddrinfo service m name port si =
     andThen (deref (case name of None \<Rightarrow> Some False
                     | Some str \<Rightarrow> map_option (\<lambda>bs. bs = [47]) (read_bytes m (str_data str) 1))) (\<lambda>is_path.
     case name of
       Some str \<Rightarrow> if is_path then deref (cs_resolve_unix m str si)
                   else cs_resolve_inet getaddrinfo service m name port si
     | None \<Rightarrow> cs_resolve_inet getaddrinfo service m name port si)"

section \<open>Names of addresses\<close>

text \<open>
  \<open>getnameinfo\<close> returns a status and the texts it stores; \<open>static\<close> is the static array the functions
  share.  The result is the text the caller gets, and the array afterwards.
\<close>

definition UNRESOLVE_LEN :: nat where
  "UNRESOLVE_LEN = 1025 + 32"

type_synonym getnameinfo_call = "uint8 list \<Rightarrow> uint32 \<Rightarrow> int \<times> string \<times> string"

definition cs_unresolve_addr ::
  "getnameinfo_call \<Rightarrow> uint8 list \<Rightarrow> uint32 \<Rightarrow> string \<Rightarrow> (string \<times> string) option" where
  "cs_unresolve_addr getnameinfo ad len static =
     (case getnameinfo ad len of (status, host, service) \<Rightarrow>
        if status < 0 then Some (''unknown'', static)
        else do {
          (_, static) \<leftarrow> vsnprintf (Some (host @ '':'' @ service)) (of_nat UNRESOLVE_LEN) 0 static;
          Some (takeWhile (\<lambda>ch. ch \<noteq> CHR 0x00) static, static)
        })"

text \<open>\<open>getpeername\<close> and \<open>getsockname\<close> return a status, the bytes and the length of the address; both
  are given 112 bytes.\<close>

type_synonym sockname_call = "int \<Rightarrow> uint8 list \<Rightarrow> uint32 \<Rightarrow> int \<times> uint8 list \<times> uint32"

definition cs_unresolve_peer_desc ::
  "sockname_call \<Rightarrow> getnameinfo_call \<Rightarrow> int \<Rightarrow> string \<Rightarrow> (string \<times> string) option" where
  "cs_unresolve_peer_desc getpeername getnameinfo sd static =
     (case getpeername sd (replicate 112 0) 112 of (status, ad, len) \<Rightarrow>
        if status < 0 then Some (''unknown'', static) else cs_unresolve_addr getnameinfo ad len static)"

definition cs_unresolve_desc ::
  "sockname_call \<Rightarrow> getnameinfo_call \<Rightarrow> int \<Rightarrow> string \<Rightarrow> (string \<times> string) option" where
  "cs_unresolve_desc getsockname getnameinfo sd static =
     (case getsockname sd (replicate 112 0) 112 of (status, ad, len) \<Rightarrow>
        if status < 0 then Some (''unknown'', static) else cs_unresolve_addr getnameinfo ad len static)"

section \<open>Options: lemmas\<close>

text \<open>What \<open>fcntl\<close> documents: the flags of a descriptor are read and set.\<close>

definition fcntl_ok :: "'o fcntl_call \<Rightarrow> ('o \<Rightarrow> int \<Rightarrow> int) \<Rightarrow> int \<Rightarrow> bool" where
  "fcntl_ok fcntl fl sd \<longleftrightarrow>
     (\<forall>os. fcntl sd F_GETFL 0 os = (fl os sd, os) \<and> 0 \<le> fl os sd) \<and>
     (\<forall>os v r os'. fcntl sd F_SETFL v os = (r, os') \<longrightarrow> fl os' sd = (if r < 0 then fl os sd else v))"

lemma set_nonblocking_flags:
  assumes "fcntl_ok fcntl fl sd" "cs_set_nonblocking fcntl sd os = (r, os')" "0 \<le> r"
  shows "fl os' sd = fl os sd OR O_NONBLOCK"
proof -
  have "fcntl sd F_GETFL 0 os = (fl os sd, os)" "0 \<le> fl os sd" using assms(1) by (auto simp: fcntl_ok_def)
  then have "fcntl sd F_SETFL (fl os sd OR O_NONBLOCK) os = (r, os')"
    using assms(2) by (simp add: cs_set_nonblocking_def)
  then have "fl os' sd = (if r < 0 then fl os sd else fl os sd OR O_NONBLOCK)"
    using assms(1) unfolding fcntl_ok_def by blast
  then show ?thesis using assms(3) by simp
qed

lemma set_blocking_flags:
  assumes "fcntl_ok fcntl fl sd" "cs_set_blocking fcntl sd os = (r, os')" "0 \<le> r"
  shows "fl os' sd = fl os sd AND NOT O_NONBLOCK"
proof -
  have "fcntl sd F_GETFL 0 os = (fl os sd, os)" "0 \<le> fl os sd" using assms(1) by (auto simp: fcntl_ok_def)
  then have "fcntl sd F_SETFL (fl os sd AND NOT O_NONBLOCK) os = (r, os')"
    using assms(2) by (simp add: cs_set_blocking_def)
  then have "fl os' sd = (if r < 0 then fl os sd else fl os sd AND NOT O_NONBLOCK)"
    using assms(1) unfolding fcntl_ok_def by blast
  then show ?thesis using assms(3) by simp
qed

section \<open>Whole messages: lemmas\<close>

text \<open>The \<open>k\<close> bytes at an address.\<close>

definition bytes_at :: "(addr \<Rightarrow> uint8) \<Rightarrow> addr \<Rightarrow> nat \<Rightarrow> uint8 list" where
  "bytes_at mem p k = map (\<lambda>i. mem (p + of_nat i)) [0..<k]"

lemma bytes_at_length [simp]: "length (bytes_at mem p k) = k"
  by (simp add: bytes_at_def)

lemma bytes_at_0 [simp]: "bytes_at mem p 0 = []"
  by (simp add: bytes_at_def)

lemma bytes_at_add: "bytes_at mem p (j + k) = bytes_at mem p j @ bytes_at mem (p + of_nat j) k"
proof -
  have "bytes_at mem p (j + k) = bytes_at mem p j @ map (\<lambda>i. mem (p + of_nat i)) [j..<j + k]"
    by (simp add: bytes_at_def upt_add_eq_append [of 0 j k])
  moreover have "map (\<lambda>i. mem (p + of_nat i)) [j..<j + k] = bytes_at mem (p + of_nat j) k"
    by (simp add: bytes_at_def list_eq_iff_nth_eq add.assoc)
  ultimately show ?thesis by simp
qed

text \<open>
  What \<open>send\<close> documents: a positive result is the number of bytes that were appended to the stream,
  at most as many as were given; nothing is appended otherwise.  \<open>patience\<close> bounds the number of
  interruptions in a row.
\<close>

definition send_ok :: "'o transfer_call \<Rightarrow> int \<Rightarrow> (addr \<Rightarrow> uint8) \<Rightarrow> ('o \<Rightarrow> uint8 list) \<Rightarrow> ('o \<Rightarrow> nat) \<Rightarrow> bool" where
  "send_ok send sd mem wire patience \<longleftrightarrow>
     (\<forall>ptr k os r e os'. send sd ptr k os = (r, e, os') \<longrightarrow>
        (if 0 < r then r \<le> uint k \<and> wire os' = wire os @ bytes_at mem ptr (nat r)
         else wire os' = wire os \<and> (r < 0 \<and> e = E_INTR \<longrightarrow> patience os' < patience os)))"

lemma send_step:
  assumes "0 < r" "r \<le> uint (nleft :: size_t)"
  shows "unat (nleft - of_int r) = unat nleft - nat r" "of_int r = (of_nat (nat r) :: addr)"
    "nat r \<le> unat nleft" "0 < nat r"
proof -
  have u: "uint (of_int r :: size_t) = r"
    using assms uint_lt2p [of nleft] by (simp add: unsigned_of_int take_bit_int_eq_self)
  then have "(of_int r :: size_t) \<le> nleft" using assms by (simp add: word_le_def)
  then have "unat (nleft - of_int r) = unat nleft - unat (of_int r :: size_t)" by (rule unat_sub)
  then show "unat (nleft - of_int r) = unat nleft - nat r" by (metis u unat_eq_nat_uint)
  show "of_int r = (of_nat (nat r) :: addr)" using assms by simp
  show "nat r \<le> unat nleft" using nat_mono [OF assms(2)] by simp
  show "0 < nat r" using assms by simp
qed

lemma sendn_loop_correct:
  assumes ok: "send_ok send sd mem wire patience"
  shows "\<exists>r os' k. cs_sendn_loop send sd n ptr nleft os = Some (r, os') \<and> k \<le> unat nleft \<and>
           wire os' = wire os @ bytes_at mem ptr k \<and>
           (r = sint n \<and> k = unat nleft \<or> r < 0 \<and> k < unat nleft)"
proof (induction "(unat nleft, patience os)" arbitrary: nleft ptr os
    rule: wf_induct_rule [OF wf_lex_prod [OF wf_less wf_less]])
  case (1 nleft os ptr)
  show ?case
  proof (cases "nleft = 0")
    case True
    then show ?thesis by (simp add: cs_sendn_loop.simps [of send sd n ptr])
  next
    case False
    then have pos: "0 < nleft" "0 < unat nleft" by (auto simp: word_gt_0 unat_gt_0)
    obtain s e os1 where call: "send sd ptr nleft os = (s, e, os1)" by (cases "send sd ptr nleft os")
    note spec = ok [unfolded send_ok_def, rule_format, OF call]
    note unfold = cs_sendn_loop.simps [of send sd n ptr nleft os]
    consider "0 < s" | "s < 0" "e = E_INTR" | "s < 0" "e \<noteq> E_INTR" | "s = 0" by linarith
    then show ?thesis
    proof cases
      case 1
      note st = send_step [OF 1, of nleft]
      have w: "wire os1 = wire os @ bytes_at mem ptr (nat s)" and le: "s \<le> uint nleft" using spec 1 by auto
      have lt: "((unat (nleft - of_int s), patience os1), (unat nleft, patience os))
             \<in> {(x, y). x < y} <*lex*> {(x, y). x < y}"
        using st(1) [OF le] st(3) [OF le] st(4) [OF le] by simp
      from "1.hyps" [OF lt, of "ptr + of_int s"] obtain r os' k where
        r: "cs_sendn_loop send sd n (ptr + of_int s) (nleft - of_int s) os1 = Some (r, os')"
          "k \<le> unat (nleft - of_int s)" "wire os' = wire os1 @ bytes_at mem (ptr + of_int s) k"
          "r = sint n \<and> k = unat (nleft - of_int s) \<or> r < 0 \<and> k < unat (nleft - of_int s)" by blast
      have "wire os' = wire os @ bytes_at mem ptr (nat s + k)"
        using r(3) w st(2) [OF le] by (simp add: bytes_at_add)
      moreover have "cs_sendn_loop send sd n ptr nleft os = Some (r, os')"
        using r(1) 1 pos by (simp add: unfold call)
      moreover have "nat s + k \<le> unat nleft" "r = sint n \<and> nat s + k = unat nleft \<or> r < 0 \<and> nat s + k < unat nleft"
        using r(2,4) st(1) [OF le] st(3) [OF le] by auto
      ultimately show ?thesis by blast
    next
      case 2
      then have w: "wire os1 = wire os" and p: "patience os1 < patience os" using spec by auto
      then have lt: "((unat nleft, patience os1), (unat nleft, patience os)) \<in> {(x, y). x < y} <*lex*> {(x, y). x < y}"
        by simp
      show ?thesis using "1.hyps" [OF lt, of ptr] w 2 pos by (simp add: unfold call)
    next
      case 3
      then show ?thesis using spec pos by (intro exI [of _ s] exI [of _ os1] exI [of _ 0]) (simp add: unfold call)
    next
      case 4
      then show ?thesis using spec pos by (intro exI [of _ "- 1"] exI [of _ os1] exI [of _ 0]) (simp add: unfold call)
    qed
  qed
qed

text \<open>The addresses of \<open>k\<close> bytes.\<close>

definition region :: "addr \<Rightarrow> nat \<Rightarrow> addr set" where
  "region p k = (\<lambda>i. p + of_nat i) ` {..<k}"

lemma region_add: "region p (j + k) = region p j \<union> region (p + of_nat j) k"
proof -
  have "{..<j + k} = {..<j} \<union> (\<lambda>i. j + i) ` {..<k}"
  proof (rule set_eqI)
    fix x
    have "x \<in> (\<lambda>i. j + i) ` {..<k}" if "j \<le> x" "x < j + k"
      by (rule image_eqI [of _ _ "x - j"]) (use that in auto)
    then show "x \<in> {..<j + k} \<longleftrightarrow> x \<in> {..<j} \<union> (\<lambda>i. j + i) ` {..<k}"
      by (cases "x < j") auto
  qed
  then show ?thesis by (simp add: region_def image_Un image_image add.assoc)
qed

lemma region_disjoint:
  assumes "i < j" "j + k < 2 ^ 64"
  shows "p + of_nat i \<notin> region (p + of_nat j) k"
proof
  assume "p + of_nat i \<in> region (p + of_nat j) k"
  then obtain l where l: "l < k" "(of_nat i :: addr) = of_nat (j + l)"
    by (auto simp: region_def)
  then have "unat (of_nat i :: addr) = unat (of_nat (j + l) :: addr)" by simp
  then have "i = j + l" using assms l(1) by (simp add: unat_of_nat del: of_nat_add)
  then show False using assms(1) by simp
qed

lemma bytes_at_frame:
  assumes "\<forall>x. x \<notin> region (p + of_nat j) k \<longrightarrow> mem' x = mem x" "j + k < 2 ^ 64"
  shows "bytes_at mem' p j = bytes_at mem p j"
  using assms region_disjoint [of _ j k p] by (simp add: bytes_at_def)

text \<open>
  What \<open>recv\<close> documents: a positive result is the number of bytes that were moved from the front of
  the stream to the buffer; zero is the end of the stream.
\<close>

definition recv_ok ::
  "'o transfer_call \<Rightarrow> int \<Rightarrow> ('o \<Rightarrow> addr \<Rightarrow> uint8) \<Rightarrow> ('o \<Rightarrow> uint8 list) \<Rightarrow> ('o \<Rightarrow> nat) \<Rightarrow> bool" where
  "recv_ok recv sd store inbox patience \<longleftrightarrow>
     (\<forall>ptr k os r e os'. recv sd ptr k os = (r, e, os') \<and> 0 < k \<longrightarrow>
        (if 0 < r then
           r \<le> uint k \<and> inbox os = bytes_at (store os') ptr (nat r) @ inbox os' \<and>
           (\<forall>x. x \<notin> region ptr (nat r) \<longrightarrow> store os' x = store os x)
         else
           inbox os' = inbox os \<and> store os' = store os \<and> (r = 0 \<longrightarrow> inbox os = []) \<and>
           (r < 0 \<and> e = E_INTR \<longrightarrow> patience os' < patience os)))"

text \<open>What a call that was asked for \<open>nleft\<close> bytes at \<open>ptr\<close> did, if it received \<open>k\<close>.\<close>

definition received ::
  "('o \<Rightarrow> addr \<Rightarrow> uint8) \<Rightarrow> ('o \<Rightarrow> uint8 list) \<Rightarrow> addr \<Rightarrow> nat \<Rightarrow> 'o \<Rightarrow> 'o \<Rightarrow> bool" where
  "received store inbox ptr k os os' \<longleftrightarrow>
     inbox os = bytes_at (store os') ptr k @ inbox os' \<and>
     (\<forall>x. x \<notin> region ptr k \<longrightarrow> store os' x = store os x)"

lemma received_none: "inbox os' = inbox os \<Longrightarrow> store os' = store os \<Longrightarrow> received store inbox ptr 0 os os'"
  by (simp add: received_def)

lemma received_trans:
  assumes "received store inbox ptr j os os1" "received store inbox (ptr + of_nat j) k os1 os'"
    and "j + k < 2 ^ 64"
  shows "received store inbox ptr (j + k) os os'"
proof -
  have "bytes_at (store os') ptr j = bytes_at (store os1) ptr j"
    using assms(2) by (intro bytes_at_frame [OF _ assms(3)]) (simp add: received_def)
  then show ?thesis using assms(1,2) by (simp add: received_def bytes_at_add region_add)
qed

lemma recvn_loop_correct:
  assumes ok: "recv_ok recv sd store inbox patience"
  shows "\<exists>r os' k. cs_recvn_loop recv sd n ptr nleft os = Some (r, os') \<and> k \<le> unat nleft \<and>
           received store inbox ptr k os os' \<and>
           (r = sint (n - nleft + of_nat k) \<and> (k < unat nleft \<longrightarrow> inbox os' = []) \<or> r < 0 \<and> k < unat nleft)"
proof (induction "(unat nleft, patience os)" arbitrary: nleft ptr os
    rule: wf_induct_rule [OF wf_lex_prod [OF wf_less wf_less]])
  case (1 nleft os ptr)
  show ?case
  proof (cases "nleft = 0")
    case True
    then show ?thesis
      by (simp add: cs_recvn_loop.simps [of recv sd n ptr] received_none)
  next
    case False
    then have pos: "0 < nleft" "0 < unat nleft" by (auto simp: word_gt_0 unat_gt_0)
    obtain s e os1 where call: "recv sd ptr nleft os = (s, e, os1)" by (cases "recv sd ptr nleft os")
    note spec = ok [unfolded recv_ok_def, rule_format, OF conjI [OF call pos(1)]]
    note unfold = cs_recvn_loop.simps [of recv sd n ptr nleft os]
    consider "0 < s" | "s < 0" "e = E_INTR" | "s < 0" "e \<noteq> E_INTR" | "s = 0" by linarith
    then show ?thesis
    proof cases
      case 1
      note st = send_step [OF 1, of nleft]
      have le: "s \<le> uint nleft" and got: "received store inbox ptr (nat s) os os1"
        using spec 1 by (auto simp: received_def)
      have lt: "((unat (nleft - of_int s), patience os1), (unat nleft, patience os))
             \<in> {(x, y). x < y} <*lex*> {(x, y). x < y}"
        using st(1) [OF le] st(3) [OF le] st(4) [OF le] by simp
      from "1.hyps" [OF lt, of "ptr + of_int s"] obtain r os' k where
        r: "cs_recvn_loop recv sd n (ptr + of_int s) (nleft - of_int s) os1 = Some (r, os')"
          "k \<le> unat (nleft - of_int s)" "received store inbox (ptr + of_int s) k os1 os'"
          "r = sint (n - (nleft - of_int s) + of_nat k) \<and> (k < unat (nleft - of_int s) \<longrightarrow> inbox os' = [])
           \<or> r < 0 \<and> k < unat (nleft - of_int s)" by blast
      have kle: "nat s + k \<le> unat nleft" using r(2) st(1) [OF le] st(3) [OF le] by simp
      then have "nat s + k < 2 ^ 64" using unsigned_less [of nleft, where ?'a = nat] by simp
      then have "received store inbox ptr (nat s + k) os os'"
        using received_trans [OF got] r(3) st(2) [OF le] by simp
      moreover have "cs_recvn_loop recv sd n ptr nleft os = Some (r, os')"
        using r(1) 1 pos by (simp add: unfold call)
      moreover have sum: "n - (nleft - of_int s) + of_nat k = n - nleft + of_nat (nat s + k)"
        unfolding st(2) [OF le] by (simp add: algebra_simps)
      have "r = sint (n - nleft + of_nat (nat s + k)) \<and> (nat s + k < unat nleft \<longrightarrow> inbox os' = [])
          \<or> r < 0 \<and> nat s + k < unat nleft"
        using r(4) [unfolded sum st(1) [OF le]] st(3) [OF le] by (auto simp del: of_nat_add)
      ultimately show ?thesis using kle by blast
    next
      case 2
      then have w: "inbox os1 = inbox os" "store os1 = store os" and p: "patience os1 < patience os"
        using spec by auto
      then have lt: "((unat nleft, patience os1), (unat nleft, patience os)) \<in> {(x, y). x < y} <*lex*> {(x, y). x < y}"
        by simp
      have same: "received store inbox ptr k os = received store inbox ptr k os1" for k
        by (simp add: fun_eq_iff received_def w)
      show ?thesis using "1.hyps" [OF lt, of ptr] 2 pos by (simp add: unfold call same)
    next
      case 3
      then have "received store inbox ptr 0 os os1" using spec by (intro received_none) auto
      then show ?thesis using 3 pos by (intro exI [of _ s] exI [of _ os1] exI [of _ 0]) (simp add: unfold call)
    next
      case 4
      then have "received store inbox ptr 0 os os1" "inbox os1 = []" using spec by (auto intro: received_none)
      then show ?thesis using 4 pos
        by (intro exI [of _ "sint (n - nleft)"] exI [of _ os1] exI [of _ 0]) (simp add: unfold call)
    qed
  qed
qed

section \<open>Addresses: lemmas\<close>

lemma overwrite_app: "length xs = n \<Longrightarrow> length bs \<le> length ys \<Longrightarrow>
    overwrite n bs (xs @ ys) = Some (xs @ bs @ drop (length bs) ys)"
  by (simp add: overwrite_def)

text \<open>A name that fits: the address is the family, the name and a null byte.\<close>

lemma resolve_unix_ok:
  assumes "unat (str_len name) < M_UNIX_ADDRSTRLEN" "m (str_data name) = Some (path @ rest)"
    and "length path = unat (str_len name)" "length (si_addr si) = 112"
  shows "cs_resolve_unix m name si
           = Some (0, \<lparr>si_family = AF_UNIX, si_addrlen = 110,
                       si_addr = [1, 0] @ path @ [0] @ drop (3 + length path) (si_addr si)\<rparr>)"
proof -
  have len: "length path < 108"
    using assms(1,3) by (simp add: M_UNIX_ADDRSTRLEN_def SOCKADDR_UN_LEN_def SUN_PATH_def)
  have 1: "overwrite 0 [1, 0] (si_addr si) = Some ([1, 0] @ drop 2 (si_addr si))"
    using overwrite_app [of "[]" 0 "[1, 0]" "si_addr si"] assms(4) by (simp add: eval_nat_numeral)
  have 2: "overwrite SUN_PATH path ([1, 0] @ drop 2 (si_addr si))
      = Some (([1, 0] @ path) @ drop (length path + 2) (si_addr si))"
    using overwrite_app [of "[1, 0]" 2 path "drop 2 (si_addr si)"] assms(4) len by (simp add: SUN_PATH_def)
  have 3: "overwrite (SUN_PATH + unat (str_len name)) [0] (([1, 0] @ path) @ drop (length path + 2) (si_addr si))
      = Some (([1, 0] @ path) @ [0] @ drop (3 + length path) (si_addr si))"
    using overwrite_app [of "[1, 0] @ path" "2 + length path" "[0]" "drop (length path + 2) (si_addr si)"]
      assms(3,4) len by (simp add: SUN_PATH_def eval_nat_numeral)
  have 4: "read_bytes m (str_data name) (unat (str_len name)) = Some path"
    using assms(2,3) by (simp add: read_bytes_def)
  show ?thesis
    unfolding cs_resolve_unix_def 1 4 Option.bind.simps(2) 2 3 using assms(1)
    by (simp add: SOCKADDR_UN_LEN_def)
qed

text \<open>The text of a port fits into the 21 bytes.\<close>

lemma c_string_of_buffer:
  assumes "CHR 0x00 \<notin> set s"
  shows "takeWhile (\<lambda>ch. ch \<noteq> CHR 0x00) (s @ CHR 0x00 # rest) = s"
  using assms by (simp add: takeWhile_append takeWhile_eq_all_conv [THEN iffD2])

lemma digits_no_null: "list_all is_digit cs \<Longrightarrow> CHR 0x00 \<notin> set cs"
  by (auto simp: list_all_iff is_digit_def)

lemma port_text:
  assumes "cs_valid_port port"
  shows "fmt_d port = dec_nat (nat port)" "length (fmt_d port) \<le> 5" "CHR 0x00 \<notin> set (fmt_d port)"
    "cs_atoi (fmt_d port) (of_nat (length (fmt_d port))) = Some port"
proof -
  have b: "1 \<le> port" "port \<le> 65535" using assms by (auto simp: cs_valid_port_def split: if_splits)
  show d: "fmt_d port = dec_nat (nat port)" using b by (simp add: fmt_d_def)
  have "nat port < 10 ^ 5" using b by simp
  then show l: "length (fmt_d port) \<le> 5" unfolding d by (rule dec_nat_length) simp
  show "CHR 0x00 \<notin> set (fmt_d port)" unfolding d by (rule digits_no_null [OF dec_nat_digits])
  have "unat (of_nat (length (fmt_d port)) :: size_t) = length (fmt_d port)"
    using l by (simp add: unat_of_nat)
  moreover have "(of_nat (length (fmt_d port)) :: size_t) \<noteq> 0"
    using calculation d by (auto simp del: of_nat_eq_0_iff)
  ultimately show "cs_atoi (fmt_d port) (of_nat (length (fmt_d port))) = Some port"
    using atoi_loop_digits [OF dec_nat_digits, of 0 "nat port" "[]"] dec_nat_value [of "nat port"] b
    by (simp add: cs_atoi_def d INT_MAX_def)
qed

lemma vsnprintf_fits:
  assumes "length s < unat n" "unat n \<le> length buf" "int (length s) \<le> INT_MAX"
  shows "vsnprintf (Some s) n 0 buf = Some (int (length s), s @ CHR 0x00 # drop (length s + 1) buf)"
proof -
  have "n \<noteq> 0" using assms(1) by auto
  then show ?thesis using assms by (simp add: vsnprintf_def Let_def)
qed

lemma unresolve_text:
  assumes "getnameinfo ad n = (status, host, service)" "0 \<le> status" "length static = UNRESOLVE_LEN"
    and "length host < 1025" "length service < 32" "CHR 0x00 \<notin> set host" "CHR 0x00 \<notin> set service"
  shows "\<exists>static'. cs_unresolve_addr getnameinfo ad n static = Some (host @ '':'' @ service, static') \<and>
           length static' = UNRESOLVE_LEN"
proof -
  let ?s = "host @ '':'' @ service"
  have u: "unat (of_nat UNRESOLVE_LEN :: size_t) = UNRESOLVE_LEN" by (simp add: UNRESOLVE_LEN_def)
  have v: "vsnprintf (Some ?s) (of_nat UNRESOLVE_LEN) 0 static
      = Some (int (length ?s), ?s @ CHR 0x00 # drop (length ?s + 1) static)"
    by (rule vsnprintf_fits) (use assms in \<open>simp_all add: u UNRESOLVE_LEN_def INT_MAX_def\<close>)
  have c: "takeWhile (\<lambda>ch. ch \<noteq> CHR 0x00) (?s @ CHR 0x00 # drop (length ?s + 1) static) = ?s"
    by (rule c_string_of_buffer) (use assms in simp)
  show ?thesis
    unfolding cs_unresolve_addr_def assms(1) prod.case v Option.bind.simps(2) c
    using assms by (simp add: UNRESOLVE_LEN_def)
qed

end
