(* ===== verification/Util_Spec.thy ===== *)
theory Util_Spec
  imports Strings Log Sockets
begin

text \<open>
  Properties of the strings, the formatted text, the log and the socket functions.  The examples
  the witnesses use are at the start: a log that collects what is written, and a peer whose answers
  to \<open>send\<close> and \<open>recv\<close> are a list.
\<close>

section \<open>Examples\<close>

text \<open>The state is the list of the texts written so far.\<close>

definition ex_libc :: "string list libc" where
  "ex_libc = \<lparr>c_open = (\<lambda>file os. (3, os)), c_close = (\<lambda>fd os. os),
     c_write = (\<lambda>fd s os. (0, os @ [s])), c_asctime = (\<lambda>os. ''Thu Jan  9 10:00:00 2014'' @ [CHR 0x0A]),
     c_strerror = (\<lambda>os. ''none''), c_garbage = (\<lambda>os i. CHR ''?'')\<rparr>"

definition ex_logger :: logger where
  "ex_logger = \<lparr>log_name = None, log_level = 5, log_fd = 2, log_nerror = 0\<rparr>"

text \<open>
  A connection: the answers to come (how many bytes are moved at most, or an interruption), the bytes
  on the wire and the memory.
\<close>

record ex_net =
  en_plan :: "nat option list"
  en_wire :: "uint8 list"
  en_store :: "addr \<Rightarrow> uint8"

fun ex_patience :: "nat option list \<Rightarrow> nat" where
  "ex_patience (None # plan) = Suc (ex_patience plan)"
| "ex_patience _ = 0"

definition ex_send :: "(addr \<Rightarrow> uint8) \<Rightarrow> ex_net transfer_call" where
  "ex_send mem sd ptr k os =
     (case en_plan os of
        None # plan \<Rightarrow> (- 1, E_INTR, os\<lparr>en_plan := plan\<rparr>)
      | Some j # plan \<Rightarrow>
          let r = min j (unat k) in
          (int r, 0, os\<lparr>en_plan := plan, en_wire := en_wire os @ bytes_at mem ptr r\<rparr>)
      | [] \<Rightarrow> (int (unat k), 0, os\<lparr>en_wire := en_wire os @ bytes_at mem ptr (unat k)\<rparr>))"

lemma ex_send_ok: "send_ok (ex_send mem) sd mem en_wire (\<lambda>os. ex_patience (en_plan os))"
  unfolding send_ok_def
proof (intro allI impI)
  fix ptr k r e and os os' :: ex_net
  assume a: "ex_send mem sd ptr k os = (r, e, os')"
  let ?P = "if 0 < r then r \<le> uint k \<and> en_wire os' = en_wire os @ bytes_at mem ptr (nat r)
        else en_wire os' = en_wire os \<and>
          (r < 0 \<and> e = E_INTR \<longrightarrow> ex_patience (en_plan os') < ex_patience (en_plan os))"
  have moved: ?P if "r = int j" "j \<le> unat k" "en_wire os' = en_wire os @ bytes_at mem ptr j" for j
  proof -
    have "int j \<le> int (unat k)" using that(2) by (simp only: of_nat_le_iff)
    then show ?P using that by (cases "j = 0") auto
  qed
  show ?P
  proof (cases "en_plan os")
    case Nil
    then show ?P using a by (intro moved [of "unat k"]) (auto simp: ex_send_def)
  next
    case (Cons p plan)
    show ?P
    proof (cases p)
      case None
      then show ?P using a Cons by (auto simp: ex_send_def)
    next
      case (Some j)
      then show ?P using a Cons by (intro moved [of "min j (unat k)"]) (auto simp: ex_send_def Let_def)
    qed
  qed
qed

text \<open>The same connection read: the bytes on the wire are moved to the memory.\<close>

definition store_bytes :: "addr \<Rightarrow> uint8 list \<Rightarrow> (addr \<Rightarrow> uint8) \<Rightarrow> addr \<Rightarrow> uint8" where
  "store_bytes p bs mem = (\<lambda>x. if unat (x - p) < length bs then bs ! unat (x - p) else mem x)"

definition ex_recv :: "ex_net transfer_call" where
  "ex_recv sd ptr k os =
     (case en_plan os of
        None # plan \<Rightarrow> (- 1, E_INTR, os\<lparr>en_plan := plan\<rparr>)
      | _ \<Rightarrow>
          let j = (case en_plan os of Some j # plan \<Rightarrow> Suc j | _ \<Rightarrow> unat k);
              r = min (min j (unat k)) (length (en_wire os)) in
          (int r, 0, os\<lparr>en_plan := tl (en_plan os), en_wire := drop r (en_wire os),
             en_store := store_bytes ptr (take r (en_wire os)) (en_store os)\<rparr>))"

lemma store_bytes_at: "length bs < 2 ^ 64 \<Longrightarrow> bytes_at (store_bytes p bs mem) p (length bs) = bs"
  by (rule nth_equalityI) (simp_all add: bytes_at_def store_bytes_def unat_of_nat)

lemma store_bytes_outside: "x \<notin> region p (length bs) \<Longrightarrow> store_bytes p bs mem x = mem x"
proof -
  have "x \<in> region p (length bs)" if "unat (x - p) < length bs"
    unfolding region_def by (rule image_eqI [of _ _ "unat (x - p)"]) (use that in simp_all)
  then show "x \<notin> region p (length bs) \<Longrightarrow> store_bytes p bs mem x = mem x"
    by (auto simp: store_bytes_def)
qed

lemma ex_recv_ok: "recv_ok ex_recv sd en_store en_wire (\<lambda>os. ex_patience (en_plan os))"
  unfolding recv_ok_def
proof (intro allI impI)
  fix ptr k r e and os os' :: ex_net
  assume a: "ex_recv sd ptr k os = (r, e, os') \<and> 0 < k"
  let ?P = "if 0 < r then r \<le> uint k \<and> en_wire os = bytes_at (en_store os') ptr (nat r) @ en_wire os' \<and>
          (\<forall>x. x \<notin> region ptr (nat r) \<longrightarrow> en_store os' x = en_store os x)
        else en_wire os' = en_wire os \<and> en_store os' = en_store os \<and> (r = 0 \<longrightarrow> en_wire os = []) \<and>
          (r < 0 \<and> e = E_INTR \<longrightarrow> ex_patience (en_plan os') < ex_patience (en_plan os))"
  have moved: ?P if "r = int j" "j \<le> unat k" "j \<le> length (en_wire os)" "j = 0 \<longrightarrow> en_wire os = []"
      "en_wire os' = drop j (en_wire os)" "en_store os' = store_bytes ptr (take j (en_wire os)) (en_store os)" for j
  proof (cases "j = 0")
    case True
    then show ?P using that by (simp add: store_bytes_def)
  next
    case False
    have le: "int j \<le> int (unat k)" using that(2) by (simp only: of_nat_le_iff)
    have len: "length (take j (en_wire os)) = j" using that(3) by simp
    have "j < 2 ^ 64" using that(2) unsigned_less [of k, where ?'a = nat] by simp
    then have "bytes_at (en_store os') ptr j = take j (en_wire os)"
      using store_bytes_at [of "take j (en_wire os)"] len by (simp add: that(6))
    moreover have "en_store os' x = en_store os x" if "x \<notin> region ptr j" for x
      using store_bytes_outside [of x ptr "take j (en_wire os)"] len that by (simp add: \<open>en_store os' = _\<close>)
    ultimately show ?P using False le that(1,5) by simp
  qed
  have pos: "0 < unat k" using a by (simp add: unat_gt_0 word_gt_0)
  show ?P
  proof (cases "\<exists>plan. en_plan os = None # plan")
    case True
    then show ?P using a by (auto simp: ex_recv_def)
  next
    case False
    define j where "j = (case en_plan os of Some j # plan \<Rightarrow> Suc j | _ \<Rightarrow> unat k)"
    have j: "0 < j" using pos by (auto simp: j_def split: list.splits option.splits)
    have "ex_recv sd ptr k os = (let r = min (min j (unat k)) (length (en_wire os)) in
          (int r, 0, os\<lparr>en_plan := tl (en_plan os), en_wire := drop r (en_wire os),
             en_store := store_bytes ptr (take r (en_wire os)) (en_store os)\<rparr>))"
      using False by (auto simp: ex_recv_def j_def split: list.splits option.splits)
    then show ?P using a pos j
      by (intro moved [of "min (min j (unat k)) (length (en_wire os))"]) (auto simp: Let_def min_def)
  qed
qed

lemma ex_copied:
  "\<exists>tl. string_copy (\<lambda>n. 64) string_init 16 2 [16 \<mapsto> [104, 105, 0]]
      = Inr (M_OK, \<lparr>str_len = 2, str_data = 64\<rparr>, [16 \<mapsto> [104, 105, 0], 64 \<mapsto> [104, 105] @ 0 # tl])"
  using string_fill_ok [where m = "[16 \<mapsto> [104, 105, 0]]" and src = 16 and as = "[104, 105]" and b = 0
      and rest = "[]" and srclen = 2 and malloc = "\<lambda>n. 64" and p = 64 and dst = string_init]
  by (auto simp: string_copy_def string_init_def)

section \<open>Strings\<close>

lemma sint_of_small: "k < 2 ^ 63 \<Longrightarrow> sint (of_nat k :: 64 word) = int k"
  by (simp add: sint_uint uint_nat unat_of_nat signed_take_bit_int_eq_self)

text \<open>String_copy: from a block with at least one byte behind the length, without a null byte, a copy
  of exactly those bytes with a null byte behind them; string_duplicate does the same; without
  memory the target stays the empty string and the status says so.\<close>

theorem string_copy_correct:
  assumes "m src = Some (as @ b # rest)" "length as = unat n" "0 \<notin> set as" "n \<noteq> - 1" "n \<noteq> 0" "src \<noteq> NULL"
    and p: "malloc (of_nat (length (if b = 0 then as else as @ [b]) + 1)) = p"
  shows "if p = NULL then
           string_copy malloc string_init src n m = Inr (M_ENOMEM, string_init, m) \<and>
           string_duplicate malloc string_init \<lparr>str_len = n, str_data = src\<rparr> m = Inr (M_ENOMEM, string_init, m)
         else
           \<exists>tl. string_copy malloc string_init src n m
                  = Inr (M_OK, \<lparr>str_len = n, str_data = p\<rparr>, m(p \<mapsto> as @ 0 # tl)) \<and>
                string_duplicate malloc string_init \<lparr>str_len = n, str_data = src\<rparr> m
                  = Inr (M_OK, \<lparr>str_len = n, str_data = p\<rparr>, m(p \<mapsto> as @ 0 # tl))"
proof -
  have same: "string_copy malloc string_init src n m = string_fill malloc string_init src n m"
      "string_duplicate malloc string_init \<lparr>str_len = n, str_data = src\<rparr> m = string_fill malloc string_init src n m"
    using assms by (simp_all add: string_copy_def string_duplicate_def string_init_def)
  show ?thesis
  proof (cases "p = NULL")
    case True
    have "strn_bytes (unat (ucast (n + 1) :: size_t)) (as @ b # rest) = Some (if b = 0 then as else as @ [b])"
      using strn_bytes_no_null [OF assms(3), of b rest] fill_length [OF assms(4)] assms(2) by simp
    then have "strndup malloc src (ucast (n + 1)) m = Some (NULL, m)"
      using assms(1) p True by (simp add: strndup_def)
    then have "string_fill malloc string_init src n m = Inr (M_ENOMEM, string_init, m)"
      by (simp add: string_fill_def string_init_def)
    then show ?thesis using True by (simp add: same)
  next
    case False
    then show ?thesis
      using string_fill_ok [where m = m and as = as and b = b and rest = rest and src = src and srclen = n
          and malloc = malloc and p = p and dst = string_init, OF assms(1-4) p False] by (simp add: same)
  qed
qed

lemma string_copy_correct_witness:
  "\<exists>tl. string_copy (\<lambda>n. 64) string_init 16 2 [16 \<mapsto> [104, 105, 0]]
      = Inr (M_OK, \<lparr>str_len = 2, str_data = 64\<rparr>, [16 \<mapsto> [104, 105, 0], 64 \<mapsto> [104, 105] @ 0 # tl])"
  using string_copy_correct [where m = "[16 \<mapsto> [104, 105, 0]]" and src = 16 and as = "[104, 105]" and b = 0
      and rest = "[]" and n = 2 and malloc = "\<lambda>n. 64" and p = 64]
  by auto

text \<open>C39: A null byte before the length makes string_copy and string_duplicate write behind the copy: the copy
  ends at the null byte, the terminating byte is written at the length.\<close>

theorem string_copy_overflow:
  assumes "m src = Some (as @ 0 # rest)" "length as < unat n" "0 \<notin> set as" "n \<noteq> - 1" "src \<noteq> NULL"
    and "malloc (of_nat (length as + 1)) \<noteq> NULL"
  shows "string_copy malloc string_init src n m = Inl Segv \<and>
         string_duplicate malloc string_init \<lparr>str_len = n, str_data = src\<rparr> m = Inl Segv"
proof -
  have "n \<noteq> 0" using assms(2) by auto
  moreover have "string_fill malloc dst src n m = Inl Segv" for dst
    by (rule string_fill_overflow) (rule assms)+
  ultimately show ?thesis using assms(5)
    by (simp add: string_copy_def string_duplicate_def string_init_def)
qed

lemma string_copy_overflow_witness:
  "string_copy (\<lambda>n. 64) string_init 16 3 [16 \<mapsto> [104, 0, 105, 0]] = Inl Segv"
  using string_copy_overflow [where m = "[16 \<mapsto> [104, 0, 105, 0]]" and src = 16 and as = "[104]"
      and rest = "[105, 0]" and n = 3 and malloc = "\<lambda>n. 64"]
  by simp

text \<open>C40: Whatever the memory holds, the functions that make or clear a string keep its well-formedness: a length
  of zero exactly with a null pointer.\<close>

theorem string_wf_kept:
  "string_wf string_init \<and>
   (\<forall>r dst' m'. string_copy malloc dst src n m = Inr (r, dst', m') \<longrightarrow> string_wf dst') \<and>
   (\<forall>r dst' m'. string_duplicate malloc dst str m = Inr (r, dst', m') \<longrightarrow> string_wf dst') \<and>
   (\<forall>str' m'. string_deinit str m = Inr (str', m') \<longrightarrow> str' = string_init)"
proof (intro conjI allI impI)
  show "string_wf string_init" by (simp add: string_wf_def string_init_def)
  have fill: "string_wf dst'" if "string_fill malloc dst src n m = Inr (r, dst', m')" "n \<noteq> 0" "str_len dst = 0"
    for src n r dst' m'
    using that by (auto simp: string_fill_def string_wf_def andThen_eq_Inr split: if_splits)
  show "string_wf dst'" if "string_copy malloc dst src n m = Inr (r, dst', m')" for r dst' m'
    using fill [of src n] that by (auto simp: string_copy_def andThen_eq_Inr)
  show "string_wf dst'" if "string_duplicate malloc dst str m = Inr (r, dst', m')" for r dst' m'
    using fill [of "str_data str" "str_len str"] that by (auto simp: string_duplicate_def andThen_eq_Inr)
  show "str' = string_init" if "string_deinit str m = Inr (str', m')" for str' m'
    using that by (cases str) (auto simp: string_deinit_def string_wf_def string_init_def andThen_eq_Inr split: if_splits)
qed

lemma string_wf_kept_witness:
  "\<exists>tl. string_copy (\<lambda>n. 64) string_init 16 2 [16 \<mapsto> [104, 105, 0]]
      = Inr (M_OK, \<lparr>str_len = 2, str_data = 64\<rparr>, [16 \<mapsto> [104, 105, 0], 64 \<mapsto> [104, 105] @ 0 # tl]) \<and>
    string_wf \<lparr>str_len = 2, str_data = 64\<rparr>"
proof -
  obtain tl where r: "string_copy (\<lambda>n. 64) string_init 16 2 [16 \<mapsto> [104, 105, 0]]
      = Inr (M_OK, \<lparr>str_len = 2, str_data = 64\<rparr>, [16 \<mapsto> [104, 105, 0], 64 \<mapsto> [104, 105] @ 0 # tl])"
    using ex_copied by blast
  then have "string_wf \<lparr>str_len = 2, str_data = 64\<rparr>" using string_wf_kept by blast
  with r show ?thesis by blast
qed

text \<open>String_compare on strings of the same length without null bytes is 0 exactly for equal bytes; on strings
  of different lengths it is 1 whichever comes first, because the difference of the lengths is unsigned, so the
  result is no order.\<close>

theorem string_compare_correct:
  assumes "m (str_data s1) = Some (as @ xs)" "m (str_data s2) = Some (bs @ ys)"
    and "length as = unat (str_len s1)" "length bs = unat (str_len s2)" "0 \<notin> set as"
  shows "if str_len s1 = str_len s2
         then \<exists>r. string_compare s1 s2 m = Some r \<and> (r = 0 \<longleftrightarrow> as = bs)
         else string_compare s1 s2 m = Some 1 \<and> string_compare s2 s1 m = Some 1"
proof (cases "str_len s1 = str_len s2")
  case same: True
  show ?thesis
  proof (cases "str_len s1 = 0")
    case True
    then show ?thesis using assms same by (simp add: string_compare_def)
  next
    case False
    then show ?thesis using assms same strncmp_zero [of "unat (str_len s1)" "as @ xs" "bs @ ys"]
      by (simp add: string_compare_def)
  qed
next
  case False
  then show ?thesis by (auto simp: string_compare_def word_gt_0)
qed

lemma string_compare_correct_witness:
  "(\<exists>r. string_compare \<lparr>str_len = 1, str_data = 16\<rparr> \<lparr>str_len = 1, str_data = 32\<rparr> [16 \<mapsto> [104, 0], 32 \<mapsto> [105, 0]]
       = Some r \<and> r \<noteq> 0) \<and>
   string_compare \<lparr>str_len = 1, str_data = 16\<rparr> \<lparr>str_len = 2, str_data = 32\<rparr> [16 \<mapsto> [104, 0], 32 \<mapsto> [105, 105, 0]] = Some 1"
  using string_compare_correct [where ?s1.0 = "\<lparr>str_len = 1, str_data = 16\<rparr>" and ?s2.0 = "\<lparr>str_len = 1, str_data = 32\<rparr>"
      and m = "[16 \<mapsto> [104, 0], 32 \<mapsto> [105, 0]]" and as = "[104]" and bs = "[105]" and xs = "[0]" and ys = "[0]"]
    string_compare_correct [where ?s1.0 = "\<lparr>str_len = 1, str_data = 16\<rparr>" and ?s2.0 = "\<lparr>str_len = 2, str_data = 32\<rparr>"
      and m = "[16 \<mapsto> [104, 0], 32 \<mapsto> [105, 105, 0]]" and as = "[104]" and bs = "[105, 105]" and xs = "[0]" and ys = "[0]"]
  by simp

text \<open>\<open>_cs_strchr\<close> ends at the first address before the limit whose byte is the one that is searched.\<close>

theorem strchr_correct:
  assumes "p \<le> q" "q < limit" "mem q = Some c" "\<forall>x. p \<le> x \<and> x < q \<longrightarrow> (\<exists>b. mem x = Some b \<and> b \<noteq> c)"
  shows "cs_strchr mem p limit c = Some q"
  by (rule strchr_finds [OF assms])

lemma strchr_correct_witness:
  "cs_strchr [10 \<mapsto> 97, 11 \<mapsto> 58, 12 \<mapsto> 58] 10 13 58 = Some 11"
proof (rule strchr_correct)
  show "\<forall>x :: addr. 10 \<le> x \<and> x < 11 \<longrightarrow> (\<exists>b. [10 \<mapsto> 97, 11 \<mapsto> 58, 12 \<mapsto> 58] x = Some b \<and> b \<noteq> (58 :: uint8))"
  proof (intro allI impI)
    fix x :: addr
    assume "10 \<le> x \<and> x < 11"
    then have "10 \<le> uint x" "uint x < 11" by (simp_all add: word_le_def word_less_def)
    then have "uint x = uint (10 :: addr)" by simp
    then have "x = 10" by (simp only: word_uint_eq_iff)
    then show "\<exists>b. [10 \<mapsto> 97, 11 \<mapsto> 58, 12 \<mapsto> 58] x = Some b \<and> b \<noteq> (58 :: uint8)" by simp
  qed
qed simp_all

section \<open>Numbers and addresses\<close>

text \<open>_cs_atoi of a text of decimal digits is its value, an overflow of the int when the value is larger than
  INT_MAX; a byte that is no digit, met before an overflow, makes the result -1.\<close>

theorem atoi_correct:
  assumes "list_all is_digit cs"
  shows "(length cs = unat n \<longrightarrow> cs \<noteq> [] \<longrightarrow>
            cs_atoi (cs @ rest) n = (if dec_value 0 cs \<le> INT_MAX then Some (dec_value 0 cs) else None)) \<and>
         (length cs < unat n \<longrightarrow> \<not> is_digit c \<longrightarrow> dec_value 0 cs \<le> INT_MAX \<longrightarrow>
            cs_atoi (cs @ c # rest) n = Some (- 1))"
proof (intro conjI impI)
  assume "length cs = unat n" "cs \<noteq> []"
  then show "cs_atoi (cs @ rest) n = (if dec_value 0 cs \<le> INT_MAX then Some (dec_value 0 cs) else None)"
    using atoi_loop_digits [OF assms, of 0 rest] by (auto simp: cs_atoi_def INT_MAX_def)
next
  assume "length cs < unat n" "\<not> is_digit c" "dec_value 0 cs \<le> INT_MAX"
  then show "cs_atoi (cs @ c # rest) n = Some (- 1)"
    using atoi_loop_no_digit [OF assms, of 0 c "unat n" rest] by (auto simp: cs_atoi_def)
qed

lemma atoi_correct_witness:
  "cs_atoi ''8080/'' 4 = Some 8080 \<and> cs_atoi ''80x'' 3 = Some (- 1) \<and> cs_atoi ''2147483648'' 10 = None"
  using atoi_correct [of "''8080''" 4 "''/''" "CHR ''x''"] atoi_correct [of "''80''" 3 "[]" "CHR ''x''"]
    atoi_correct [of "''2147483648''" 10 "[]" "CHR ''x''"]
  by (simp add: is_digit_def INT_MAX_def)

text \<open>The address resolver asks for the service whose text is the decimal port, which _cs_atoi reads back, and
  takes the first address of the list whatever the array of the service held before.\<close>

theorem resolve_inet_correct:
  assumes "cs_valid_port port" "length service = 21"
    and "getaddrinfo None (fmt_d port) (AI_NUMERICSERV OR AI_PASSIVE) = (0, Some (ai # ais))"
    and "length (ai_addr ai) = unat (ai_addrlen ai)" "length (ai_addr ai) \<le> length (si_addr si)"
  shows "cs_resolve getaddrinfo service m None port si
           = Inr (0, \<lparr>si_family = ai_family ai, si_addrlen = ai_addrlen ai,
                       si_addr = ai_addr ai @ drop (length (ai_addr ai)) (si_addr si)\<rparr>) \<and>
         cs_atoi (fmt_d port) (of_nat (length (fmt_d port))) = Some port"
proof
  note pt = port_text [OF assms(1)]
  show "cs_atoi (fmt_d port) (of_nat (length (fmt_d port))) = Some port" by (rule pt(4))
  have v: "vsnprintf (Some (fmt_d port)) 21 0 service
      = Some (int (length (fmt_d port)), fmt_d port @ CHR 0x00 # drop (length (fmt_d port) + 1) service)"
    by (rule vsnprintf_fits) (use pt(2) assms(2) in \<open>simp_all add: INT_MAX_def\<close>)
  have t: "takeWhile (\<lambda>ch. ch \<noteq> CHR 0x00) (fmt_d port @ CHR 0x00 # drop (length (fmt_d port) + 1) service) = fmt_d port"
    by (rule c_string_of_buffer [OF pt(3)])
  have o: "overwrite 0 (ai_addr ai) (si_addr si) = Some (ai_addr ai @ drop (length (ai_addr ai)) (si_addr si))"
    using assms(5) by (simp add: overwrite_def)
  show "cs_resolve getaddrinfo service m None port si
           = Inr (0, \<lparr>si_family = ai_family ai, si_addrlen = ai_addrlen ai,
                       si_addr = ai_addr ai @ drop (length (ai_addr ai)) (si_addr si)\<rparr>)"
    using assms(1,3,4) o by (simp add: cs_resolve_def cs_resolve_inet_def v t [folded Suc_eq_plus1] Let_def)
qed

definition ex_getaddrinfo :: getaddrinfo_call where
  "ex_getaddrinfo node service flags = (0, Some [\<lparr>ai_family = 2, ai_addrlen = 4, ai_addr = [1, 2, 3, 4]\<rparr>])"

lemma resolve_inet_correct_witness:
  "cs_resolve ex_getaddrinfo (replicate 21 (CHR ''?'')) Map.empty None 8080 \<lparr>si_family = 0, si_addrlen = 0, si_addr = replicate 112 0\<rparr>
     = Inr (0, \<lparr>si_family = 2, si_addrlen = 4, si_addr = [1, 2, 3, 4] @ drop 4 (replicate 112 0)\<rparr>)"
  using resolve_inet_correct [of 8080 "replicate 21 (CHR ''?'')" ex_getaddrinfo
      "\<lparr>ai_family = 2, ai_addrlen = 4, ai_addr = [1, 2, 3, 4]\<rparr>" "[]"
      "\<lparr>si_family = 0, si_addrlen = 0, si_addr = replicate 112 0\<rparr>" Map.empty]
  by (simp add: ex_getaddrinfo_def cs_valid_port_def)

text \<open>A path name becomes a Unix address when it is shorter than the array for the path, which then holds the
  name and a null byte; a longer name is refused and the address is not touched.\<close>

theorem resolve_unix_correct:
  assumes "m (str_data name) = Some (47 # path @ rest)" "Suc (length path) = unat (str_len name)"
    and "length (si_addr si) = 112"
  shows "cs_resolve getaddrinfo service m (Some name) port si
           = (if Suc (length path) < 108
              then Inr (0, \<lparr>si_family = AF_UNIX, si_addrlen = 110,
                            si_addr = [1, 0] @ (47 # path) @ [0] @ drop (4 + length path) (si_addr si)\<rparr>)
              else Inr (- 1, si))"
proof -
  have 1: "cs_resolve getaddrinfo service m (Some name) port si = deref (cs_resolve_unix m name si)"
    using assms(1) by (simp add: cs_resolve_def read_bytes_def)
  have bound: "unat (str_len name) < M_UNIX_ADDRSTRLEN \<longleftrightarrow> Suc (length path) < 108"
    using assms(2) by (simp add: M_UNIX_ADDRSTRLEN_def SOCKADDR_UN_LEN_def SUN_PATH_def)
  show ?thesis
  proof (cases "Suc (length path) < 108")
    case True
    then have "cs_resolve_unix m name si
        = Some (0, \<lparr>si_family = AF_UNIX, si_addrlen = 110,
                       si_addr = [1, 0] @ (47 # path) @ [0] @ drop (3 + length (47 # path)) (si_addr si)\<rparr>)"
      using bound assms by (intro resolve_unix_ok [of name m "47 # path" rest]) simp_all
    then show ?thesis using 1 True by simp
  next
    case False
    then show ?thesis using 1 bound by (simp add: cs_resolve_unix_def)
  qed
qed

lemma resolve_unix_correct_witness:
  "cs_resolve ex_getaddrinfo [] [16 \<mapsto> [47, 97, 0]] (Some \<lparr>str_len = 2, str_data = 16\<rparr>) 0
      \<lparr>si_family = 0, si_addrlen = 0, si_addr = replicate 112 9\<rparr>
    = Inr (0, \<lparr>si_family = 1, si_addrlen = 110, si_addr = [1, 0] @ [47, 97] @ [0] @ drop 5 (replicate 112 9)\<rparr>)"
  using resolve_unix_correct [where m = "[16 \<mapsto> [47, 97, 0]]" and name = "\<lparr>str_len = 2, str_data = 16\<rparr>" and path = "[97]" and rest = "[0]"
      and si = "\<lparr>si_family = 0, si_addrlen = 0, si_addr = replicate 112 9\<rparr>"
      and getaddrinfo = ex_getaddrinfo and service = "[]" and port = 0]
  by simp

lemma or_and_not: "(x OR k) AND NOT k = x AND NOT (k :: int)"
  by (rule bit_eqI) (auto simp: bit_and_iff bit_or_iff bit_not_iff)

text \<open>Setting a descriptor to non-blocking and then to blocking changes no flag but O_NONBLOCK, which is set
  in between and clear at the end.\<close>

theorem nonblocking_roundtrip:
  assumes "fcntl_ok fcntl fl sd" "cs_set_nonblocking fcntl sd os = (r1, os1)" "0 \<le> r1"
    and "cs_set_blocking fcntl sd os1 = (r2, os2)" "0 \<le> r2"
  shows "fl os1 sd = fl os sd OR O_NONBLOCK \<and> fl os2 sd = fl os sd AND NOT O_NONBLOCK"
proof -
  have "fl os2 sd = (fl os sd OR O_NONBLOCK) AND NOT O_NONBLOCK"
    using set_blocking_flags [OF assms(1,4,5)] set_nonblocking_flags [OF assms(1-3)] by simp
  also have "\<dots> = fl os sd AND NOT O_NONBLOCK" by (rule or_and_not)
  finally show ?thesis using set_nonblocking_flags [OF assms(1-3)] by simp
qed

definition ex_fcntl :: "nat fcntl_call" where
  "ex_fcntl sd request arg fl =
     (if request = F_GETFL then (int fl, fl) else if arg < 0 then (- 1, fl) else (0, nat arg))"

definition ex_flags :: "nat \<Rightarrow> int \<Rightarrow> int" where
  "ex_flags os sd = int os"

lemma nonblocking_roundtrip_witness:
  "cs_set_nonblocking ex_fcntl 7 2 = (0, 2050) \<and> cs_set_blocking ex_fcntl 7 2050 = (0, 2) \<and>
   ex_flags 2050 7 = ex_flags 2 7 OR O_NONBLOCK \<and> ex_flags 2 7 = ex_flags 2 7 AND NOT O_NONBLOCK"
proof -
  have run: "cs_set_nonblocking ex_fcntl 7 2 = (0, 2050)" "cs_set_blocking ex_fcntl 7 2050 = (0, 2)"
    by (simp_all add: cs_set_nonblocking_def cs_set_blocking_def ex_fcntl_def)
  have "fcntl_ok ex_fcntl ex_flags 7" by (auto simp: fcntl_ok_def ex_fcntl_def ex_flags_def)
  from nonblocking_roundtrip [OF this run(1) _ run(2)] show ?thesis using run by simp
qed

section \<open>Whole messages\<close>

text \<open>C29: Whatever way the system cuts the message up and interrupts the calls, _cs_sendn ends (when a call is not
  interrupted for ever), and either the whole message is on the wire and the result is its length, or the result
  is negative and a proper prefix of the message is on the wire.\<close>

theorem sendn_correct:
  assumes "send_ok send sd mem wire patience" "unat n < 2 ^ 63"
  shows "\<exists>r os' k. cs_sendn send sd ptr n os = Some (r, os') \<and> wire os' = wire os @ bytes_at mem ptr k \<and>
           (r = int k \<and> k = unat n \<or> r < 0 \<and> k < unat n)"
proof -
  have "sint n = int (unat n)" using sint_of_small [OF assms(2)] by simp
  then show ?thesis
    using sendn_loop_correct [OF assms(1), of n ptr n os] unfolding cs_sendn_def by metis
qed

lemma sendn_correct_witness:
  "\<exists>r os' k. cs_sendn (ex_send (\<lambda>x. ucast x)) 3 100 5 \<lparr>en_plan = [Some 2, None, Some 1], en_wire = [], en_store = \<lambda>x. 0\<rparr>
       = Some (r, os') \<and>
     en_wire os' = [] @ bytes_at (\<lambda>x. ucast x) 100 k \<and> (r = int k \<and> k = 5 \<or> r < 0 \<and> k < 5)"
  using sendn_correct [OF ex_send_ok, of 5 "\<lambda>x. ucast x" 3 100
      "\<lparr>en_plan = [Some 2, None, Some 1], en_wire = [], en_store = \<lambda>x. 0\<rparr>"]
  by simp

text \<open>C30: _cs_recvn ends; what it took from the stream is in the buffer, in order, and nothing else is changed.  A
  result that is not negative is the number of bytes, smaller than what was asked for only at the end of the
  stream; after an error the bytes that had arrived are not reported.\<close>

theorem recvn_correct:
  assumes "recv_ok recv sd store inbox patience" "unat n < 2 ^ 63"
  shows "\<exists>r os' k. cs_recvn recv sd ptr n os = Some (r, os') \<and> k \<le> unat n \<and>
           inbox os = bytes_at (store os') ptr k @ inbox os' \<and>
           (\<forall>x. x \<notin> region ptr k \<longrightarrow> store os' x = store os x) \<and>
           (r = int k \<and> (k < unat n \<longrightarrow> inbox os' = []) \<or> r < 0 \<and> k < unat n)"
proof -
  obtain r os' k where k: "cs_recvn recv sd ptr n os = Some (r, os')" "k \<le> unat n"
      "received store inbox ptr k os os'"
      "r = sint (n - n + of_nat k) \<and> (k < unat n \<longrightarrow> inbox os' = []) \<or> r < 0 \<and> k < unat n"
    using recvn_loop_correct [OF assms(1), of n ptr n os] unfolding cs_recvn_def by blast
  have "sint (n - n + of_nat k) = int k" using sint_of_small [of k] k(2) assms(2) by simp
  then show ?thesis using k unfolding received_def by metis
qed

lemma recvn_correct_witness:
  "\<exists>r os' k. cs_recvn ex_recv 3 100 5 \<lparr>en_plan = [Some 1, None], en_wire = [7, 8, 9], en_store = \<lambda>x. 0\<rparr>
       = Some (r, os') \<and> k \<le> 5 \<and> [7, 8, 9] = bytes_at (en_store os') 100 k @ en_wire os' \<and>
     (\<forall>x. x \<notin> region 100 k \<longrightarrow> en_store os' x = 0) \<and>
     (r = int k \<and> (k < 5 \<longrightarrow> en_wire os' = []) \<or> r < 0 \<and> k < 5)"
  using recvn_correct [OF ex_recv_ok, of 5 3 100
      "\<lparr>en_plan = [Some 1, None], en_wire = [7, 8, 9], en_store = \<lambda>x. 0\<rparr>"]
  by simp

section \<open>The log\<close>

text \<open>C31: A line of the log is the time, the level, the message and the place, cut off after 255 bytes, and a new
  line; the functions never write outside their buffer, and the process ends only after the write.\<close>

theorem log_line_correct:
  assumes "0 \<le> log_fd l" "texts_fit (c_asctime c os) level msg at" "nerror_ok l"
  shows "log_line c level at panic msg (l, os)
           = (case c_write c (log_fd l) (log_text (c_asctime c os) level msg at) os of
                (r, os') \<Rightarrow> Some (panic, count_error r l, os')) \<and>
         length (log_text (c_asctime c os) level msg at) \<le> 256"
  using log_line_writes [OF assms, of "fst (c_write c (log_fd l) (log_text (c_asctime c os) level msg at) os)"
      "snd (c_write c (log_fd l) (log_text (c_asctime c os) level msg at) os)" panic]
  by (simp add: case_prod_beta log_text_def)

lemma ex_texts_fit: "length m < 100 \<Longrightarrow> texts_fit (c_asctime ex_libc os) ''LOG_INFO'' (Some m) (''a.c'', 7)"
  by (simp add: texts_fit_def ex_libc_def log_header_def log_trailer_def INT_MAX_def fmt_d_def dec_nat.simps)

lemma log_line_correct_witness:
  "log_line ex_libc ''LOG_INFO'' (''a.c'', 7) False (Some ''hello'') (ex_logger, [])
     = Some (False, ex_logger, [''[Thu Jan  9 10:00:00 2014] [LOG_INFO] hello [a.c:7]'' @ [CHR 0x0A]])"
proof -
  have t: "log_text (c_asctime ex_libc []) ''LOG_INFO'' (Some ''hello'') (''a.c'', 7)
      = ''[Thu Jan  9 10:00:00 2014] [LOG_INFO] hello [a.c:7]'' @ [CHR 0x0A]"
    by (simp add: log_text_def log_header_def log_trailer_def ex_libc_def fmt_d_def dec_nat.simps digit_def char_of_eq_iff)
  have "0 \<le> log_fd ex_logger" "nerror_ok ex_logger" by (simp_all add: ex_logger_def nerror_ok_def INT_MAX_def)
  then show ?thesis
    using log_line_correct [OF _ ex_texts_fit [of "''hello''" "[]"], of ex_logger False] t
    by (simp add: ex_libc_def count_error_def)
qed

text \<open>C32: The hexadecimal dump ends and writes the canonical dump of the data, line by line, cut off after 2047 bytes:
  the loop over the buffer is equal to the recursive definition of the dump.\<close>

theorem hexdump_correct:
  assumes "0 \<le> log_fd l" "length data < 2 ^ 31" "nerror_ok l"
  shows "log_hexdump c data (int (length data)) (l, os)
           = (case c_write c (log_fd l) (take 2047 (hexdump_text 0 data)) os of (r, os') \<Rightarrow> Some (count_error r l, os'))"
  using log_hexdump_writes [OF assms, of c os "fst (c_write c (log_fd l) (take 2047 (hexdump_text 0 data)) os)"
      "snd (c_write c (log_fd l) (take 2047 (hexdump_text 0 data)) os)"]
  by (simp add: case_prod_beta)

lemma hexdump_correct_witness:
  "log_hexdump ex_libc ''hi'' 2 (ex_logger, []) = Some (ex_logger, [take 2047 (hexdump_text 0 ''hi'')])"
proof -
  have "0 \<le> log_fd ex_logger" "nerror_ok ex_logger" by (simp_all add: ex_logger_def nerror_ok_def INT_MAX_def)
  then show ?thesis
    using hexdump_correct [of ex_logger "''hi''" ex_libc "[]"] by (simp add: ex_libc_def count_error_def)
qed

text \<open>What can happen to the logger after \<open>log_init\<close>.\<close>

datatype log_op = Level_Up | Level_Down | Level_Set int | Reopen | Line string bool "string option"

fun log_apply :: "'o libc \<Rightarrow> site \<Rightarrow> log_op \<Rightarrow> logger \<times> 'o \<Rightarrow> (logger \<times> 'o) option" where
  "log_apply c at Level_Up w = map_option snd (log_level_up c at w)"
| "log_apply c at Level_Down w = map_option snd (log_level_down c at w)"
| "log_apply c at (Level_Set level) w = map_option snd (log_level_set c at level w)"
| "log_apply c at Reopen w = log_reopen c w"
| "log_apply c at (Line level panic msg) w = map_option snd (log_line c level at panic msg w)"

lemma log_apply_level:
  assumes "log_apply c at op (l, os) = Some (l', os')" "level_ok l"
  shows "level_ok l'"
proof (cases op)
  case Level_Up
  then show ?thesis using assms
    by (auto simp: log_level_up_def loga_def level_ok_def Let_def split: if_splits dest!: log_line_level)
next
  case Level_Down
  then show ?thesis using assms
    by (auto simp: log_level_down_def loga_def level_ok_def Let_def split: if_splits dest!: log_line_level)
next
  case (Level_Set level)
  then show ?thesis using assms log_clamp_bounds [of level]
    by (auto simp: log_level_set_def loga_def level_ok_def Let_def dest!: log_line_level)
next
  case Reopen
  then show ?thesis using assms
    by (auto simp: log_reopen_def level_ok_def Let_def split: if_splits prod.splits Option.bind_splits
        dest!: log_stderr_level)
next
  case (Line level panic msg)
  then show ?thesis using assms by (auto simp: level_ok_def dest!: log_line_level)
qed

lemma log_applies_level:
  "fold_option (log_apply c at) ops (l, os) = Some (l', os') \<Longrightarrow> level_ok l \<Longrightarrow> level_ok l'"
proof (induction ops arbitrary: l os)
  case (Cons op ops)
  from Cons.prems(1) obtain w1 where w1: "log_apply c at op (l, os) = Some w1"
      "fold_option (log_apply c at) ops w1 = Some (l', os')"
    unfolding fold_option.simps bind_eq_Some_conv by blast
  obtain l1 os1 where "w1 = (l1, os1)" by (cases w1)
  with w1 show ?case using Cons.IH [of l1 os1] log_apply_level [of c at op l os l1 os1] Cons.prems(2) by blast
qed simp

text \<open>After log_init with any level, and after any sequence of the functions that change the logger, the level
  is one of the levels of the header.\<close>

theorem log_level_invariant:
  assumes "log_init c level name w = Some (r, w1)" "fold_option (log_apply c at) ops w1 = Some (l', os')"
  shows "LOG_EMERG \<le> log_level l' \<and> log_level l' \<le> LOG_PVERB"
proof -
  obtain l1 os1 where w1: "w1 = (l1, os1)" by (cases w1)
  have "log_level l1 = log_clamp level"
    using assms(1) unfolding w1
    by (cases w) (auto simp: log_init_def Let_def split: option.splits if_splits prod.splits Option.bind_splits
        dest!: log_stderr_level)
  then have "level_ok l1" using log_clamp_bounds [of level] by (simp add: level_ok_def)
  with log_applies_level [OF assms(2) [unfolded w1]] have "level_ok l'" .
  then show ?thesis by (simp add: level_ok_def)
qed

lemma log_level_invariant_witness:
  "\<exists>r w1 l' os'. log_init ex_libc 99 None (ex_logger, []) = Some (r, w1) \<and>
     fold_option (log_apply ex_libc (''a.c'', 1)) [Level_Up, Reopen] w1 = Some (l', os') \<and>
     LOG_EMERG \<le> log_level l' \<and> log_level l' \<le> LOG_PVERB"
proof -
  let ?w1 = "(ex_logger\<lparr>log_level := 11, log_name := None, log_fd := 2\<rparr>, [])"
  have "log_init ex_libc 99 None (ex_logger, []) = Some (0, ?w1)"
    by (simp add: log_init_def log_clamp_def STDERR_FILENO_def Let_def)
  moreover have "fold_option (log_apply ex_libc (''a.c'', 1)) [Level_Up, Reopen] ?w1 = Some ?w1"
    by (simp add: log_level_up_def log_reopen_def STDERR_FILENO_def)
  moreover note log_level_invariant [OF calculation]
  ultimately show ?thesis by blast
qed

end
