(* ===== verification/Coro.thy ===== *)
theory Coro
  imports Prelude
begin

text \<open>
  src/cs_coro.c and src/cs_coro.h with the backend the project builds, CORO_ASM on amd64 and Linux:
  the machine code of \<open>coro_transfer\<close> as a list of instructions that an interpreter runs on the
  registers and a memory of 64-bit cells, \<open>coro_create\<close>, \<open>coro_init\<close> and the management of stacks.
  Only cells at multiples of 8 can be accessed; \<open>None\<close> is an access to a cell that is not there.
  The other backends are not built.
\<close>

type_synonym uint64 = "64 word"
type_synonym memory = "addr \<rightharpoonup> uint64"

section \<open>The machine\<close>

text \<open>The registers a function has to leave as it found them, and the others the code uses.\<close>

record callee =
  rbp :: uint64
  rbx :: uint64
  r12 :: uint64
  r13 :: uint64
  r14 :: uint64
  r15 :: uint64

record cpu = callee +
  rsp :: uint64
  rdi :: uint64
  rsi :: uint64
  rcx :: uint64
  rip :: uint64
  mem :: memory

datatype reg = RBP | RBX | R12 | R13 | R14 | R15 | RSP | RDI | RSI | RCX

fun get_reg :: "reg \<Rightarrow> cpu \<Rightarrow> uint64" where
  "get_reg RBP c = rbp c"
| "get_reg RBX c = rbx c"
| "get_reg R12 c = r12 c"
| "get_reg R13 c = r13 c"
| "get_reg R14 c = r14 c"
| "get_reg R15 c = r15 c"
| "get_reg RSP c = rsp c"
| "get_reg RDI c = rdi c"
| "get_reg RSI c = rsi c"
| "get_reg RCX c = rcx c"

fun set_reg :: "reg \<Rightarrow> uint64 \<Rightarrow> cpu \<Rightarrow> cpu" where
  "set_reg RBP v c = c\<lparr>rbp := v\<rparr>"
| "set_reg RBX v c = c\<lparr>rbx := v\<rparr>"
| "set_reg R12 v c = c\<lparr>r12 := v\<rparr>"
| "set_reg R13 v c = c\<lparr>r13 := v\<rparr>"
| "set_reg R14 v c = c\<lparr>r14 := v\<rparr>"
| "set_reg R15 v c = c\<lparr>r15 := v\<rparr>"
| "set_reg RSP v c = c\<lparr>rsp := v\<rparr>"
| "set_reg RDI v c = c\<lparr>rdi := v\<rparr>"
| "set_reg RSI v c = c\<lparr>rsi := v\<rparr>"
| "set_reg RCX v c = c\<lparr>rcx := v\<rparr>"

definition aligned :: "addr \<Rightarrow> bool" where
  "aligned a \<longleftrightarrow> uint a mod 8 = 0"

definition load :: "memory \<Rightarrow> addr \<Rightarrow> uint64 option" where
  "load m a = (if aligned a then m a else None)"

definition store :: "addr \<Rightarrow> uint64 \<Rightarrow> memory \<Rightarrow> memory option" where
  "store a v m = (if aligned a \<and> m a \<noteq> None then Some (m(a \<mapsto> v)) else None)"

text \<open>\<open>Store a b\<close> is \<open>movq a, (b)\<close> and \<open>Load a b\<close> is \<open>movq (a), b\<close>.\<close>

datatype instr = Pushq reg | Popq reg | Store reg reg | Load reg reg | Jmpq reg

fun exec :: "instr \<Rightarrow> cpu \<Rightarrow> cpu option" where
  "exec (Pushq r) c = do {
     m \<leftarrow> store (rsp c - 8) (get_reg r c) (mem c);
     Some (c\<lparr>rsp := rsp c - 8, mem := m\<rparr>)
   }"
| "exec (Popq r) c = do {
     v \<leftarrow> load (mem c) (rsp c);
     Some (set_reg r v (c\<lparr>rsp := rsp c + 8\<rparr>))
   }"
| "exec (Store a b) c = do {
     m \<leftarrow> store (get_reg b c) (get_reg a c) (mem c);
     Some (c\<lparr>mem := m\<rparr>)
   }"
| "exec (Load a b) c = do {
     v \<leftarrow> load (mem c) (get_reg a c);
     Some (set_reg b v c)
   }"
| "exec (Jmpq r) c = Some (c\<lparr>rip := get_reg r c\<rparr>)"

section \<open>Switching\<close>

text \<open>The arguments are in \<open>rdi\<close> and \<open>rsi\<close>, the return address is on top of the stack.\<close>

definition NUM_SAVED :: nat where
  "NUM_SAVED = 6"

definition transfer_code :: "instr list" where
  "transfer_code =
     [Pushq RBP, Pushq RBX, Pushq R12, Pushq R13, Pushq R14, Pushq R15,
      Store RSP RDI, Load RSI RSP,
      Popq R15, Popq R14, Popq R13, Popq R12, Popq RBX, Popq RBP,
      Popq RCX, Jmpq RCX]"

definition coro_transfer_asm :: "cpu \<Rightarrow> cpu option" where
  "coro_transfer_asm c = fold_option exec transfer_code c"

section \<open>Creating\<close>

text \<open>The static variables; a function is its address.\<close>

record coro_statics =
  coro_init_func :: addr
  coro_init_arg :: uint64
  new_coro :: addr
  create_coro :: addr

text \<open>
  \<open>coro_create\<close> up to its last line: the statics and the memory are set up, and the pair is the
  arguments of the call of \<open>coro_transfer\<close> (\<open>None\<close>: there is nothing to call).  \<open>nctx\<close> is the address of the
  local variable, \<open>abort_fn\<close> and \<open>init_fn\<close> are those of \<open>abort\<close> and \<open>coro_init\<close>.
\<close>

fun clear_cells :: "nat \<Rightarrow> addr \<Rightarrow> memory \<Rightarrow> memory option" where
  "clear_cells 0 p m = Some m"
| "clear_cells (Suc n) p m = Option.bind (store p 0 m) (clear_cells n (p + 8))"

definition create_frame :: "addr \<Rightarrow> addr \<Rightarrow> addr \<Rightarrow> addr \<Rightarrow> size_t \<Rightarrow> memory \<Rightarrow> memory option" where
  "create_frame abort_fn init_fn ctx sptr ssize m = do {
     let sp = sptr + ssize;
     m \<leftarrow> store ctx sp m;
     m \<leftarrow> store ctx (sp - 8) m;
     m \<leftarrow> store (sp - 8) abort_fn m;
     m \<leftarrow> store ctx (sp - 16) m;
     m \<leftarrow> store (sp - 16) init_fn m;
     m \<leftarrow> store ctx (sp - 16 - 8 * of_nat NUM_SAVED) m;
     clear_cells NUM_SAVED (sp - 16 - 8 * of_nat NUM_SAVED) m
   }"

definition coro_create ::
  "addr \<Rightarrow> addr \<Rightarrow> addr \<Rightarrow> addr \<Rightarrow> addr \<Rightarrow> uint64 \<Rightarrow> addr \<Rightarrow> size_t \<Rightarrow> coro_statics \<times> memory \<Rightarrow>
   ((addr \<times> addr) option \<times> coro_statics \<times> memory) option" where
  "coro_create nctx abort_fn init_fn ctx coro arg sptr ssize = (\<lambda>(g, m).
     if coro = NULL then Some (None, g, m)
     else do {
       let g = g\<lparr>coro_init_func := coro, coro_init_arg := arg, new_coro := ctx, create_coro := nctx\<rparr>;
       m \<leftarrow> create_frame abort_fn init_fn ctx sptr ssize m;
       Some (Some (create_coro g, new_coro g), g, m)
     })"

text \<open>
  What \<open>coro_init\<close> calls, in this order.  The function and its argument are read before the first call.
\<close>

datatype coro_call = Transfer addr addr | Call addr uint64 | Abort

definition coro_init :: "coro_statics \<Rightarrow> coro_call list" where
  "coro_init g = [Transfer (new_coro g) (create_coro g), Call (coro_init_func g) (coro_init_arg g), Abort]"

section \<open>Stacks\<close>

record coro_stack =
  sptr :: addr
  ssze :: size_t

text \<open>
  \<open>mmap executable size\<close> returns the address of a new mapping or \<open>- 1\<close>.  The result lists the system calls
  that change mappings.
\<close>

datatype map_call = Mprotect addr size_t | Munmap addr size_t

definition CORO_GUARDPAGES :: size_t where
  "CORO_GUARDPAGES = 4"

definition coro_stack_alloc ::
  "size_t \<Rightarrow> (bool \<Rightarrow> size_t \<Rightarrow> addr) \<Rightarrow> uint32 \<Rightarrow> int \<times> coro_stack \<times> map_call list" where
  "coro_stack_alloc pagesize mmap sz =
     (let sz = (if sz = 0 then 256 * 1024 else sz);
          n = (ucast sz * 8 + pagesize - 1) div pagesize * pagesize;
          total = n + CORO_GUARDPAGES * pagesize;
          base = (let b = mmap True total in if b = - 1 then mmap False total else b)
      in if base = - 1 then (0, \<lparr>sptr = 0, ssze = n\<rparr>, [])
         else (1, \<lparr>sptr = base + CORO_GUARDPAGES * pagesize, ssze = n\<rparr>,
               [Mprotect base (CORO_GUARDPAGES * pagesize)]))"

definition coro_stack_free :: "size_t \<Rightarrow> coro_stack \<Rightarrow> map_call list" where
  "coro_stack_free pagesize st =
     (if sptr st \<noteq> 0
      then [Munmap (sptr st - CORO_GUARDPAGES * pagesize) (ssze st + CORO_GUARDPAGES * pagesize)]
      else [])"

section \<open>Lemmas\<close>

text \<open>A context saved by a switch: where the registers and the return address are.\<close>

definition saved :: "memory \<Rightarrow> addr \<Rightarrow> 'a callee_scheme \<Rightarrow> addr \<Rightarrow> addr \<Rightarrow> bool" where
  "saved m ctx k sp ra \<longleftrightarrow>
     aligned ctx \<and> aligned sp \<and> m ctx = Some (sp - 48) \<and>
     m (sp - 48) = Some (r15 k) \<and> m (sp - 40) = Some (r14 k) \<and> m (sp - 32) = Some (r13 k) \<and>
     m (sp - 24) = Some (r12 k) \<and> m (sp - 16) = Some (rbx k) \<and> m (sp - 8) = Some (rbp k) \<and>
     m sp = Some ra"

text \<open>The cells a switch writes: the frame below the stack pointer and the context.\<close>

definition frame_cells :: "addr \<Rightarrow> addr set" where
  "frame_cells sp = {sp - 48, sp - 40, sp - 32, sp - 24, sp - 16, sp - 8}"

definition writable :: "memory \<Rightarrow> addr set \<Rightarrow> bool" where
  "writable m A \<longleftrightarrow> (\<forall>a \<in> A. m a \<noteq> None)"

lemma aligned_add [simp]:
  "aligned (a - 8) = aligned a" "aligned (a - 16) = aligned a" "aligned (a - 24) = aligned a"
  "aligned (a - 32) = aligned a" "aligned (a - 40) = aligned a" "aligned (a - 48) = aligned a"
  "aligned (a - 56) = aligned a" "aligned (a - 64) = aligned a" "aligned (a + 8) = aligned a"
proof -
  have m: "x mod 18446744073709551616 mod 8 = x mod 8" for x :: int
    using mod_mod_cancel [of 8 "18446744073709551616 :: int" x] by simp
  have d: "aligned (a - k) = aligned a" if "uint k mod 8 = 0" for k :: addr
  proof -
    have "(uint a - uint k) mod 8 = uint a mod 8" using that by (metis diff_zero mod_diff_right_eq)
    then show ?thesis by (simp add: aligned_def uint_word_ariths m)
  qed
  have p: "aligned (a + k) = aligned a" if "uint k mod 8 = 0" for k :: addr
  proof -
    have "(uint a + uint k) mod 8 = uint a mod 8" using that by (metis add.right_neutral mod_add_right_eq)
    then show ?thesis by (simp add: aligned_def uint_word_ariths m)
  qed
  show "aligned (a - 8) = aligned a" "aligned (a - 16) = aligned a" "aligned (a - 24) = aligned a"
    "aligned (a - 32) = aligned a" "aligned (a - 40) = aligned a" "aligned (a - 48) = aligned a"
    "aligned (a - 56) = aligned a" "aligned (a - 64) = aligned a" "aligned (a + 8) = aligned a"
    by (intro d p; simp)+
qed

text \<open>The first half: six registers are pushed and the stack pointer is stored.\<close>

definition after_save :: "cpu \<Rightarrow> memory" where
  "after_save c = (mem c)
     (rsp c - 8 \<mapsto> rbp c, rsp c - 16 \<mapsto> rbx c, rsp c - 24 \<mapsto> r12 c, rsp c - 32 \<mapsto> r13 c,
      rsp c - 40 \<mapsto> r14 c, rsp c - 48 \<mapsto> r15 c, rdi c \<mapsto> rsp c - 48)"

lemma save_code:
  assumes "aligned (rsp c)" "aligned (rdi c)" "writable (mem c) (frame_cells (rsp c) \<union> {rdi c})"
  shows "fold_option exec [Pushq RBP, Pushq RBX, Pushq R12, Pushq R13, Pushq R14, Pushq R15, Store RSP RDI] c
           = Some (c\<lparr>rsp := rsp c - 48, mem := after_save c\<rparr>)"
  using assms by (simp add: store_def writable_def frame_cells_def after_save_def diff_diff_eq)

lemma restore_code:
  assumes "saved (mem c) (rsi c) k sp ra"
  shows "fold_option exec
           [Load RSI RSP, Popq R15, Popq R14, Popq R13, Popq R12, Popq RBX, Popq RBP, Popq RCX, Jmpq RCX] c
           = Some (c\<lparr>rbp := rbp k, rbx := rbx k, r12 := r12 k, r13 := r13 k, r14 := r14 k, r15 := r15 k,
                      rsp := sp + 8, rcx := ra, rip := ra\<rparr>)"
proof -
  have s: "sp - 48 + 8 = sp - 40" "sp - 40 + 8 = sp - 32" "sp - 32 + 8 = sp - 24" "sp - 24 + 8 = sp - 16"
    "sp - 16 + 8 = sp - 8" "sp - 8 + 8 = sp" by simp_all
  show ?thesis
    using assms unfolding saved_def by (simp add: load_def s)
qed

text \<open>A switch: the registers are those of the saved context, the memory has the registers of the caller.\<close>

lemma transfer_run:
  assumes "aligned (rsp c)" "aligned (rdi c)" "writable (mem c) (frame_cells (rsp c) \<union> {rdi c})"
    and "saved (after_save c) (rsi c) k sp ra"
  shows "coro_transfer_asm c
           = Some (c\<lparr>rbp := rbp k, rbx := rbx k, r12 := r12 k, r13 := r13 k, r14 := r14 k, r15 := r15 k,
                      rsp := sp + 8, rcx := ra, rip := ra, mem := after_save c\<rparr>)"
proof -
  have split: "transfer_code =
      [Pushq RBP, Pushq RBX, Pushq R12, Pushq R13, Pushq R14, Pushq R15, Store RSP RDI] @
      [Load RSI RSP, Popq R15, Popq R14, Popq R13, Popq R12, Popq RBX, Popq RBP, Popq RCX, Jmpq RCX]"
    by (simp add: transfer_code_def)
  have "saved (mem (c\<lparr>rsp := rsp c - 48, mem := after_save c\<rparr>)) (rsi (c\<lparr>rsp := rsp c - 48, mem := after_save c\<rparr>)) k sp ra"
    using assms(4) by simp
  from restore_code [OF this] show ?thesis
    unfolding coro_transfer_asm_def split fold_option_append save_code [OF assms(1-3)] Option.bind.simps(2) by simp
qed

text \<open>The caller's own context is saved by it.\<close>

lemma transfer_saves:
  assumes "aligned (rsp c)" "aligned (rdi c)" "mem c (rsp c) = Some ra" "rdi c \<notin> frame_cells (rsp c) \<union> {rsp c}"
  shows "saved (after_save c) (rdi c) c (rsp c) ra"
  using assms by (auto simp: saved_def after_save_def frame_cells_def)

text \<open>A context stays saved as long as nobody writes to its cells.\<close>

definition saved_cells :: "addr \<Rightarrow> addr \<Rightarrow> addr set" where
  "saved_cells ctx sp = frame_cells sp \<union> {sp, ctx}"

lemma saved_frame:
  assumes "saved m ctx k sp ra" "\<forall>a \<in> saved_cells ctx sp. m' a = m a"
  shows "saved m' ctx k sp ra"
  using assms by (auto simp: saved_def saved_cells_def frame_cells_def)

lemma after_save_outside: "a \<notin> frame_cells (rsp c) \<union> {rdi c} \<Longrightarrow> after_save c a = mem c a"
  by (simp add: after_save_def frame_cells_def)

lemma after_save_frame:
  assumes "saved (mem c) ctx k sp ra" "saved_cells ctx sp \<inter> (frame_cells (rsp c) \<union> {rdi c}) = {}"
  shows "saved (after_save c) ctx k sp ra"
  by (rule saved_frame [OF assms(1)]) (use assms(2) after_save_outside in blast)

section \<open>New contexts: lemmas\<close>

definition zero_callee :: callee where
  "zero_callee = \<lparr>rbp = 0, rbx = 0, r12 = 0, r13 = 0, r14 = 0, r15 = 0\<rparr>"

lemma clear_saved:
  "clear_cells NUM_SAVED (t - 64) m = do {
     m \<leftarrow> store (t - 64) 0 m; m \<leftarrow> store (t - 56) 0 m; m \<leftarrow> store (t - 48) 0 m;
     m \<leftarrow> store (t - 40) 0 m; m \<leftarrow> store (t - 32) 0 m; store (t - 24) 0 m }"
proof -
  have six: "NUM_SAVED = Suc (Suc (Suc (Suc (Suc (Suc 0)))))" by (simp add: NUM_SAVED_def)
  have up: "t - 64 + 8 = t - 56" "t - 56 + 8 = t - 48" "t - 48 + 8 = t - 40" "t - 40 + 8 = t - 32"
    "t - 32 + 8 = t - 24" by simp_all
  have last: "Option.bind x Some = x" for x :: "memory option" by (cases x) auto
  have step: "clear_cells (Suc n) p = (\<lambda>m. Option.bind (store p 0 m) (clear_cells n (p + 8)))"
    "clear_cells 0 p = Some" for n p by (simp_all add: fun_eq_iff)
  show ?thesis by (simp only: six step up last)
qed

lemma frame_size: "tp - 16 - 8 * of_nat NUM_SAVED = (tp - 64 :: addr)"
  by (simp add: NUM_SAVED_def diff_diff_eq)

lemma store_ok: "aligned a \<Longrightarrow> m a \<noteq> None \<Longrightarrow> store a v m = Some (m(a \<mapsto> v))"
  by (simp add: store_def)

text \<open>\<open>coro_create\<close> makes a context that looks saved at the start of \<open>coro_init\<close>.\<close>

lemma create_saved:
  assumes "coro \<noteq> NULL" "aligned ctx" "aligned tp" "tp = stk + n"
    and w: "writable m (saved_cells ctx (tp - 16) \<union> {tp - 8})" and ctx: "ctx \<notin> frame_cells (tp - 16) \<union> {tp - 16, tp - 8}"
  shows "\<exists>m'. coro_create nctx abort_fn init_fn ctx coro arg stk n (g, m)
             = Some (Some (nctx, ctx), \<lparr>coro_init_func = coro, coro_init_arg = arg, new_coro = ctx, create_coro = nctx\<rparr>, m') \<and>
           saved m' ctx zero_callee (tp - 16) init_fn \<and> m' (tp - 8) = Some abort_fn \<and>
           (\<forall>a. a \<notin> saved_cells ctx (tp - 16) \<union> {tp - 8} \<longrightarrow> m' a = m a)"
proof -
  have f: "frame_cells (tp - 16) = {tp - 64, tp - 56, tp - 48, tp - 40, tp - 32, tp - 24}"
    by (simp add: frame_cells_def diff_diff_eq)
  have mapped: "m ctx \<noteq> None" "m (tp - 8) \<noteq> None" "m (tp - 16) \<noteq> None" "m (tp - 24) \<noteq> None"
    "m (tp - 32) \<noteq> None" "m (tp - 40) \<noteq> None" "m (tp - 48) \<noteq> None" "m (tp - 56) \<noteq> None" "m (tp - 64) \<noteq> None"
    using w by (auto simp: writable_def saved_cells_def f)
  have ne: "ctx \<noteq> tp - 8" "ctx \<noteq> tp - 16" "ctx \<noteq> tp - 24" "ctx \<noteq> tp - 32" "ctx \<noteq> tp - 40" "ctx \<noteq> tp - 48"
    "ctx \<noteq> tp - 56" "ctx \<noteq> tp - 64"
    using ctx by (auto simp: f)
  let ?m' = "m(ctx \<mapsto> tp - 64, tp - 8 \<mapsto> abort_fn, tp - 16 \<mapsto> init_fn, tp - 24 \<mapsto> 0, tp - 32 \<mapsto> 0,
      tp - 40 \<mapsto> 0, tp - 48 \<mapsto> 0, tp - 56 \<mapsto> 0, tp - 64 \<mapsto> 0)"
  have "\<exists>m'. coro_create nctx abort_fn init_fn ctx coro arg stk n (g, m)
      = Some (Some (nctx, ctx), \<lparr>coro_init_func = coro, coro_init_arg = arg, new_coro = ctx, create_coro = nctx\<rparr>, m') \<and>
      (\<forall>a. m' a = ?m' a)"
    using assms(1-4) mapped ne ne [symmetric]
    by (cases g) (simp add: coro_create_def create_frame_def Let_def frame_size clear_saved store_ok)
  then obtain m' where m': "coro_create nctx abort_fn init_fn ctx coro arg stk n (g, m)
      = Some (Some (nctx, ctx), \<lparr>coro_init_func = coro, coro_init_arg = arg, new_coro = ctx, create_coro = nctx\<rparr>, m')"
      "\<And>a. m' a = ?m' a" by blast
  have "saved m' ctx zero_callee (tp - 16) init_fn" "m' (tp - 8) = Some abort_fn"
    using assms(2,3) ne ne [symmetric] by (simp_all add: saved_def m'(2) zero_callee_def diff_diff_eq)
  moreover have "m' a = m a" if "a \<notin> saved_cells ctx (tp - 16) \<union> {tp - 8}" for a
    using that by (simp add: m'(2) saved_cells_def f)
  ultimately show ?thesis using m'(1) by blast
qed

section \<open>Stacks: lemmas\<close>

lemma round_up:
  fixes n p :: nat
  assumes "0 < p"
  shows "n \<le> (n + p - 1) div p * p \<and> (n + p - 1) div p * p < n + p"
proof -
  have "(n + p - 1) div p * p = n + p - 1 - (n + p - 1) mod p" by (simp add: minus_mod_eq_div_mult)
  moreover have "(n + p - 1) mod p < p" "(n + p - 1) mod p \<le> n + p - 1" using assms by simp_all
  ultimately show ?thesis using assms by linarith
qed

text \<open>The size in bytes, before the guard pages.\<close>

definition stack_bytes :: "uint32 \<Rightarrow> nat" where
  "stack_bytes sz = 8 * unat (if sz = 0 then 256 * 1024 else sz)"

lemma stack_size:
  assumes "pagesize \<noteq> 0" "unat pagesize \<le> 2 ^ 30"
  shows "unat ((ucast (if sz = 0 then 256 * 1024 else sz :: uint32) * 8 + pagesize - 1) div pagesize * pagesize :: size_t)
           = (stack_bytes sz + unat pagesize - 1) div unat pagesize * unat pagesize"
proof -
  let ?s = "if sz = 0 then 256 * 1024 else sz" and ?p = "unat pagesize"
  have "unat ?s < 2 ^ LENGTH(32)" by (rule unsigned_less)
  then have s: "unat ?s < 2 ^ 32" by simp
  have p: "0 < ?p" using assms(1) by (simp add: unat_gt_0)
  have c: "unat (ucast ?s :: size_t) = unat ?s"
    using s by (simp add: unsigned_ucast_eq take_bit_nat_eq_self)
  have 1: "unat (ucast ?s * 8 :: size_t) = stack_bytes sz"
    using s c by (simp add: unat_word_ariths stack_bytes_def)
  have b: "stack_bytes sz < 2 ^ 35" using s by (simp add: stack_bytes_def)
  have 2: "unat (ucast ?s * 8 + pagesize :: size_t) = stack_bytes sz + ?p"
    using 1 b assms(2) by (simp add: unat_word_ariths)
  then have "ucast ?s * 8 + pagesize \<noteq> (0 :: size_t)" using p by (metis add_is_0 neq0_conv unat_0)
  then have 3: "unat (ucast ?s * 8 + pagesize - 1 :: size_t) = stack_bytes sz + ?p - 1"
    using 2 by (simp add: unat_minus_one)
  have "(stack_bytes sz + ?p - 1) div ?p * ?p \<le> stack_bytes sz + ?p - 1" by simp
  also have "\<dots> < 2 ^ 64" using b assms(2) by simp
  finally have fits: "(stack_bytes sz + ?p - 1) div ?p * ?p < 2 ^ 64" .
  have 4: "unat ((ucast ?s * 8 + pagesize - 1) div pagesize :: size_t) = (stack_bytes sz + ?p - 1) div ?p"
    unfolding unat_div 3 ..
  show ?thesis
    unfolding 4 [symmetric] by (rule unat_mult_lem [THEN iffD1]) (use fits 4 in simp)
qed

end
