(* ===== verification/Coro_Spec.thy ===== *)
theory Coro_Spec
  imports Coro Coroutine
begin

text \<open>Properties of the context switch, of new contexts and of stacks.\<close>

section \<open>Switching\<close>

text \<open>What a caller of \<open>coro_transfer\<close> provides: room on its stack, and a context outside its frame.\<close>

definition written :: "cpu \<Rightarrow> addr set" where
  "written c = frame_cells (rsp c) \<union> {rdi c}"

definition can_switch :: "cpu \<Rightarrow> bool" where
  "can_switch c \<longleftrightarrow> aligned (rsp c) \<and> aligned (rdi c) \<and> writable (mem c) (written c) \<and>
     rdi c \<notin> frame_cells (rsp c) \<union> {rsp c}"

lemma can_switch_run:
  assumes "can_switch c" "saved (mem c) (rsi c) k sp ra" "saved_cells (rsi c) sp \<inter> written c = {}"
  shows "coro_transfer_asm c
           = Some (c\<lparr>rbp := rbp k, rbx := rbx k, r12 := r12 k, r13 := r13 k, r14 := r14 k, r15 := r15 k,
                      rsp := sp + 8, rcx := ra, rip := ra, mem := after_save c\<rparr>)"
  using assms by (intro transfer_run after_save_frame) (auto simp: can_switch_def written_def)

text \<open>The second half of the code reads the memory only.\<close>

lemma restore_mem:
  assumes "fold_option exec is c = Some c'" "list_all (\<lambda>i. case i of Pushq r \<Rightarrow> False | Store a b \<Rightarrow> False | _ \<Rightarrow> True) is"
  shows "mem c' = mem c"
  using assms
proof (induction "is" arbitrary: c)
  case (Cons i "is")
  from Cons.prems obtain c1 where c1: "exec i c = Some c1" "fold_option exec is c1 = Some c'"
    by (auto simp: bind_eq_Some_conv)
  have set_mem: "mem (set_reg r v c) = mem c" for r v and c :: cpu by (cases r) auto
  have "mem c1 = mem c" using c1(1) Cons.prems(2) by (cases i) (auto simp: bind_eq_Some_conv set_mem)
  then show ?case using Cons.IH [OF c1(2)] Cons.prems(2) by simp
qed simp

lemma transfer_mem:
  assumes "can_switch c" "coro_transfer_asm c = Some c1"
  shows "mem c1 = after_save c"
proof -
  let ?save = "[Pushq RBP, Pushq RBX, Pushq R12, Pushq R13, Pushq R14, Pushq R15, Store RSP RDI]"
  let ?restore = "[Load RSI RSP, Popq R15, Popq R14, Popq R13, Popq R12, Popq RBX, Popq RBP, Popq RCX, Jmpq RCX]"
  have code: "transfer_code = ?save @ ?restore" by (simp add: transfer_code_def)
  have save: "fold_option exec ?save c = Some (c\<lparr>rsp := rsp c - 48, mem := after_save c\<rparr>)"
    by (rule save_code) (use assms(1) in \<open>simp_all add: can_switch_def written_def\<close>)
  have "fold_option exec ?restore (c\<lparr>rsp := rsp c - 48, mem := after_save c\<rparr>) = Some c1"
    using assms(2) unfolding coro_transfer_asm_def code fold_option_append save Option.bind.simps(2) .
  from restore_mem [OF this] show ?thesis by simp
qed

text \<open>C12: A coroutine that switches away and is switched to later continues behind its call of coro_transfer with the
  stack pointer and the six callee-saved registers it had, whatever the others did in between, as long as nobody
  wrote to its context and to the seven cells on top of its stack.\<close>

theorem switch_roundtrip:
  assumes "can_switch c" "mem c (rsp c) = Some ra" "coro_transfer_asm c = Some c1"
    and "can_switch c2" "rsi c2 = rdi c" "\<forall>a \<in> saved_cells (rdi c) (rsp c). mem c2 a = mem c1 a"
    and "saved_cells (rdi c) (rsp c) \<inter> written c2 = {}"
  shows "\<exists>c3. coro_transfer_asm c2 = Some c3 \<and> rip c3 = ra \<and> rsp c3 = rsp c + 8 \<and>
           callee.truncate c3 = callee.truncate c"
proof -
  have "saved (after_save c) (rdi c) c (rsp c) ra"
    by (rule transfer_saves) (use assms(1,2) in \<open>simp_all add: can_switch_def\<close>)
  then have "saved (mem c2) (rdi c) c (rsp c) ra"
    by (rule saved_frame) (use assms(6) transfer_mem [OF assms(1,3)] in simp)
  then have "saved (mem c2) (rsi c2) c (rsp c) ra" using assms(5) by simp
  from can_switch_run [OF assms(4) this] assms(5,7) show ?thesis
    by (simp add: callee.defs)
qed

text \<open>Two contexts at 8 and 16, with stack pointers 160 and 264.\<close>

definition ex_cpu :: cpu where
  "ex_cpu = \<lparr>rbp = 1, rbx = 2, r12 = 3, r13 = 4, r14 = 5, r15 = 6, rsp = 160, rdi = 8, rsi = 16, rcx = 0, rip = 0,
     mem = (\<lambda>a. Some 0)(16 \<mapsto> 216, 264 \<mapsto> 99, 160 \<mapsto> 77)\<rparr>"

definition ex_back :: cpu where
  "ex_back = \<lparr>rbp = 0, rbx = 0, r12 = 0, r13 = 0, r14 = 0, r15 = 0, rsp = 320, rdi = 16, rsi = 8, rcx = 0, rip = 0,
     mem = after_save ex_cpu\<rparr>"

lemma ex_can_switch: "can_switch ex_cpu" "can_switch ex_back"
  by (simp_all add: can_switch_def written_def writable_def ex_cpu_def ex_back_def after_save_def frame_cells_def aligned_def)

lemma switch_roundtrip_witness:
  "\<exists>c3. coro_transfer_asm ex_back = Some c3 \<and> rip c3 = 77 \<and> rsp c3 = rsp ex_cpu + 8 \<and>
     callee.truncate c3 = callee.truncate ex_cpu"
proof -
  have "saved (mem ex_cpu) (rsi ex_cpu) zero_callee 264 99"
    by (simp add: saved_def ex_cpu_def zero_callee_def aligned_def)
  moreover have "saved_cells (rsi ex_cpu) 264 \<inter> written ex_cpu = {}"
    by (simp add: saved_cells_def written_def frame_cells_def ex_cpu_def)
  ultimately obtain c1 where c1: "coro_transfer_asm ex_cpu = Some c1"
    using can_switch_run [OF ex_can_switch(1)] by blast
  show ?thesis
  proof (rule switch_roundtrip [OF ex_can_switch(1) _ c1 ex_can_switch(2)])
    show "mem ex_cpu (rsp ex_cpu) = Some 77" by (simp add: ex_cpu_def)
    show "\<forall>a \<in> saved_cells (rdi ex_cpu) (rsp ex_cpu). mem ex_back a = mem c1 a"
      using transfer_mem [OF ex_can_switch(1) c1] by (simp add: ex_back_def)
    show "saved_cells (rdi ex_cpu) (rsp ex_cpu) \<inter> written ex_back = {}"
      by (simp add: saved_cells_def written_def frame_cells_def ex_cpu_def ex_back_def)
  qed (simp add: ex_cpu_def ex_back_def)
qed

section \<open>New coroutines\<close>

text \<open>The memory a new context needs: itself, and eight cells at the end of its stack.\<close>

definition fresh_stack :: "memory \<Rightarrow> addr \<Rightarrow> addr \<Rightarrow> bool" where
  "fresh_stack m cx tp \<longleftrightarrow> aligned cx \<and> aligned tp \<and>
     writable m (saved_cells cx (tp - 16) \<union> {tp - 8}) \<and> cx \<notin> frame_cells (tp - 16) \<union> {tp - 16, tp - 8}"

text \<open>A new context, switched to.\<close>

lemma enter_context:
  assumes "coro \<noteq> NULL" "fresh_stack m cx (stk + n)"
    and "coro_create nctx abort_fn init_fn cx coro arg stk n (g, m) = Some (call, g', m')"
    and "can_switch c" "mem c = m'" "rdi c = nctx" "rsi c = cx"
    and "(saved_cells cx (stk + n - 16) \<union> {stk + n - 8}) \<inter> written c = {}"
  shows "call = Some (nctx, cx) \<and> coro_init g' = [Transfer cx nctx, Call coro arg, Abort] \<and>
         (\<exists>c1. coro_transfer_asm c = Some c1 \<and> rip c1 = init_fn \<and> callee.truncate c1 = zero_callee \<and>
               rsp c1 = stk + n - 8 \<and> mem c1 (rsp c1) = Some abort_fn)"
proof -
  obtain m1 where m1: "coro_create nctx abort_fn init_fn cx coro arg stk n (g, m)
       = Some (Some (nctx, cx), \<lparr>coro_init_func = coro, coro_init_arg = arg, new_coro = cx, create_coro = nctx\<rparr>, m1)"
      "saved m1 cx zero_callee (stk + n - 16) init_fn" "m1 (stk + n - 8) = Some abort_fn"
    using create_saved [OF assms(1) _ _ refl, of cx stk n m nctx abort_fn init_fn arg g] assms(2)
    by (auto simp: fresh_stack_def)
  then have eq: "call = Some (nctx, cx)" "m' = m1"
      "g' = \<lparr>coro_init_func = coro, coro_init_arg = arg, new_coro = cx, create_coro = nctx\<rparr>"
    using assms(3) by auto
  have "saved (mem c) (rsi c) zero_callee (stk + n - 16) init_fn" using m1(2) assms(5,7) eq by simp
  moreover have "saved_cells (rsi c) (stk + n - 16) \<inter> written c = {}" using assms(7,8) by blast
  note can_switch_run [OF assms(4) calculation this]
  then have run: "coro_transfer_asm c
      = Some (c\<lparr>rbp := 0, rbx := 0, r12 := 0, r13 := 0, r14 := 0, r15 := 0,
                rsp := stk + n - 8, rcx := init_fn, rip := init_fn, mem := after_save c\<rparr>)"
    by (simp add: zero_callee_def)
  have "stk + n - 8 \<notin> written c" using assms(8) by blast
  then have "after_save c (stk + n - 8) = Some abort_fn"
    using after_save_outside [of "stk + n - 8" c] m1(3) assms(5) eq by (simp add: written_def)
  then show ?thesis using run eq by (simp add: coro_init_def callee.defs zero_callee_def)
qed

text \<open>C13: The first switch to a context that coro_create set up enters coro_init with zeroed callee-saved registers,
  the address of abort on top of the stack and the function and argument in the statics; coro_init then switches
  back to the creator, calls the function, and aborts if it returns.\<close>

theorem create_enters:
  assumes "coro \<noteq> NULL" "fresh_stack m cx (stk + n)"
    and "coro_create nctx abort_fn init_fn cx coro arg stk n (g, m) = Some (call, g', m')"
    and "can_switch c" "mem c = m'" "rdi c = nctx" "rsi c = cx"
    and "(saved_cells cx (stk + n - 16) \<union> {stk + n - 8}) \<inter> written c = {}"
  shows "call = Some (nctx, cx) \<and> coro_init g' = [Transfer cx nctx, Call coro arg, Abort] \<and>
         (\<exists>c1. coro_transfer_asm c = Some c1 \<and> rip c1 = init_fn \<and> callee.truncate c1 = zero_callee \<and>
               rsp c1 = stk + n - 8 \<and> mem c1 (rsp c1) = Some abort_fn)"
  by (rule enter_context [OF assms])

definition ex_memory :: memory where
  "ex_memory = (\<lambda>a. Some 0)"

definition ex_apart :: "addr \<Rightarrow> cpu \<Rightarrow> bool" where
  "ex_apart tp c \<longleftrightarrow> fresh_stack ex_memory 16 tp \<and> (saved_cells 16 (tp - 16) \<union> {tp - 8}) \<inter> written c = {}"

text \<open>Stacks that end at 1280 or 1384, and a thread that can switch to them.\<close>

lemma ex_create:
  assumes "tp = stk + n" "tp = 1280 \<or> tp = 1384"
  shows "\<exists>m'. coro_create 8 500 600 16 700 1 stk n
      (\<lparr>coro_init_func = 0, coro_init_arg = 0, new_coro = 0, create_coro = 0\<rparr>, ex_memory)
      = Some (Some (8, 16), \<lparr>coro_init_func = 700, coro_init_arg = 1, new_coro = 16, create_coro = 8\<rparr>, m') \<and>
      can_switch (ex_cpu\<lparr>mem := m'\<rparr>) \<and> ex_apart (stk + n) (ex_cpu\<lparr>mem := m'\<rparr>)"
proof -
  let ?g = "\<lparr>coro_init_func = 0, coro_init_arg = 0, new_coro = 0, create_coro = 0\<rparr>"
  have pre: "aligned 16" "aligned tp" "writable ex_memory (saved_cells 16 (tp - 16) \<union> {tp - 8})"
      "16 \<notin> frame_cells (tp - 16) \<union> {tp - 16, tp - 8}"
    using assms(2) by (auto simp: writable_def saved_cells_def frame_cells_def aligned_def ex_memory_def)
  have nz: "(700 :: addr) \<noteq> NULL" by simp
  from create_saved [OF nz pre(1,2) assms(1) pre(3,4), of 8 500 600 1 ?g]
  obtain m' where m': "coro_create 8 500 600 16 700 1 stk n (?g, ex_memory)
      = Some (Some (8, 16), \<lparr>coro_init_func = 700, coro_init_arg = 1, new_coro = 16, create_coro = 8\<rparr>, m')"
      "\<forall>a. a \<notin> saved_cells 16 (tp - 16) \<union> {tp - 8} \<longrightarrow> m' a = ex_memory a"
    by blast
  have dj: "(saved_cells 16 (tp - 16) \<union> {tp - 8}) \<inter> written c = {}" if "rsp c = 160" "rdi c = 8" for c
    using assms(2) that by (auto simp: saved_cells_def frame_cells_def written_def)
  have "rsp ex_cpu = 160" "rdi ex_cpu = 8" by (simp_all add: ex_cpu_def)
  then have "\<forall>a \<in> written ex_cpu. m' a = ex_memory a" using m'(2) dj by blast
  then have "writable m' (written ex_cpu)" by (simp add: writable_def ex_memory_def)
  then have "can_switch (ex_cpu\<lparr>mem := m'\<rparr>)"
    using ex_can_switch(1) by (simp add: can_switch_def written_def)
  moreover have "ex_apart tp (ex_cpu\<lparr>mem := m'\<rparr>)"
    using pre dj by (simp add: ex_apart_def fresh_stack_def ex_cpu_def)
  ultimately show ?thesis using m'(1) assms(1) by blast
qed

lemma create_enters_witness:
  "\<exists>g' m'. coro_create 8 500 600 16 700 1 1024 256 (\<lparr>coro_init_func = 0, coro_init_arg = 0, new_coro = 0, create_coro = 0\<rparr>, ex_memory)
       = Some (Some (8, 16), g', m') \<and>
     (\<exists>c1. coro_transfer_asm (ex_cpu\<lparr>mem := m'\<rparr>) = Some c1 \<and> rip c1 = 600 \<and> rsp c1 = 1024 + 256 - 8)"
proof -
  let ?g = "\<lparr>coro_init_func = 0, coro_init_arg = 0, new_coro = 0, create_coro = 0\<rparr>"
  have sum: "(1280 :: addr) = 1024 + 256" by simp
  from ex_create [OF sum] obtain m' where m': "coro_create 8 500 600 16 700 1 1024 256 (?g, ex_memory)
      = Some (Some (8, 16), \<lparr>coro_init_func = 700, coro_init_arg = 1, new_coro = 16, create_coro = 8\<rparr>, m')"
      "can_switch (ex_cpu\<lparr>mem := m'\<rparr>)" "fresh_stack ex_memory 16 (1024 + 256)"
      "(saved_cells 16 (1024 + 256 - 16) \<union> {1024 + 256 - 8}) \<inter> written (ex_cpu\<lparr>mem := m'\<rparr>) = {}"
    by (auto simp: ex_apart_def)
  have "rdi (ex_cpu\<lparr>mem := m'\<rparr>) = 8" "rsi (ex_cpu\<lparr>mem := m'\<rparr>) = 16" by (simp_all add: ex_cpu_def)
  from create_enters [OF _ m'(3,1,2) _ this m'(4)] show ?thesis using m'(1) by auto
qed

text \<open>C33: The stack of a coroutine is not aligned as the amd64 calling convention asks for: coro_alloc puts it behind
  the 104 bytes of the struct, so with a block and a size that are multiples of 16 the stack pointer is a multiple of
  16 when coro_init is entered, where it has to be 8 more than one (as it is for a stack that is aligned itself).\<close>

theorem coroutine_stack_misaligned:
  assumes "uint co mod 16 = 0" "uint n mod 16 = 0"
    and "coro \<noteq> NULL" "fresh_stack m cx (co + sizeof_coroutine + n)"
    and "coro_create nctx abort_fn init_fn cx coro arg (co + sizeof_coroutine) n (g, m) = Some (call, g', m')"
    and "can_switch c" "mem c = m'" "rdi c = nctx" "rsi c = cx"
    and "(saved_cells cx (co + sizeof_coroutine + n - 16) \<union> {co + sizeof_coroutine + n - 8}) \<inter> written c = {}"
  shows "\<exists>c1. coro_transfer_asm c = Some c1 \<and> rip c1 = init_fn \<and> uint (rsp c1) mod 16 = 0"
proof -
  have m: "x mod 18446744073709551616 mod 16 = x mod 16" for x :: int
    using mod_mod_cancel [of 16 "18446744073709551616 :: int" x] by simp
  have "uint (co + n + 96) mod 16 = (uint co + uint n + 96) mod 16"
    by (simp add: uint_word_ariths m mod_simps)
  moreover have "(uint co + uint n + 96) mod 16 = 0" using assms(1,2) by presburger
  moreover have sp: "co + sizeof_coroutine + n - 8 = co + n + 96" by (simp add: sizeof_coroutine_def)
  ultimately have "uint (co + sizeof_coroutine + n - 8) mod 16 = 0" unfolding sp by simp
  then show ?thesis using enter_context [OF assms(3-10)] by metis
qed

lemma coroutine_stack_misaligned_witness:
  "\<exists>g' m'. coro_create 8 500 600 16 700 1 (1024 + sizeof_coroutine) 256
       (\<lparr>coro_init_func = 0, coro_init_arg = 0, new_coro = 0, create_coro = 0\<rparr>, ex_memory) = Some (Some (8, 16), g', m') \<and>
     (\<exists>c1. coro_transfer_asm (ex_cpu\<lparr>mem := m'\<rparr>) = Some c1 \<and> rip c1 = 600 \<and> uint (rsp c1) mod 16 = 0)"
proof -
  let ?g = "\<lparr>coro_init_func = 0, coro_init_arg = 0, new_coro = 0, create_coro = 0\<rparr>"
  have sum: "(1384 :: addr) = 1024 + sizeof_coroutine + 256" by (simp add: sizeof_coroutine_def)
  from ex_create [OF sum] obtain m' where m': "coro_create 8 500 600 16 700 1 (1024 + sizeof_coroutine) 256 (?g, ex_memory)
      = Some (Some (8, 16), \<lparr>coro_init_func = 700, coro_init_arg = 1, new_coro = 16, create_coro = 8\<rparr>, m')"
      "can_switch (ex_cpu\<lparr>mem := m'\<rparr>)" "fresh_stack ex_memory 16 (1024 + sizeof_coroutine + 256)"
      "(saved_cells 16 (1024 + sizeof_coroutine + 256 - 16) \<union> {1024 + sizeof_coroutine + 256 - 8})
         \<inter> written (ex_cpu\<lparr>mem := m'\<rparr>) = {}"
    by (auto simp: ex_apart_def)
  have "\<exists>c1. coro_transfer_asm (ex_cpu\<lparr>mem := m'\<rparr>) = Some c1 \<and> rip c1 = 600 \<and> uint (rsp c1) mod 16 = 0"
    by (rule coroutine_stack_misaligned [OF _ _ _ m'(3,1,2) _ _ _ m'(4)]) (simp_all add: ex_cpu_def)
  with m'(1) show ?thesis by auto
qed

section \<open>Stacks\<close>

text \<open>C38: A stack from coro_stack_alloc is at least as large as asked for, in whole pages, with four protected pages
  below it, and coro_stack_free unmaps exactly what was mapped; when both mappings fail nothing is freed.\<close>

theorem stack_alloc_correct:
  assumes "pagesize \<noteq> 0" "unat pagesize \<le> 2 ^ 30" "coro_stack_alloc pagesize mmap sz = (r, st, calls)"
    and "\<And>e n. mmap e n \<noteq> - 1 \<Longrightarrow> mmap e n + 4 * pagesize \<noteq> 0"
  shows "unat pagesize dvd unat (ssze st) \<and> stack_bytes sz \<le> unat (ssze st) \<and>
         unat (ssze st) < stack_bytes sz + unat pagesize \<and>
         (if r = 0 then sptr st = 0 \<and> calls = [] \<and> coro_stack_free pagesize st = []
          else \<exists>e. let total = ssze st + 4 * pagesize; base = mmap e total in
                 base \<noteq> - 1 \<and> calls = [Mprotect base (4 * pagesize)] \<and> sptr st = base + 4 * pagesize \<and>
                 coro_stack_free pagesize st = [Munmap base total])"
proof -
  let ?n = "(ucast (if sz = 0 then 256 * 1024 else sz) * 8 + pagesize - 1) div pagesize * pagesize"
  let ?b = "let b = mmap True (?n + 4 * pagesize) in if b = - 1 then mmap False (?n + 4 * pagesize) else b"
  have n: "unat ?n = (stack_bytes sz + unat pagesize - 1) div unat pagesize * unat pagesize"
    by (rule stack_size [OF assms(1,2)])
  have p: "0 < unat pagesize" using assms(1) by (simp add: unat_gt_0)
  have st: "st = (if ?b = - 1 then \<lparr>sptr = 0, ssze = ?n\<rparr> else \<lparr>sptr = ?b + 4 * pagesize, ssze = ?n\<rparr>)"
      "r = (if ?b = - 1 then 0 else 1)" "calls = (if ?b = - 1 then [] else [Mprotect ?b (4 * pagesize)])"
    using assms(3) by (simp_all add: coro_stack_alloc_def CORO_GUARDPAGES_def Let_def split: if_splits)
  have "ssze st = ?n" using st(1) by simp
  then have bytes: "unat pagesize dvd unat (ssze st)" "stack_bytes sz \<le> unat (ssze st)"
      "unat (ssze st) < stack_bytes sz + unat pagesize"
    using n round_up [OF p, of "stack_bytes sz"] by simp_all
  obtain e where e: "?b = mmap e (?n + 4 * pagesize)" by (cases "mmap True (?n + 4 * pagesize) = - 1") (auto simp: Let_def)
  show ?thesis
  proof (cases "?b = - 1")
    case True
    then show ?thesis using bytes st by (simp add: coro_stack_free_def)
  next
    case False
    then have nz: "?b + 4 * pagesize \<noteq> 0" using assms(4) e by metis
    have s: "sptr st = mmap e (?n + 4 * pagesize) + 4 * pagesize" "ssze st = ?n" "r = 1"
        "calls = [Mprotect (mmap e (?n + 4 * pagesize)) (4 * pagesize)]"
      using st False e by simp_all
    have "coro_stack_free pagesize st = [Munmap (mmap e (?n + 4 * pagesize)) (?n + 4 * pagesize)]"
      using nz e s(1,2) by (simp add: coro_stack_free_def CORO_GUARDPAGES_def)
    then have "\<exists>e. let total = ssze st + 4 * pagesize; base = mmap e total in
                 base \<noteq> - 1 \<and> calls = [Mprotect base (4 * pagesize)] \<and> sptr st = base + 4 * pagesize \<and>
                 coro_stack_free pagesize st = [Munmap base total]"
      using False e s by (intro exI [of _ e]) (simp only: Let_def simp_thms)
    then show ?thesis using bytes s(3) by simp
  qed
qed

lemma stack_alloc_correct_witness:
  "unat (4096 :: size_t) dvd unat (ssze (fst (snd (coro_stack_alloc 4096 (\<lambda>e n. 65536) 1000)))) \<and>
   stack_bytes 1000 \<le> unat (ssze (fst (snd (coro_stack_alloc 4096 (\<lambda>e n. 65536) 1000))))"
  using stack_alloc_correct [of 4096 "\<lambda>e n. 65536" 1000 "fst (coro_stack_alloc 4096 (\<lambda>e n. 65536) 1000)"
      "fst (snd (coro_stack_alloc 4096 (\<lambda>e n. 65536) 1000))" "snd (snd (coro_stack_alloc 4096 (\<lambda>e n. 65536) 1000))"]
  by simp

end
