(* ===== verification/Queue_Checks.thy ===== *)
theory Queue_Checks
  imports Queue_Spec
begin

text \<open>
  The consistency checks \<open>QMD_TAILQ_CHECK\<close> and \<open>QMD_LIST_CHECK\<close> of src/cs_queue.h, which \<open>QUEUE_MACRO_ASSERT\<close> is to
  enable, and the initializers of heads.  Each definition is the condition of the \<open>if\<close> in its macro, with the reads
  it makes: \<open>Some False\<close> is a queue that passes.  What follows the condition is not modelled, since there is
  nothing: the panic is behind \<open>//\<close>, and with \<open>QUEUE_MACRO_ASSERT\<close> the comment would take the closing brace with it,
  so that the macros would not compile.  In the build they are empty.

  Well-formed queues pass.  The converse does not hold for the checks alone, as \<open>stale_tail_passes\<close> shows: it needs that
  \<open>tqh_last\<close> points to the last link, and no check tests that.
\<close>

section \<open>The checks\<close>

definition QMD_TAILQ_CHECK_HEAD :: "addr \<Rightarrow> tqmem \<Rightarrow> bool option" where
  "QMD_TAILQ_CHECK_HEAD head m = do {
     empty \<leftarrow> TAILQ_EMPTY head m;
     (if empty then Some False
      else do {
        f \<leftarrow> TAILQ_FIRST head m;
        e \<leftarrow> get_entry f m;
        Some (tqe_prev e \<noteq> Link_First head)
      })
   }"

definition QMD_TAILQ_CHECK_TAIL :: "addr \<Rightarrow> tqmem \<Rightarrow> bool option" where
  "QMD_TAILQ_CHECK_TAIL head m = do {
     h \<leftarrow> get_head head m;
     v \<leftarrow> link_get (tqh_last h) m;
     Some (v \<noteq> NULL)
   }"

definition QMD_TAILQ_CHECK_NEXT :: "addr \<Rightarrow> tqmem \<Rightarrow> bool option" where
  "QMD_TAILQ_CHECK_NEXT elm m = do {
     n \<leftarrow> TAILQ_NEXT elm m;
     (if n = NULL then Some False
      else do {
        e \<leftarrow> get_entry n m;
        Some (tqe_prev e \<noteq> Link_Next elm)
      })
   }"

definition QMD_TAILQ_CHECK_PREV :: "addr \<Rightarrow> tqmem \<Rightarrow> bool option" where
  "QMD_TAILQ_CHECK_PREV elm m = do {
     e \<leftarrow> get_entry elm m;
     v \<leftarrow> link_get (tqe_prev e) m;
     Some (v \<noteq> elm)
   }"

definition list_link_get :: "link \<Rightarrow> lmem \<Rightarrow> addr option" where
  "list_link_get l m = (case l of
     Link_Null \<Rightarrow> None
   | Link_First head \<Rightarrow> LIST_FIRST head m
   | Link_Next a \<Rightarrow> LIST_NEXT a m)"

definition QMD_LIST_CHECK_HEAD :: "addr \<Rightarrow> lmem \<Rightarrow> bool option" where
  "QMD_LIST_CHECK_HEAD head m = do {
     f \<leftarrow> LIST_FIRST head m;
     (if f = NULL then Some False
      else do {
        e \<leftarrow> q_entry f m;
        Some (le_prev e \<noteq> Link_First head)
      })
   }"

definition QMD_LIST_CHECK_NEXT :: "addr \<Rightarrow> lmem \<Rightarrow> bool option" where
  "QMD_LIST_CHECK_NEXT elm m = do {
     n \<leftarrow> LIST_NEXT elm m;
     (if n = NULL then Some False
      else do {
        e \<leftarrow> q_entry n m;
        Some (le_prev e \<noteq> Link_Next elm)
      })
   }"

definition QMD_LIST_CHECK_PREV :: "addr \<Rightarrow> lmem \<Rightarrow> bool option" where
  "QMD_LIST_CHECK_PREV elm m = do {
     e \<leftarrow> q_entry elm m;
     v \<leftarrow> list_link_get (le_prev e) m;
     Some (v \<noteq> elm)
   }"

section \<open>The initializers\<close>

definition SLIST_HEAD_INITIALIZER :: slhead where
  "SLIST_HEAD_INITIALIZER = \<lparr>slh_first = NULL\<rparr>"

definition STAILQ_HEAD_INITIALIZER :: "addr \<Rightarrow> stqhead" where
  "STAILQ_HEAD_INITIALIZER head = \<lparr>stqh_first = NULL, stqh_last = Link_First head\<rparr>"

definition LIST_HEAD_INITIALIZER :: lhead where
  "LIST_HEAD_INITIALIZER = \<lparr>lh_first = NULL\<rparr>"

definition TAILQ_HEAD_INITIALIZER :: "addr \<Rightarrow> tqhead" where
  "TAILQ_HEAD_INITIALIZER head = \<lparr>tqh_first = NULL, tqh_last = Link_First head\<rparr>"

definition CIRCLEQ_HEAD_INITIALIZER :: "addr \<Rightarrow> cqhead" where
  "CIRCLEQ_HEAD_INITIALIZER head = \<lparr>cqh_first = head, cqh_last = head\<rparr>"

text \<open>An initialized head is an empty queue.\<close>

lemma initializers_empty:
  "q_heads m1 head = Some SLIST_HEAD_INITIALIZER \<Longrightarrow> is_slist m1 head []"
  "q_heads m2 head = Some (STAILQ_HEAD_INITIALIZER head) \<Longrightarrow> is_stailq m2 head []"
  "q_heads m3 head = Some LIST_HEAD_INITIALIZER \<Longrightarrow> is_list m3 head []"
  "tq_heads m4 head = Some (TAILQ_HEAD_INITIALIZER head) \<Longrightarrow> is_tailq m4 head []"
  by (simp_all add: SLIST_HEAD_INITIALIZER_def STAILQ_HEAD_INITIALIZER_def LIST_HEAD_INITIALIZER_def
      TAILQ_HEAD_INITIALIZER_def is_slist_def is_stailq_def is_list_def is_tailq_def)

section \<open>Well-formed queues pass\<close>

lemma tailq_passes:
  assumes "is_tailq m head (xs @ x # ys)"
  shows "QMD_TAILQ_CHECK_NEXT x m = Some False" "QMD_TAILQ_CHECK_PREV x m = Some False"
    "QMD_TAILQ_CHECK_HEAD head m = Some False"
proof -
  show "QMD_TAILQ_CHECK_NEXT x m = Some False"
    using assms by (cases ys) (auto simp: QMD_TAILQ_CHECK_NEXT_def is_tailq_def tq_access)
  show "QMD_TAILQ_CHECK_PREV x m = Some False"
    using assms by (cases xs rule: rev_cases) (auto simp: QMD_TAILQ_CHECK_PREV_def is_tailq_def tq_access)
  show "QMD_TAILQ_CHECK_HEAD head m = Some False"
    using assms by (cases xs) (auto simp: QMD_TAILQ_CHECK_HEAD_def is_tailq_def tq_access)
qed

lemma tailq_passes_head: "is_tailq m head xs \<Longrightarrow> QMD_TAILQ_CHECK_HEAD head m = Some False"
  by (cases xs) (auto simp: QMD_TAILQ_CHECK_HEAD_def is_tailq_def tq_access)

lemma tailq_passes_tail: "is_tailq m head xs \<Longrightarrow> QMD_TAILQ_CHECK_TAIL head m = Some False"
  by (cases xs rule: rev_cases) (auto simp: QMD_TAILQ_CHECK_TAIL_def is_tailq_def tq_access)

lemma list_passes:
  assumes "is_list m head (xs @ x # ys)"
  shows "QMD_LIST_CHECK_NEXT x m = Some False" "QMD_LIST_CHECK_PREV x m = Some False"
    "QMD_LIST_CHECK_HEAD head m = Some False"
proof -
  show "QMD_LIST_CHECK_NEXT x m = Some False"
    using assms by (cases ys) (auto simp: QMD_LIST_CHECK_NEXT_def is_list_def list_access)
  show "QMD_LIST_CHECK_PREV x m = Some False"
    using assms
    by (cases xs rule: rev_cases) (auto simp: QMD_LIST_CHECK_PREV_def list_link_get_def is_list_def list_access)
  show "QMD_LIST_CHECK_HEAD head m = Some False"
    using assms by (cases xs) (auto simp: QMD_LIST_CHECK_HEAD_def is_list_def list_access)
qed

section \<open>A queue that passes is well formed\<close>

lemma foreach_from_Cons:
  "tailq_foreach_from v m = Some (x # xs) \<longleftrightarrow>
     v \<noteq> NULL \<and> x = v \<and> (\<exists>e. get_entry v m = Some e \<and> tailq_foreach_from (tqe_next e) m = Some xs)"
  by (subst tailq_foreach_from.simps) (auto simp: TAILQ_NEXT_def bind_eq_Some_conv)

lemma foreach_from_Nil: "tailq_foreach_from v m = Some [] \<longleftrightarrow> v = NULL"
  by (subst tailq_foreach_from.simps) (auto simp: bind_eq_Some_conv)

lemma foreach_from_first: "tailq_foreach_from v m = Some xs \<Longrightarrow> v = first_of xs NULL"
  by (cases xs) (auto simp: foreach_from_Cons foreach_from_Nil)

lemma foreach_from_suffix:
  "tailq_foreach_from v m = Some (xs @ x # ys) \<Longrightarrow> tailq_foreach_from x m = Some (x # ys)"
proof (induction xs arbitrary: v)
  case Nil
  then show ?case by (simp add: foreach_from_Cons)
next
  case (Cons a xs)
  then have "\<exists>e. get_entry v m = Some e \<and> tailq_foreach_from (tqe_next e) m = Some (xs @ x # ys)"
    by (simp add: foreach_from_Cons)
  then obtain e :: tqentry where "tailq_foreach_from (tqe_next e) m = Some (xs @ x # ys)" by blast
  then show ?case by (rule Cons.IH)
qed

text \<open>A loop that ends has not seen an element twice.\<close>

lemma foreach_from_distinct:
  assumes "tailq_foreach_from v m = Some xs"
  shows "distinct xs"
proof (rule ccontr)
  assume "\<not> distinct xs"
  then obtain as x bs cs where xs: "xs = as @ [x] @ bs @ [x] @ cs" using not_distinct_decomp by blast
  then have "tailq_foreach_from v m = Some (as @ x # (bs @ x # cs))" using assms by simp
  then have "tailq_foreach_from x m = Some (x # (bs @ x # cs))" by (rule foreach_from_suffix)
  moreover from this have "tailq_foreach_from x m = Some ((x # bs) @ x # cs)" by simp
  then have "tailq_foreach_from x m = Some (x # cs)" by (rule foreach_from_suffix)
  ultimately have "bs @ x # cs = cs" by simp
  then have "length (bs @ x # cs) = length cs" by simp
  then show False by simp
qed

lemma foreach_from_seg:
  assumes "tailq_foreach_from v m = Some xs" "\<forall>x\<in>set xs. QMD_TAILQ_CHECK_NEXT x m = Some False"
    and "v \<noteq> NULL \<longrightarrow> (\<exists>e. get_entry v m = Some e \<and> tqe_prev e = l)"
  shows "tq_seg (tq_entries m) l xs NULL"
  using assms
proof (induction xs arbitrary: v l)
  case (Cons x xs)
  then obtain e where e: "x = v" "v \<noteq> NULL" "get_entry x m = Some e" "tqe_prev e = l"
      "tailq_foreach_from (tqe_next e) m = Some xs"
    by (auto simp: foreach_from_Cons)
  have check: "QMD_TAILQ_CHECK_NEXT x m = Some False" using Cons.prems(2) by simp
  have "tqe_next e \<noteq> NULL \<longrightarrow> (\<exists>e'. get_entry (tqe_next e) m = Some e' \<and> tqe_prev e' = Link_Next x)"
    using check e(3) by (auto simp: QMD_TAILQ_CHECK_NEXT_def TAILQ_NEXT_def bind_eq_Some_conv)
  then have "tq_seg (tq_entries m) (Link_Next x) xs NULL" using Cons.IH [OF e(5)] Cons.prems(2) by simp
  moreover have "tqe_next e = first_of xs NULL" using foreach_from_first [OF e(5)] .
  ultimately show ?case using e by (simp add: get_entry_def)
qed simp

text \<open>The checks of the head and of each element, together with a correct \<open>tqh_last\<close> (which no check of the header
  tests), characterise the queue of the elements that the loop sees.\<close>

lemma tailq_checks_last:
  "is_tailq m head xs \<longleftrightarrow>
     TAILQ_FOREACH head m = Some xs \<and> QMD_TAILQ_CHECK_HEAD head m = Some False
     \<and> (\<forall>x\<in>set xs. QMD_TAILQ_CHECK_NEXT x m = Some False)
     \<and> map_option tqh_last (get_head head m) = Some (last_link (Link_First head) xs)" (is "?q \<longleftrightarrow> ?c")
proof
  assume q: ?q
  have "QMD_TAILQ_CHECK_NEXT x m = Some False" if x: "x \<in> set xs" for x
  proof -
    from x obtain as bs where "xs = as @ x # bs" by (meson split_list)
    with q show ?thesis using tailq_passes(1) by simp
  qed
  with q TAILQ_FOREACH_ok [OF q] tailq_passes_head [OF q] show ?c
    by (auto simp: is_tailq_def get_head_def)
next
  assume c: ?c
  then obtain f where f: "TAILQ_FIRST head m = Some f" "tailq_foreach_from f m = Some xs"
    by (auto simp: TAILQ_FOREACH_def bind_eq_Some_conv)
  from c obtain h where h: "get_head head m = Some h" "tqh_last h = last_link (Link_First head) xs" by auto
  have first: "tqh_first h = first_of xs NULL"
    using f h(1) foreach_from_first [OF f(2)] by (simp add: TAILQ_FIRST_def)
  have "f \<noteq> NULL \<longrightarrow> (\<exists>e. get_entry f m = Some e \<and> tqe_prev e = Link_First head)"
    using c f(1) h(1) by (auto simp: QMD_TAILQ_CHECK_HEAD_def TAILQ_EMPTY_def TAILQ_FIRST_def bind_eq_Some_conv)
  then have "tq_seg (tq_entries m) (Link_First head) xs NULL" using foreach_from_seg [OF f(2)] c by blast
  moreover have "tq_heads m head = Some \<lparr>tqh_first = first_of xs NULL, tqh_last = last_link (Link_First head) xs\<rparr>"
    using h first by (simp add: get_head_def)
  ultimately show ?q using foreach_from_distinct [OF f(2)] by (simp add: is_tailq_def)
qed

lemma tailq_checks_last_example:
  "is_tailq \<lparr>tq_entries = [8 \<mapsto> \<lparr>tqe_next = NULL, tqe_prev = Link_First 1\<rparr>],
     tq_heads = [1 \<mapsto> \<lparr>tqh_first = 8, tqh_last = Link_Next 8\<rparr>]\<rparr> 1 [8]"
proof -
  let ?m = "\<lparr>tq_entries = [8 \<mapsto> \<lparr>tqe_next = NULL, tqe_prev = Link_First 1\<rparr>],
     tq_heads = [1 \<mapsto> \<lparr>tqh_first = 8, tqh_last = Link_Next 8\<rparr>]\<rparr>"
  have "TAILQ_FOREACH 1 ?m = Some [8]"
    by (simp add: TAILQ_FOREACH_def tq_access foreach_from_Cons foreach_from_Nil)
  moreover have "QMD_TAILQ_CHECK_HEAD 1 ?m = Some False" by (simp add: QMD_TAILQ_CHECK_HEAD_def tq_access)
  moreover have "QMD_TAILQ_CHECK_NEXT 8 ?m = Some False" by (simp add: QMD_TAILQ_CHECK_NEXT_def tq_access)
  ultimately show ?thesis by (subst tailq_checks_last) (simp add: get_head_def)
qed

text \<open>
  The check of the tail is not enough: an empty queue whose head points to the link of an element that was taken out
  passes both checks of the head and is no queue; what is inserted at its end is lost.
\<close>

definition stale_tail :: tqmem where
  "stale_tail = \<lparr>tq_entries = [8 \<mapsto> \<lparr>tqe_next = NULL, tqe_prev = Link_Null\<rparr>, 16 \<mapsto> \<lparr>tqe_next = NULL, tqe_prev = Link_Null\<rparr>],
     tq_heads = [1 \<mapsto> \<lparr>tqh_first = NULL, tqh_last = Link_Next 8\<rparr>]\<rparr>"

lemma stale_tail_passes:
  "QMD_TAILQ_CHECK_HEAD 1 stale_tail = Some False \<and> QMD_TAILQ_CHECK_TAIL 1 stale_tail = Some False
   \<and> Option.bind (TAILQ_INSERT_TAIL 1 16 stale_tail) (TAILQ_EMPTY 1) = Some True"
  by (simp add: stale_tail_def QMD_TAILQ_CHECK_HEAD_def QMD_TAILQ_CHECK_TAIL_def TAILQ_INSERT_TAIL_def tq_access)

end
