(* ===== verification/Sched_Frame.thy ===== *)
theory Sched_Frame
  imports Examples
begin

text \<open>
  What a step of the program leaves alone: a coroutine that is not ready, does not run and is not the
  scheduler's own keeps its state and its context, and the event manager changes only in \<open>env_stop\<close>.
  So the coroutines that \<open>env_init\<close> makes for the event manager and for the way back from the second
  thread are never entered (Two_Threads).
\<close>

definition master_coro :: "world \<Rightarrow> addr option" where
  "master_coro w = map_option sched_coro (scheds w (g_mastersched w))"

text \<open>From \<open>w\<close> to \<open>w'\<close> no coroutine outside \<open>A\<close> changed, and none of what is fixed after the start.\<close>

definition touches :: "addr set \<Rightarrow> world \<Rightarrow> world \<Rightarrow> bool" where
  "touches A w w' \<longleftrightarrow>
     (\<forall>x. x \<notin> A \<longrightarrow> coros w' x = coros w x) \<and> master_coro w' = master_coro w
     \<and> g_mastersched w' = g_mastersched w \<and> g_eventmgr w' = g_eventmgr w
     \<and> dom (eventmgrs w') = dom (eventmgrs w)"

lemma touches_refl [simp]: "touches A w w"
  by (simp add: touches_def)

lemma touches_mono: "touches A w w' \<Longrightarrow> A \<subseteq> B \<Longrightarrow> touches B w w'"
  by (auto simp: touches_def)

lemma touches_trans: "touches A w w' \<Longrightarrow> touches A w' w'' \<Longrightarrow> touches A w w''"
  by (simp add: touches_def)

named_theorems touch

lemma upd_coro_touch [touch]: "upd_coro c f w = Inr w' \<Longrightarrow> c \<in> A \<Longrightarrow> touches A w w'"
  by (auto simp: upd_coro_def get_coro_def andThen_eq_Inr touches_def master_coro_def fun_upd_apply)

lemma upd_sched_touch [touch]:
  "upd_sched s f w = Inr w' \<Longrightarrow> (\<And>sc. sched_coro (f sc) = sched_coro sc) \<Longrightarrow> touches A w w'"
  by (auto simp: upd_sched_def get_sched_def andThen_eq_Inr touches_def master_coro_def fun_upd_apply)

lemma on_tq_touch [touch]: "on_tq f w = Inr w' \<Longrightarrow> touches A w w'"
  by (auto simp: on_tq_def andThen_eq_Inr touches_def master_coro_def)

lemma on_rbt_touch [touch]: "on_rbt f w = Inr w' \<Longrightarrow> touches A w w'"
  by (auto simp: on_rbt_def andThen_eq_Inr touches_def master_coro_def)

lemma goto_touch [simp]: "touches A w (goto th p v) = touches A w v" "touches A w (v\<lparr>control := k\<rparr>) = touches A w v"
  by (auto simp: goto_def touches_def master_coro_def)

lemma sched_pop_touch [touch]: "sched_pop s w = Inr (c, w') \<Longrightarrow> touches A w w'"
  by (auto simp: sched_pop_def andThen_eq_Inr touches_def master_coro_def)

lemma coro_transfer_touch:
  "coro_transfer th prev next here w = Inr w' \<Longrightarrow> (\<And>c. prev = Coro_ctx c \<Longrightarrow> c \<in> A) \<Longrightarrow> touches A w w'"
  unfolding coro_transfer_def set_ctx_def andThen_eq_Inr
  by (auto split: ctxref.splits
      intro: touches_trans [OF upd_coro_touch] touches_trans [OF upd_sched_touch])

lemma coro_switch_touch [touch]: "coro_switch th from to here w = Inr w' \<Longrightarrow> from \<in> A \<Longrightarrow> touches A w w'"
  unfolding coro_switch_def andThen_eq_Inr by (auto intro: coro_transfer_touch)

lemma coro_ready_touch [touch]: "coro_ready c w = Inr w' \<Longrightarrow> c \<in> A \<Longrightarrow> touches A w w'"
  unfolding coro_ready_def andThen_eq_Inr by (auto intro: touches_trans [OF upd_coro_touch on_tq_touch])


lemma coro_yield_touch [touch]: "coro_yield th c w = Inr w' \<Longrightarrow> touches {c} w w'"
  by (auto simp: coro_yield_def coro_ready_def is_current_def op_defs andThen_eq_Inr touches_def
      master_coro_def fun_upd_apply split: if_splits)

lemma coro_exit_touch [touch]: "coro_exit th c w = Inr w' \<Longrightarrow> touches {c} w w'"
  by (auto simp: coro_exit_def is_current_def op_defs andThen_eq_Inr touches_def
      master_coro_def fun_upd_apply split: if_splits)

lemma env_stop_touch [touch]: "env_stop w = Inr w' \<Longrightarrow> touches A w w'"
  by (auto simp: env_stop_def op_defs andThen_eq_Inr touches_def master_coro_def fun_upd_apply split: if_splits)

lemma env_run_touch [touch]: "env_run n w = Some (Inr (rs, w')) \<Longrightarrow> touches A w w'"
  by (auto simp: env_run_def op_defs andThen_eq_Inr touches_def master_coro_def fun_upd_apply split: if_splits)

lemma spawn_touch [touch]: "spawn_frame a w w' \<Longrightarrow> touches {a} w w'"
  by (simp add: spawn_frame_def touches_def master_coro_def)

lemma sched_run_back_touch [touch]: "sched_run_back c w = Inr w' \<Longrightarrow> touches {c} w w'"
  by (auto simp: sched_run_back_def coro_dealloc_def cs_free_def release_coro_def op_defs andThen_eq_Inr touches_def
      master_coro_def goto_def fun_upd_apply split: if_splits)

lemma sched_run_end_touch [touch]: "sched_run_end w = Inr w' \<Longrightarrow> touches (set_option (master_coro w)) w w'"
  by (auto simp: sched_run_end_def op_defs andThen_eq_Inr touches_def master_coro_def fun_upd_apply)

lemma sent_parallel_touch [touch]: "coro_sent_parallel c w = Inr (rs, w') \<Longrightarrow> c \<in> A \<Longrightarrow> touches A w w'"
  by (auto simp: coro_sent_parallel_def op_defs andThen_eq_Inr touches_def master_coro_def fun_upd_apply
      split: if_splits)

lemma ready_immediatly_touch [touch]: "coro_ready_immediatly c w = Inr w' \<Longrightarrow> c \<in> A \<Longrightarrow> touches A w w'"
  unfolding coro_ready_immediatly_def andThen_eq_Inr by (auto intro: touches_trans [OF upd_coro_touch on_tq_touch])

text \<open>A turn of the loop of the scheduler, once it has taken the coroutine \<open>c\<close> out of its queue.\<close>

lemma dispatch_touch:
  assumes "andThen (get_coro c w) (\<lambda>co.
         if need_parallel co then
           andThen (coro_sent_parallel c w) (\<lambda>(rs, w).
           andThen (if rs \<noteq> M_ERR then coro_ready_immediatly c w else Inr w) (\<lambda>w.
           Inr (goto Master Sched_loop w)))
         else
           andThen (upd_coro c (status_update (\<lambda>_. M_RUN)) w) (\<lambda>w.
           andThen (upd_sched (g_mastersched w) (current_coro_update (\<lambda>_. c)) w) (\<lambda>w.
           andThen (get_sched (g_mastersched w) w) (\<lambda>s.
           coro_switch Master (sched_coro s) (current_coro s) (Sched_back c) w)))) = Inr w'"
  shows "touches (insert c (set_option (master_coro w))) w w'"
proof -
  from assms obtain co where co: "coros w c = Some co" by (auto simp: andThen_eq_Inr get_coro_def)
  show ?thesis
  proof (cases "need_parallel co")
    case True
    with assms co obtain rs w1 where w1: "coro_sent_parallel c w = Inr (rs, w1)"
      "andThen (if rs \<noteq> M_ERR then coro_ready_immediatly c w1 else Inr w1) (\<lambda>w. Inr (goto Master Sched_loop w)) = Inr w'"
      by (auto simp: andThen_eq_Inr get_coro_def)
    from w1(2) have "touches (insert c (set_option (master_coro w))) w1 w'"
      by (auto simp: andThen_eq_Inr split: if_splits intro: ready_immediatly_touch)
    with sent_parallel_touch [OF w1(1)] show ?thesis by (metis insertI1 touches_trans)
  next
    case False
    with assms co show ?thesis
      by (auto simp: op_defs andThen_eq_Inr touches_def master_coro_def fun_upd_apply)
  qed
qed

lemma sched_run_iter_touch:
  assumes "sched_run_iter w = Inr w'" "is_tailq (tq w) (wait_q (g_mastersched w)) ws"
  shows "touches (set ws \<union> set_option (master_coro w)) w w'"
proof -
  from assms(1) obtain S where S: "scheds w (g_mastersched w) = Some S"
    by (auto simp: sched_run_iter_def andThen_eq_Inr get_sched_def)
  show ?thesis
  proof (cases "stop S \<noteq> 0 \<or> ws = []")
    case True
    moreover have "sched_pop (g_mastersched w) w = Inr (NULL, w)" if "ws = []"
      using assms(2) that pop_none [of "tq w"] by (simp add: sched_pop_def)
    ultimately have "sched_run_end w = Inr w'"
      using assms(1) S by (auto simp: sched_run_iter_def andThen_eq_Inr get_sched_def split: if_splits)
    from touches_mono [OF sched_run_end_touch [OF this]] show ?thesis by auto
  next
    case False
    then obtain c cs where ws: "ws = c # cs" by (cases ws) auto
    from wq.take_first [OF assms(2) [unfolded ws]] obtain m where
      m: "pop (wait_q (g_mastersched w)) (tq w) = Some (c, m)" by blast
    let ?w = "w\<lparr>tq := m\<rparr>"
    have c: "c \<noteq> NULL" using is_tailq_not_null [OF assms(2)] ws by auto
    have "touches (insert c (set_option (master_coro ?w))) ?w w'"
      using assms(1) S False m c
      by (intro dispatch_touch) (simp add: sched_run_iter_def get_sched_def sched_pop_def)
    moreover have "master_coro ?w = master_coro w" "touches A w ?w" for A
      by (simp_all add: master_coro_def touches_def)
    ultimately have "touches (insert c (set_option (master_coro w))) w w'" by (metis touches_trans)
    then show ?thesis by (rule touches_mono) (auto simp: ws)
  qed
qed

section \<open>Idle coroutines\<close>

text \<open>
  \<open>idle w c co\<close>: the coroutine \<open>c\<close> has the state \<open>co\<close> and is not in use: not ready, not running, not the
  scheduler's own.
\<close>

definition idle :: "world \<Rightarrow> addr list \<Rightarrow> phase \<Rightarrow> addr \<Rightarrow> coroutine \<Rightarrow> bool" where
  "idle w ws ph c co \<longleftrightarrow> c \<noteq> NULL \<and> coros w c = Some co \<and> c \<notin> live ws ph \<and> c \<notin> set_option (master_coro w)"

lemma touches_idle:
  "touches A w w' \<Longrightarrow> idle w ws ph c co \<Longrightarrow> c \<notin> A \<Longrightarrow> c \<notin> live ws' ph' \<Longrightarrow> idle w' ws' ph' c co"
  by (simp add: idle_def touches_def)

lemma astep_live:
  assumes "astep (ws, ph) (ws', ph')" "\<nexists>b. ph = Outside b" "\<nexists>c. ph = Running c"
  shows "live ws' ph' \<subseteq> live ws ph"
  using assms by (cases rule: astep.cases) (auto elim!: live.elims simp: ready_live [THEN subsetD])

lemma sched_step_touch:
  assumes rel: "sched_rel w ws ph" and s: "sched_step w = Some (Inr w')"
  shows "touches (live ws ph \<union> set_option (master_coro w)) w w' \<and> (\<nexists>b. ph = Outside b) \<and> (\<nexists>c. ph = Running c)"
proof (cases ph)
  case Loop
  have "sched_run_iter w = Inr w'" using rel s Loop by (auto simp: sched_step_def elim!: sched_relE)
  with rel_queue(1) [OF rel] Loop sched_run_iter_touch show ?thesis by simp
next
  case (Back c b)
  with rel s have "sched_run_back c w = Inr w'" and "c \<in> live ws ph"
    by (cases b; auto simp: sched_step_def elim!: sched_relE)+
  with Back show ?thesis by (auto intro: touches_mono [OF sched_run_back_touch])
next
  case (Running c)
  with rel have "user_point (control w Master)" by (auto elim!: sched_relE)
  with s show ?thesis by (cases "control w Master" rule: user_point.cases) (auto simp: sched_step_def)
qed (use rel s in \<open>auto simp: sched_step_def elim!: sched_relE\<close>)

lemma idle_user [simp]: "idle (user_mem E I w) ws ph c co = idle w ws ph c co"
  by (simp add: idle_def master_coro_def)

lemma idle_events [simp]: "idle (w\<lparr>events := E\<rparr>) ws ph c co = idle w ws ph c co"
  by (simp add: idle_def master_coro_def)

lemma idle_interest [simp]: "idle (w\<lparr>interest := I\<rparr>) ws ph c co = idle w ws ph c co"
  by (simp add: idle_def master_coro_def)

lemma yield_idle:
  assumes "sched_rel w ws (Running d)" "idle w ws (Running d) c co" "coro_yield Master d w = Inr w'"
  shows "\<exists>ws' ph'. sched_rel w' ws' ph' \<and> idle w' ws' ph' c co"
proof -
  from coro_yield_refines [OF assms(1)] assms(3) have r: "sched_rel w' (ws @ [d]) (Back d False)" by auto
  have "c \<noteq> d" "c \<notin> live (ws @ [d]) (Back d False)" using assms(2) by (auto simp: idle_def)
  with touches_idle [OF coro_yield_touch [OF assms(3)] assms(2)] r show ?thesis by blast
qed

lemma step_idle:
  assumes rel: "sched_rel w ws ph" and idle: "idle w ws ph c co" and "step w w'"
  shows "\<exists>ws' ph'. sched_rel w' ws' ph' \<and> idle w' ws' ph' c co"
  using assms(3)
proof (cases rule: step.cases)
  case s_start
  from rel_in_main [OF rel s_start(1)] rel_not_started rel s_start(2) have ph: "ph = Outside False" by blast
  from s_start(3) have "\<not> g_mutex w" "g_mastersched w \<noteq> NULL" "g_parallelsched w \<noteq> NULL"
    by (auto simp: env_run_def split: if_splits)
  with env_run_refines [of w ws] rel ph s_start(3) have "sched_rel w' ws Loop" by auto
  moreover have "idle w' ws Loop c co"
    by (rule touches_idle [OF env_run_touch [OF s_start(3), of "{}"] idle]) (use idle ph in \<open>simp_all add: idle_def\<close>)
  ultimately show ?thesis by blast
next
  case s_sched
  note t = sched_step_touch [OF rel s_sched]
  from sched_step_refines [OF rel] s_sched obtain ws' ph' where
    r: "sched_rel w' ws' ph'" "astep (ws, ph) (ws', ph')" by auto
  from astep_live [OF r(2)] t idle have "c \<notin> live ws' ph'" by (auto simp: idle_def)
  with touches_idle [of _ w w' ws ph c co] t idle r(1) show ?thesis by (fastforce simp: idle_def)
next
  case (s_yield d)
  with rel idle rel_running [OF rel s_yield(1)] yield_idle show ?thesis by blast
next
  case (s_exit d)
  note ph = rel_running [OF rel s_exit(1)]
  from coro_exit_refines [of w ws d] rel ph s_exit(2) have r: "sched_rel w' ws (Back d True)" by auto
  have "c \<noteq> d" "c \<notin> live ws (Back d True)" using idle ph by (auto simp: idle_def)
  with touches_idle [OF coro_exit_touch [OF s_exit(2)] idle] r show ?thesis by blast
next
  case (s_spawn d malloc n f arg rs)
  let ?a = "malloc (sizeof_coroutine + n)"
  let ?ws = "if ?a = NULL then ws else ws @ [?a]"
  note ph = rel_caller [OF rel s_spawn(1)]
  from coro_spawn_refines [where malloc = malloc and f = f and arg = arg and n = n,
      OF rel ph coro_spawn_size [OF s_spawn(3)] s_spawn(2)] s_spawn(3)
  have r: "sched_rel w' ?ws ph" "spawn_frame ?a w w'" by auto
  have "c \<noteq> ?a" using s_spawn(2) idle by (auto simp: idle_def alloc_ok_def)
  moreover from this have "c \<notin> live ?ws ph" using idle ph by (auto simp: idle_def)
  ultimately show ?thesis using touches_idle [OF spawn_touch [OF r(2)] idle] r(1) by blast
next
  case (s_stop d)
  note ph = rel_caller [OF rel s_stop(1)]
  have "sched_rel w' ws ph" using env_stop_refines(1) [OF rel s_stop(2)] ph by blast
  moreover have "idle w' ws ph c co"
    by (rule touches_idle [OF env_stop_touch [OF s_stop(2), of "{}"] idle]) (use idle in \<open>simp_all add: idle_def\<close>)
  ultimately show ?thesis by blast
next
  case (s_parallel d rs)
  then show ?thesis using to_parallel_same rel idle rel_running [OF rel s_parallel(1)] by auto
next
  case (s_event d evs)
  then have "sched_rel w' ws ph \<and> idle w' ws ph c co" using rel idle by simp
  then show ?thesis by blast
next
  case (s_register d ev e mgr)
  note ph = rel_running [OF rel s_register(1)]
  from register_event_yields [OF s_register(4,2)] s_register(3) obtain E I where
    "coro_yield Master d (user_mem E I w) = Inr w'" by blast
  with yield_idle [of "user_mem E I w" ws d c co] rel idle ph show ?thesis by simp
next
  case (s_remove d mgr ev)
  then obtain I where "w' = w\<lparr>interest := I\<rparr>" using remove_event_user by blast
  then have "sched_rel w' ws ph \<and> idle w' ws ph c co" using rel idle by simp
  then show ?thesis by blast
qed

lemma reachable_idle:
  assumes "step\<^sup>*\<^sup>* w w'" "sched_rel w ws ph" "idle w ws ph c co"
  shows "\<exists>ws' ph'. sched_rel w' ws' ph' \<and> idle w' ws' ph' c co"
  using assms(1)
proof (induction rule: rtranclp_induct)
  case base
  with assms(2,3) show ?case by blast
next
  case (step w1 w2)
  then show ?case using step_idle by blast
qed

text \<open>The two coroutines that \<open>env_init\<close> makes and queues nowhere.\<close>

lemma env_idle:
  assumes "env_ok r rbs w" "env_init r rbs w = Inr (rs, w0)"
    and "(c, co) \<in> {(e_back_coro r, fresh_coro Scheduleback_run NULL), (e_mgr_coro r, fresh_coro Event_loop (e_mgr r))}"
  shows "sched_rel w0 [] (Outside False) \<and> idle w0 [] (Outside False) c co"
proof -
  from env_init_refines [OF assms(1)] assms(2) have
    w0: "sched_rel w0 [] (Outside False)" "env_made r rbs w w0" by auto
  have "distinct [e_sched_coro r, e_parallel_coro r, e_back_coro r, e_mgr_coro r]"
    "NULL \<notin> {e_sched_coro r, e_parallel_coro r, e_back_coro r, e_mgr_coro r}"
    using assms(1) by (simp_all add: env_ok_def)
  with w0 assms(3) show ?thesis
    by (auto simp: idle_def env_made_def master_coro_def fun_upd_apply)
qed

end
