(* ===== verification/Two_Threads.thy ===== *)
theory Two_Threads
  imports Sched_Frame
begin

text \<open>
  The two threads of the program together: what the master thread does (Sched_Safety), interleaved
  with the second thread that \<open>env_run\<close> creates.  \<open>env_run\<close> is split between \<open>pthread_create\<close> and
  \<open>pthread_mutex_lock\<close>, where the new thread can overtake it.  The steps of each thread are atomic: the
  data that both threads use is the lock, which is taken and given back within a step or taken for good.

  As long as no coroutine asks to run in parallel, neither thread disturbs the other: the master
  thread refines the abstract scheduler with a second thread as well as without.  But who takes the
  lock first decides whether the scheduler ever starts.
\<close>

section \<open>The steps of both threads\<close>

text \<open>The second thread: not created yet, about to call \<open>parallel_main\<close>, or in \<open>parallel_run\<close>.\<close>

datatype second = No_thread | At_main | At_run

text \<open>The master thread is in \<open>env_run\<close>, between \<open>pthread_create\<close> and \<open>pthread_mutex_lock\<close>.\<close>

definition in_env_run :: "world \<Rightarrow> second \<Rightarrow> bool" where
  "in_env_run w p \<longleftrightarrow> p \<noteq> No_thread \<and> control w Master = In_main \<and> not_started w"

inductive tstep :: "world \<times> second \<Rightarrow> world \<times> second \<Rightarrow> bool" where
  t_create: "control w Master = In_main \<Longrightarrow> not_started w \<Longrightarrow> g_mastersched w \<noteq> NULL \<Longrightarrow> g_parallelsched w \<noteq> NULL \<Longrightarrow>
    tstep (w, No_thread) (w, At_main)"
| t_no_create: "control w Master = In_main \<Longrightarrow> not_started w \<Longrightarrow> created \<noteq> 0 \<Longrightarrow>
    env_run created w = Some (Inr (rs, w')) \<Longrightarrow> tstep (w, No_thread) (w', No_thread)"
| t_start: "in_env_run w p \<Longrightarrow> env_run 0 w = Some (Inr (None, w')) \<Longrightarrow> tstep (w, p) (w', p)"
| t_master: "step w w' \<Longrightarrow> \<not> in_env_run w p \<Longrightarrow> (control w Master = In_main \<longrightarrow> control w' Master = In_main) \<Longrightarrow>
    tstep (w, p) (w', p)"
| t_main: "parallel_main (g_parallelsched w) w = Some (Inr w') \<Longrightarrow> tstep (w, At_main) (w', At_run)"
| t_run: "parallel_step sends w = Some (Inr w') \<Longrightarrow> tstep (w, At_run) (w', At_run)"

section \<open>What the master thread leaves to the second\<close>

definition keeps_second :: "world \<Rightarrow> world \<Rightarrow> bool" where
  "keeps_second w w' \<longleftrightarrow>
     g_mastersched w' = g_mastersched w \<and> g_parallelsched w' = g_parallelsched w \<and> g_mutex w' = g_mutex w
     \<and> control w' Parallel = control w Parallel
     \<and> (\<forall>s. s \<noteq> g_mastersched w \<longrightarrow> scheds w' s = scheds w s)
     \<and> (\<forall>h. h \<noteq> wait_q (g_mastersched w) \<longrightarrow> tq_heads (tq w') h = tq_heads (tq w) h)"

lemma insert_tail_heads:
  assumes "insert_tail h x m = Some m'" "is_tailq m h xs" "is_entry m x" "x \<notin> set xs"
  shows "h' \<noteq> h \<Longrightarrow> tq_heads m' h' = tq_heads m h'"
  using wq.put_tail [OF assms(2-4)] assms(1) by (auto simp: tq_only_def)

lemma pop_heads:
  assumes "pop h m = Some (c, m')" "is_tailq m h xs"
  shows "h' \<noteq> h \<Longrightarrow> tq_heads m' h' = tq_heads m h'"
  using assms pop_none [of m h] pop_first [of m h] by (cases xs) (auto simp: tq_only_def)

lemma env_run_keeps: "env_run 0 w = Some (Inr (rs, w')) \<Longrightarrow> keeps_second w w'"
  by (auto simp: env_run_def op_defs andThen_eq_Inr keeps_second_def fun_upd_apply split: if_splits)

lemma env_stop_keeps: "env_stop w = Inr w' \<Longrightarrow> keeps_second w w'"
  by (auto simp: env_stop_def op_defs andThen_eq_Inr keeps_second_def fun_upd_apply)

lemma spawn_keeps: "spawn_frame a w w' \<Longrightarrow> keeps_second w w'"
  by (simp add: spawn_frame_def keeps_second_def)

lemma coro_yield_keeps:
  assumes "sched_rel w ws (Running c)" "coro_yield Master c w = Inr w'"
  shows "keeps_second w w'"
proof -
  obtain S sco items co p where
    r: "scheds w (g_mastersched w) = Some S" "coros w (sched_coro S) = Some sco"
      "sched_coro S \<noteq> NULL" "sched_coro S \<notin> set ws" "sched_coro S \<noteq> c" "c \<noteq> sched_coro S"
      "is_tailq (tq w) (wait_q (g_mastersched w)) ws"
      "rb_holds (coroutine_rbt w) items" "set items = live_item ` insert c (set ws)"
      "\<forall>d\<in>set ws. coro_ok w d M_READY" "coros w c = Some co" "cid co = c" "sched co = g_mastersched w"
      "\<not> need_parallel co" "status co = M_RUN" "ctx co = Some p" "user_point p" "c \<noteq> NULL" "is_entry (tq w) c"
      "user_point (control w Master)" "current_coro S = c" "c \<notin> set ws" "ctx sco = Some (Sched_back c)"
      "main_coro S = Some In_main"
    using assms(1) by (rule running_facts)
  from assms(2) r have "\<exists>m. insert_tail (wait_q (g_mastersched w)) c (tq w) = Some m \<and> tq w' = m"
    by (auto simp: coro_yield_def is_current_def coro_ready_def op_defs andThen_eq_Inr)
  then obtain m where m: "insert_tail (wait_q (g_mastersched w)) c (tq w) = Some m" "tq w' = m" by blast
  with insert_tail_heads [OF m(1) r(7,19,22)] assms(2) r show ?thesis
    by (auto simp: keeps_second_def coro_yield_def is_current_def coro_ready_def op_defs andThen_eq_Inr fun_upd_apply)
qed

lemma coro_exit_keeps: "coro_exit Master c w = Inr w' \<Longrightarrow> keeps_second w w'"
  by (auto simp: coro_exit_def is_current_def op_defs andThen_eq_Inr keeps_second_def fun_upd_apply)

lemma sched_run_end_keeps: "sched_run_end w = Inr w' \<Longrightarrow> keeps_second w w'"
  by (auto simp: sched_run_end_def op_defs andThen_eq_Inr keeps_second_def fun_upd_apply)

lemma sched_run_back_keeps: "sched_run_back c w = Inr w' \<Longrightarrow> keeps_second w w'"
  by (auto simp: sched_run_back_def coro_dealloc_def cs_free_def release_coro_def op_defs andThen_eq_Inr
      keeps_second_def goto_def fun_upd_apply split: if_splits)

lemma sched_run_iter_keeps:
  assumes rel: "sched_rel w ws Loop" and s: "sched_run_iter w = Inr w'"
  shows "keeps_second w w'"
proof -
  obtain S where S: "scheds w (g_mastersched w) = Some S" using rel by (auto elim!: sched_relE)
  note q = rel_queue(1) [OF rel]
  show ?thesis
  proof (cases "stop S \<noteq> 0 \<or> ws = []")
    case True
    moreover have "sched_pop (g_mastersched w) w = Inr (NULL, w)" if "ws = []"
      using q that pop_none [of "tq w"] by (simp add: sched_pop_def)
    ultimately have "sched_run_end w = Inr w'"
      using s S by (auto simp: sched_run_iter_def andThen_eq_Inr get_sched_def split: if_splits)
    then show ?thesis by (rule sched_run_end_keeps)
  next
    case False
    then obtain c cs where ws: "ws = c # cs" by (cases ws) auto
    have "c \<in> live ws Loop" by (simp add: ws)
    with rel have "coro_ok w c (expected ws Loop c)" by (blast elim!: sched_relE)
    then obtain co where co: "coros w c = Some co" "\<not> need_parallel co" "c \<noteq> NULL" by (auto simp: coro_ok_def)
    from wq.take_first [OF q [unfolded ws]] obtain m where
      m: "pop (wait_q (g_mastersched w)) (tq w) = Some (c, m)" by blast
    with s S False co have "tq w' = m" and "keeps_second (w\<lparr>tq := m\<rparr>) w'"
      by (auto simp: sched_run_iter_def sched_pop_def op_defs andThen_eq_Inr keeps_second_def fun_upd_apply)
    with pop_heads [OF m q] show ?thesis by (simp add: keeps_second_def)
  qed
qed

lemma step_keeps:
  assumes rel: "sched_rel w ws ph" and "step w w'"
  shows "keeps_second w w'"
  using assms(2)
proof (cases rule: step.cases)
  case s_start
  then show ?thesis using env_run_keeps by blast
next
  case s_sched
  have "sched_run_iter w = Inr w' \<and> ph = Loop \<or> (\<exists>c. sched_run_back c w = Inr w')"
  proof (cases ph)
    case Loop
    with rel s_sched show ?thesis by (auto simp: sched_step_def elim!: sched_relE)
  next
    case (Back c b)
    with rel s_sched show ?thesis by (auto simp: sched_step_def elim!: sched_relE)
  next
    case (Running c)
    with rel have "user_point (control w Master)" by (auto elim!: sched_relE)
    with s_sched show ?thesis by (cases "control w Master" rule: user_point.cases) (auto simp: sched_step_def)
  qed (use rel s_sched in \<open>auto simp: sched_step_def elim!: sched_relE\<close>)
  with sched_run_iter_keeps sched_run_back_keeps rel show ?thesis by blast
next
  case (s_yield c)
  with coro_yield_keeps rel rel_running [OF rel s_yield(1)] show ?thesis by blast
next
  case (s_exit c)
  then show ?thesis using coro_exit_keeps by blast
next
  case (s_spawn c malloc n f arg rs)
  from coro_spawn_refines [where malloc = malloc and f = f and arg = arg and n = n,
      OF rel rel_caller [OF rel s_spawn(1)] coro_spawn_size [OF s_spawn(3)] s_spawn(2)] s_spawn(3)
  show ?thesis using spawn_keeps by auto
next
  case (s_stop c)
  then show ?thesis using env_stop_keeps by blast
next
  case (s_parallel c rs)
  then show ?thesis using to_parallel_same rel rel_running [OF rel s_parallel(1)] by (auto simp: keeps_second_def)
next
  case (s_event c evs)
  then show ?thesis by (simp add: keeps_second_def)
next
  case (s_register c ev e mgr)
  note ph = rel_running [OF rel s_register(1)]
  from register_event_yields [OF s_register(4,2)] s_register(3) obtain E I where
    "coro_yield Master c (user_mem E I w) = Inr w'" by blast
  with coro_yield_keeps [of "user_mem E I w" ws c] rel ph have "keeps_second (user_mem E I w) w'" by simp
  then show ?thesis by (simp add: keeps_second_def)
next
  case (s_remove c mgr ev)
  then obtain I where "w' = w\<lparr>interest := I\<rparr>" using remove_event_user by blast
  then show ?thesis by (simp add: keeps_second_def)
qed


section \<open>The invariant of both threads\<close>

definition threads_rel :: "world \<Rightarrow> second \<Rightarrow> addr list \<Rightarrow> phase \<Rightarrow> bool" where
  "threads_rel w p ws ph \<longleftrightarrow>
     sched_rel w ws ph \<and> g_mastersched w \<noteq> NULL \<and> g_parallelsched w \<noteq> NULL \<and> g_parallelsched w \<noteq> g_mastersched w
     \<and> is_tailq (tq w) (wait_q (g_parallelsched w)) []
     \<and> (\<exists>P co arg. scheds w (g_parallelsched w) = Some P \<and> stop P = 0 \<and> idle w ws ph (sched_coro P) co
          \<and> ctx co = Some (Enter Parallel_run arg))
     \<and> (if p = At_run then control w Parallel = Par_loop \<or> (\<exists>arg. control w Parallel = Enter Parallel_run arg)
        else \<not> g_mutex w)
     \<and> (p = No_thread \<longrightarrow> ph = Outside False)"

lemma threads_relE:
  assumes "threads_rel w p ws ph"
  obtains P co arg where
    "sched_rel w ws ph" "g_mastersched w \<noteq> NULL" "g_parallelsched w \<noteq> NULL" "g_parallelsched w \<noteq> g_mastersched w"
    "is_tailq (tq w) (wait_q (g_parallelsched w)) []" "scheds w (g_parallelsched w) = Some P" "stop P = 0"
    "idle w ws ph (sched_coro P) co" "ctx co = Some (Enter Parallel_run arg)"
    "p = At_run \<Longrightarrow> control w Parallel = Par_loop \<or> (\<exists>arg. control w Parallel = Enter Parallel_run arg)"
    "p \<noteq> At_run \<Longrightarrow> \<not> g_mutex w" "p = No_thread \<Longrightarrow> ph = Outside False"
  using assms unfolding threads_rel_def by (auto split: if_splits)

lemma threads_relI:
  assumes "sched_rel w ws ph" "g_mastersched w \<noteq> NULL" "g_parallelsched w \<noteq> NULL" "g_parallelsched w \<noteq> g_mastersched w"
    "is_tailq (tq w) (wait_q (g_parallelsched w)) []" "scheds w (g_parallelsched w) = Some P" "stop P = 0"
    "idle w ws ph (sched_coro P) co" "ctx co = Some (Enter Parallel_run arg)"
    "p = At_run \<Longrightarrow> control w Parallel = Par_loop \<or> (\<exists>arg. control w Parallel = Enter Parallel_run arg)"
    "p \<noteq> At_run \<Longrightarrow> \<not> g_mutex w" "p = No_thread \<Longrightarrow> ph = Outside False"
  shows "threads_rel w p ws ph"
  using assms unfolding threads_rel_def by auto

text \<open>The registry determines which coroutines are live.\<close>

lemma rel_live_iff:
  assumes "sched_rel w ws ph" "c \<noteq> NULL"
  shows "c \<in> live ws ph \<longleftrightarrow> sched_get_coro c w = Inr c"
  using rel_registry [OF assms(1), of c] assms(2) by (cases "c \<in> live ws ph") simp_all

lemma rel_live_unique:
  assumes "sched_rel w ws ph" "sched_rel w ws' ph'"
  shows "live ws ph = live ws' ph'"
proof -
  have "NULL \<notin> live ws ph" "NULL \<notin> live ws' ph'"
    using assms by (auto simp: coro_ok_def elim!: sched_relE)
  then show ?thesis using rel_live_iff [OF assms(1)] rel_live_iff [OF assms(2)] by (metis subsetI subset_antisym)
qed

lemma idle_unique:
  "sched_rel w ws ph \<Longrightarrow> sched_rel w ws' ph' \<Longrightarrow> idle w ws ph c co = idle w ws' ph' c co"
  using rel_live_unique [of w ws ph ws' ph'] by (simp add: idle_def)

text \<open>The second thread changes nothing that the master's relation speaks of.\<close>

lemma rel_other_thread:
  assumes "coros w' = coros w" "tq w' = tq w" "coroutine_rbt w' = coroutine_rbt w" "g_mastersched w' = g_mastersched w"
    "scheds w' (g_mastersched w) = scheds w (g_mastersched w)" "control w' Master = control w Master"
  shows "sched_rel w' ws ph = sched_rel w ws ph" and "idle w' ws ph c co = idle w ws ph c co"
proof -
  have "place w' S x ws ph = place w S x ws ph" for S x
    using assms(6) by (cases ph) auto
  then show "sched_rel w' ws ph = sched_rel w ws ph" using assms by (simp add: sched_rel_def coro_ok_def)
  show "idle w' ws ph c co = idle w ws ph c co" using assms by (simp add: idle_def master_coro_def)
qed

text \<open>The same, as one fact about a step of the second thread.\<close>

definition same_master :: "world \<Rightarrow> world \<Rightarrow> bool" where
  "same_master w w' \<longleftrightarrow> coros w' = coros w \<and> g_mastersched w' = g_mastersched w \<and> g_eventmgr w' = g_eventmgr w
     \<and> eventmgrs w' = eventmgrs w \<and> scheds w' (g_mastersched w) = scheds w (g_mastersched w)"

lemma same_master_idle: "same_master w w' \<Longrightarrow> idle w ws ph c co \<Longrightarrow> idle w' ws ph c co"
  by (simp add: same_master_def idle_def master_coro_def)

lemma same_master_stopped: "same_master w w' \<Longrightarrow> stopped w' = stopped w"
  by (simp add: same_master_def stopped_def)

lemma main_outside:
  "sched_rel w ws ph \<Longrightarrow> ph = Outside b \<Longrightarrow> control w Master = In_main"
  by (auto elim!: sched_relE)

lemma outside_not_started: "sched_rel w ws (Outside False) \<Longrightarrow> not_started w"
  by (auto simp: not_started_def elim!: sched_relE)

section \<open>Preservation\<close>

lemma parallel_main_rel:
  assumes "threads_rel w p ws ph" "p \<noteq> At_run"
  shows "\<exists>w'. parallel_main (g_parallelsched w) w = Some (Inr w') \<and> control w' Master = control w Master
    \<and> g_mutex w' = g_mutex w \<and> threads_rel w' At_run ws ph \<and> same_master w w'"
  using assms(1)
proof (rule threads_relE)
  fix P co arg
  assume r: "sched_rel w ws ph" "g_mastersched w \<noteq> NULL" "g_parallelsched w \<noteq> NULL" "g_parallelsched w \<noteq> g_mastersched w"
    "is_tailq (tq w) (wait_q (g_parallelsched w)) []" "scheds w (g_parallelsched w) = Some P" "stop P = 0"
    "idle w ws ph (sched_coro P) co" "ctx co = Some (Enter Parallel_run arg)"
    "p \<noteq> At_run \<Longrightarrow> \<not> g_mutex w"
  let ?w = "w\<lparr>scheds := (scheds w)(g_parallelsched w \<mapsto> P\<lparr>main_coro := Some In_main\<rparr>),
      control := (control w)(Parallel := Enter Parallel_run arg)\<rparr>"
  have "parallel_main (g_parallelsched w) w = Some (Inr ?w)"
    using r assms(2) by (simp add: parallel_main_def op_defs idle_def)
  moreover have "threads_rel ?w At_run ws ph"
    using r by (intro threads_relI [where P = "P\<lparr>main_coro := Some In_main\<rparr>" and co = co])
      (simp_all add: rel_other_thread [of ?w w])
  moreover have "same_master w ?w" using r(4) by (simp add: same_master_def)
  ultimately show ?thesis by (intro exI [of _ ?w]) simp
qed

lemma parallel_step_rel:
  assumes "threads_rel w At_run ws ph"
  shows "\<exists>w'. parallel_step sends w = Some (Inr w') \<and> control w' Master = control w Master
    \<and> g_mutex w' \<and> threads_rel w' At_run ws ph \<and> same_master w w'"
  using assms
proof (rule threads_relE)
  fix P co arg
  assume r: "sched_rel w ws ph" "g_mastersched w \<noteq> NULL" "g_parallelsched w \<noteq> NULL" "g_parallelsched w \<noteq> g_mastersched w"
    "is_tailq (tq w) (wait_q (g_parallelsched w)) []" "scheds w (g_parallelsched w) = Some P" "stop P = 0"
    "idle w ws ph (sched_coro P) co" "ctx co = Some (Enter Parallel_run arg)"
    "At_run = At_run \<Longrightarrow> control w Parallel = Par_loop \<or> (\<exists>arg. control w Parallel = Enter Parallel_run arg)"
  let ?w = "w\<lparr>g_mutex := True, control := (control w)(Parallel := Par_loop)\<rparr>"
  have "parallel_idle w" using r by (auto simp: parallel_idle_def)
  then have "parallel_step [] w = Some (Inr ?w)" by (rule parallel_step_idle)
  moreover have "parallel_step sends w = parallel_step [] w" using r(10) by (auto simp: parallel_step_def)
  moreover have "threads_rel ?w At_run ws ph"
    using r by (intro threads_relI [where P = P and co = co]) (simp_all add: rel_other_thread [of ?w w])
  moreover have "same_master w ?w" using r(4) by (simp add: same_master_def)
  ultimately show ?thesis by (intro exI [of _ ?w]) simp
qed

lemma master_step_rel:
  assumes rel: "threads_rel w p ws ph" and s: "step w w'"
    and main: "p = No_thread \<Longrightarrow> control w' Master = In_main"
  shows "\<exists>ws' ph'. threads_rel w' p ws' ph' \<and> ((ws', ph') = (ws, ph) \<or> astep (ws, ph) (ws', ph'))"
  using rel
proof (rule threads_relE)
  fix P co arg
  assume r: "sched_rel w ws ph" "g_mastersched w \<noteq> NULL" "g_parallelsched w \<noteq> NULL" "g_parallelsched w \<noteq> g_mastersched w"
    "is_tailq (tq w) (wait_q (g_parallelsched w)) []" "scheds w (g_parallelsched w) = Some P" "stop P = 0"
    "idle w ws ph (sched_coro P) co" "ctx co = Some (Enter Parallel_run arg)"
    "p = At_run \<Longrightarrow> control w Parallel = Par_loop \<or> (\<exists>arg. control w Parallel = Enter Parallel_run arg)"
    "p \<noteq> At_run \<Longrightarrow> \<not> g_mutex w" "p = No_thread \<Longrightarrow> ph = Outside False"
  from step_simulates [OF r(1) s] obtain ws' ph' where
    m: "sched_rel w' ws' ph'" "(ws', ph') = (ws, ph) \<or> astep (ws, ph) (ws', ph')" by blast
  from step_idle [OF r(1,8) s] idle_unique [OF _ m(1)] have i: "idle w' ws' ph' (sched_coro P) co" by blast
  note k = step_keeps [OF r(1) s, unfolded keeps_second_def]
  have "ph' = Outside False" if "p = No_thread"
  proof -
    from rel_in_main [OF m(1) main [OF that]] obtain b where "ph' = Outside b" by blast
    with m(2) r(12) [OF that] show ?thesis by (auto elim: astep.cases)
  qed
  with k r m(1) i have "threads_rel w' p ws' ph'"
    by (intro threads_relI [where P = P and co = co]) (simp_all add: is_tailq_empty)
  with m(2) show ?thesis by blast
qed


lemma tstep_rel:
  assumes rel: "threads_rel w p ws ph" and t: "tstep (w, p) (w', p')"
  shows "\<exists>ws' ph'. threads_rel w' p' ws' ph' \<and> ((ws', ph') = (ws, ph) \<or> astep (ws, ph) (ws', ph'))"
  using t
proof (cases rule: tstep.cases)
  case t_create
  with rel have "threads_rel w' p' ws ph" by (auto simp: threads_rel_def)
  then show ?thesis by blast
next
  case (t_no_create created rs)
  then have "w' = w" by (auto simp: env_run_def split: if_splits)
  with t_no_create rel show ?thesis by blast
next
  case t_start
  then have "step w w'" by (auto simp: in_env_run_def intro: s_start)
  with master_step_rel [OF rel] t_start show ?thesis by (auto simp: in_env_run_def)
next
  case t_master
  have "control w' Master = In_main" if "p = No_thread"
    using rel that t_master(4) main_outside by (auto elim!: threads_relE)
  with master_step_rel [OF rel t_master(2)] t_master(1) show ?thesis by blast
next
  case t_main
  with parallel_main_rel [OF rel] show ?thesis by auto
next
  case (t_run sends)
  with parallel_step_rel [of w ws ph sends] rel show ?thesis by auto
qed

lemma threads_reachable:
  assumes "tstep\<^sup>*\<^sup>* (w0, p0) (w', p)" "threads_rel w0 p0 ws0 ph0"
  shows "\<exists>ws ph. threads_rel w' p ws ph \<and> astep\<^sup>*\<^sup>* (ws0, ph0) (ws, ph)"
  using assms(1)
proof (induction rule: rtranclp_induct2)
  case refl
  with assms(2) show ?case by blast
next
  case (step w1 p1 w2 p2)
  then obtain ws ph where "threads_rel w1 p1 ws ph" "astep\<^sup>*\<^sup>* (ws0, ph0) (ws, ph)" by blast
  with tstep_rel [of w1 p1 ws ph w2 p2] step(2) show ?case by (metis rtranclp.rtrancl_into_rtrancl)
qed

lemma env_init_threads:
  assumes "env_ok r rbs w" "\<not> g_mutex w" "env_init r rbs w = Inr (rs, w0)"
  shows "threads_rel w0 No_thread [] (Outside False)"
proof -
  from env_init_refines [OF assms(1)] assms(3) have
    w0: "sched_rel w0 [] (Outside False)" "env_made r rbs w w0" by auto
  from w0(2) obtain P where P: "scheds w0 (e_parallel r) = Some P" "stop P = 0" "sched_coro P = e_parallel_coro r"
    by (auto simp: env_made_def)
  have "idle w0 [] (Outside False) (e_parallel_coro r) (fresh_coro Parallel_run NULL)"
    using assms(1) w0(2) by (auto simp: idle_def env_made_def master_coro_def env_ok_def)
  with w0 P assms(1,2) show ?thesis
    by (intro threads_relI [where P = P and co = "fresh_coro Parallel_run NULL" and arg = NULL])
      (auto simp: env_made_def env_ok_def fresh_coro_def)
qed

section \<open>Both threads run without a fault\<close>


section \<open>The coroutines of the library\<close>

lemma tstep_idle:
  assumes rel: "threads_rel w p ws ph" and idle: "idle w ws ph c co" and t: "tstep (w, p) (w', p')"
  shows "\<exists>ws' ph'. threads_rel w' p' ws' ph' \<and> idle w' ws' ph' c co"
proof -
  from tstep_rel [OF rel t] obtain ws' ph' where r': "threads_rel w' p' ws' ph'" by blast
  have m: "sched_rel w ws ph" "sched_rel w' ws' ph'" using rel r' by (simp_all add: threads_rel_def)
  have by_step: "idle w' ws' ph' c co" if "step w w'"
    using step_idle [OF m(1) idle that] idle_unique [OF _ m(2)] by blast
  have "\<exists>ws1 ph1. sched_rel w' ws1 ph1 \<and> idle w' ws1 ph1 c co"
    using t
  proof (cases rule: tstep.cases)
    case t_create
    with m(1) idle show ?thesis by blast
  next
    case (t_no_create created rs)
    then have "w' = w" by (auto simp: env_run_def split: if_splits)
    with m(1) idle show ?thesis by blast
  next
    case t_start
    then have "step w w'" by (auto simp: in_env_run_def intro: s_start)
    with by_step m(2) show ?thesis by blast
  next
    case t_master
    with by_step m(2) show ?thesis by blast
  next
    case t_main
    with parallel_main_rel [OF rel] have "threads_rel w' At_run ws ph" "same_master w w'" by auto
    moreover from this have "idle w' ws ph c co" "sched_rel w' ws ph"
      using same_master_idle [OF _ idle] by (simp_all add: threads_rel_def)
    ultimately show ?thesis by blast
  next
    case (t_run sends)
    with parallel_step_rel [of w ws ph sends] rel have "threads_rel w' At_run ws ph" "same_master w w'" by auto
    moreover from this have "idle w' ws ph c co" "sched_rel w' ws ph"
      using same_master_idle [OF _ idle] by (simp_all add: threads_rel_def)
    ultimately show ?thesis by blast
  qed
  with idle_unique [OF _ m(2)] r' show ?thesis by blast
qed

lemma threads_idle:
  assumes "tstep\<^sup>*\<^sup>* (w0, p0) (w', p)" "threads_rel w0 p0 ws0 ph0" "idle w0 ws0 ph0 c co"
  shows "\<exists>ws ph. threads_rel w' p ws ph \<and> idle w' ws ph c co"
  using assms(1)
proof (induction rule: rtranclp_induct2)
  case refl
  with assms(2,3) show ?case by blast
next
  case (step w1 p1 w2 p2)
  then show ?case using tstep_idle by blast
qed

lemma rel_control:
  "sched_rel w ws ph \<Longrightarrow> control w Master = Enter f arg \<Longrightarrow> f = Sched_run \<or> (\<exists>u. f = User_fn u)"
  by (cases ph; cases f) (auto elim!: sched_relE)

text \<open>C22: The coroutines that \<open>env_init\<close> makes for the event manager and for the way back from the second thread never
  run, on either thread: whatever the two threads do, with the library calls \<open>env_run\<close>, \<open>coro_yield\<close>, \<open>coro_exit\<close>,
  \<open>coro_spawn\<close>, \<open>env_stop\<close>, \<open>coro_switch_to_parallel\<close>, \<open>register_event\<close> and \<open>remove_event\<close> of coroutines that do
  not set \<open>need_parallel\<close>, they are as \<open>env_init\<close> left them, with a context that still is at the entry of their
  function, and neither thread is at that entry.\<close>

theorem service_coroutines_never_run:
  assumes "env_ok r rbs w" "\<not> g_mutex w" "env_init r rbs w = Inr (rs, w0)" "tstep\<^sup>*\<^sup>* (w0, No_thread) (w', p)"
    and "c \<in> {e_back_coro r, e_mgr_coro r}"
  shows "\<not> running w' c \<and> coros w' c = coros w0 c
    \<and> (\<exists>co f arg. coros w' c = Some co \<and> ctx co = Some (Enter f arg) \<and> f \<in> {Scheduleback_run, Event_loop})
    \<and> (\<forall>arg. control w' Master \<notin> {Enter Scheduleback_run arg, Enter Event_loop arg})
    \<and> (p = At_run \<longrightarrow> control w' Parallel = Par_loop \<or> (\<exists>arg. control w' Parallel = Enter Parallel_run arg))"
proof -
  obtain co where co: "(c, co) \<in> {(e_back_coro r, fresh_coro Scheduleback_run NULL),
      (e_mgr_coro r, fresh_coro Event_loop (e_mgr r))}"
    using assms(5) by auto
  have w0: "idle w0 [] (Outside False) c co" using env_idle [OF assms(1,3) co] by simp
  from threads_idle [OF assms(4) env_init_threads [OF assms(1-3)] w0] obtain ws ph where
    w': "threads_rel w' p ws ph" "idle w' ws ph c co" by blast
  then have rel: "sched_rel w' ws ph" by (simp add: threads_rel_def)
  have "\<not> running w' c" using rel_running [OF rel] w'(2) by (auto simp: idle_def)
  moreover have "coros w' c = coros w0 c" using w'(2) w0 by (simp add: idle_def)
  moreover have "\<exists>co f arg. coros w' c = Some co \<and> ctx co = Some (Enter f arg) \<and> f \<in> {Scheduleback_run, Event_loop}"
    using w'(2) co by (auto simp: idle_def fresh_coro_def)
  moreover have "p = At_run \<longrightarrow> control w' Parallel = Par_loop \<or> (\<exists>arg. control w' Parallel = Enter Parallel_run arg)"
    using w'(1) by (auto simp: threads_rel_def)
  ultimately show ?thesis using rel_control [OF rel] by blast
qed

section \<open>Who takes the lock first\<close>

text \<open>The master thread waits for a lock that is never given back.\<close>

definition shut_out :: "world \<Rightarrow> second \<Rightarrow> bool" where
  "shut_out w p \<longleftrightarrow> p = At_run \<and> in_env_run w p \<and> g_mutex w \<and> (\<exists>ws ph. threads_rel w p ws ph)"

lemma shut_out_waits: "shut_out w p \<Longrightarrow> env_run 0 w = None"
  using env_run_blocked by (auto simp: shut_out_def threads_rel_def)

lemma shut_out_step:
  assumes "shut_out w p" "tstep (w, p) (w', p')"
  shows "shut_out w' p'"
  using assms(2)
proof (cases rule: tstep.cases)
  case (t_run sends)
  from assms(1) obtain ws ph where r: "threads_rel w At_run ws ph" "control w Master = In_main" "not_started w"
    by (auto simp: shut_out_def in_env_run_def)
  from parallel_step_rel [OF r(1), of sends] t_run(3) have
    w': "control w' Master = In_main" "g_mutex w'" "threads_rel w' At_run ws ph" using r(2) by auto
  from rel_in_main [OF _ r(2), of ws ph] rel_not_started [of w ws] r have "ph = Outside False"
    by (auto simp: threads_rel_def)
  with w'(3) have "not_started w'" using outside_not_started by (auto simp: threads_rel_def)
  with w' t_run show ?thesis by (auto simp: shut_out_def in_env_run_def)
next
  case t_start
  with assms(1) shut_out_waits show ?thesis by auto
qed (use assms(1) in \<open>auto simp: shut_out_def\<close>)

lemma shut_out_for_ever: "tstep\<^sup>*\<^sup>* (w, p) (w', p') \<Longrightarrow> shut_out w p \<Longrightarrow> shut_out w' p'"
  by (induction rule: rtranclp_induct2) (use shut_out_step in blast)+

lemma before_create:
  assumes "threads_rel w No_thread ws ph"
  shows "ph = Outside False" "sched_rel w ws (Outside False)" "control w Master = In_main" "not_started w"
    "tstep (w, No_thread) (w, At_main)" "threads_rel w At_main ws ph"
proof -
  show ph: "ph = Outside False" and rel: "sched_rel w ws (Outside False)"
    using assms by (auto simp: threads_rel_def)
  show m: "control w Master = In_main" "not_started w"
    using main_outside [OF rel] outside_not_started [OF rel] by auto
  show "tstep (w, No_thread) (w, At_main)" by (rule t_create [OF m]) (use assms in \<open>simp_all add: threads_rel_def\<close>)
  show "threads_rel w At_main ws ph" using assms by (auto simp: threads_rel_def)
qed

lemma create_overtaken:
  assumes "threads_rel w No_thread ws ph"
  shows "\<exists>w2. tstep\<^sup>*\<^sup>* (w, No_thread) (w2, At_run) \<and> shut_out w2 At_run"
proof -
  note b = before_create [OF assms]
  from parallel_main_rel [OF b(6)] obtain w1 where
    w1: "tstep (w, At_main) (w1, At_run)" "control w1 Master = In_main" "threads_rel w1 At_run ws ph"
    using b(3) by (auto intro: t_main)
  from parallel_step_rel [OF w1(3), of "[]"] obtain w2 where
    w2: "tstep (w1, At_run) (w2, At_run)" "control w2 Master = In_main" "g_mutex w2" "threads_rel w2 At_run ws ph"
    using w1(2) by (auto intro: t_run)
  moreover have "not_started w2" using w2(4) outside_not_started b(1) by (auto simp: threads_rel_def)
  ultimately have "shut_out w2 At_run" unfolding shut_out_def in_env_run_def by blast
  with b(5) w1(1) w2(1) show ?thesis by (meson converse_rtranclp_into_rtranclp rtranclp.rtrancl_refl)
qed

lemma create_in_time:
  assumes "threads_rel w No_thread ws ph"
  shows "\<exists>w2. tstep\<^sup>*\<^sup>* (w, No_thread) (w2, At_main) \<and> sched_rel w2 ws Loop"
proof -
  note b = before_create [OF assms]
  have "\<not> g_mutex w" "g_mastersched w \<noteq> NULL" "g_parallelsched w \<noteq> NULL"
    using assms by (auto simp: threads_rel_def)
  from env_run_refines [OF b(2) this] obtain w2 where
    w2: "env_run 0 w = Some (Inr (None, w2))" "sched_rel w2 ws Loop" by blast
  have "tstep (w, At_main) (w2, At_main)"
    using b(3,4) w2(1) by (intro t_start) (simp_all add: in_env_run_def)
  with b(5) w2(2) show ?thesis by (meson converse_rtranclp_into_rtranclp rtranclp.rtrancl_refl)
qed

text \<open>C24: Whether the scheduler starts is a race.  Whatever a program prepared before it calls \<open>env_run\<close>: when the
  master thread takes the lock before the thread that it has created, it enters the scheduler; when the
  new thread gets to its loop first, \<open>env_run\<close> never returns and no coroutine ever runs.\<close>

theorem env_run_race:
  assumes "env_ok r rbs w" "\<not> g_mutex w" "env_init r rbs w = Inr (rs, w0)" "tstep\<^sup>*\<^sup>* (w0, No_thread) (w1, No_thread)"
  shows "(\<exists>w2 ws. tstep\<^sup>*\<^sup>* (w1, No_thread) (w2, At_main) \<and> sched_rel w2 ws Loop)
    \<and> (\<exists>w2. tstep\<^sup>*\<^sup>* (w1, No_thread) (w2, At_run)
         \<and> (\<forall>w3 p. tstep\<^sup>*\<^sup>* (w2, At_run) (w3, p) \<longrightarrow> env_run 0 w3 = None \<and> control w3 Master = In_main))"
proof -
  from threads_reachable [OF assms(4) env_init_threads [OF assms(1-3)]] obtain ws ph where
    t: "threads_rel w1 No_thread ws ph" by blast
  from create_overtaken [OF t] obtain w2 where
    w2: "tstep\<^sup>*\<^sup>* (w1, No_thread) (w2, At_run)" "shut_out w2 At_run" by blast
  have "env_run 0 w3 = None \<and> control w3 Master = In_main" if "tstep\<^sup>*\<^sup>* (w2, At_run) (w3, p)" for w3 p
    using shut_out_for_ever [OF that w2(2)] shut_out_waits by (auto simp: shut_out_def in_env_run_def)
  with w2(1) create_in_time [OF t] show ?thesis by blast
qed

section \<open>A run of both threads\<close>

lemma ex_threads_run:
  "\<exists>w0 w2. env_init ex_env 8 ex_blank = Inr (M_OK, w0) \<and> tstep\<^sup>*\<^sup>* (w0, No_thread) (w2, At_run) \<and> shut_out w2 At_run"
proof -
  from env_init_refines [OF ex_env_ok] obtain w0 where w0: "env_init ex_env 8 ex_blank = Inr (M_OK, w0)" by blast
  have "threads_rel w0 No_thread [] (Outside False)"
    by (rule env_init_threads [OF ex_env_ok _ w0]) (simp add: ex_blank_def)
  from create_overtaken [OF this] w0 show ?thesis by blast
qed


theorem env_run_race_witness:
  "\<exists>w0 w1 w2 ws. env_init ex_env 8 ex_blank = Inr (M_OK, w0) \<and> tstep\<^sup>*\<^sup>* (w0, No_thread) (w1, At_main)
    \<and> sched_rel w1 ws Loop \<and> tstep\<^sup>*\<^sup>* (w0, No_thread) (w2, At_run) \<and> env_run 0 w2 = None"
proof -
  from ex_threads_run obtain w0 where w0: "env_init ex_env 8 ex_blank = Inr (M_OK, w0)" by blast
  have "\<not> g_mutex ex_blank" by (simp add: ex_blank_def)
  from env_run_race [OF ex_env_ok this w0 rtranclp.rtrancl_refl] w0 show ?thesis by blast
qed

theorem service_coroutines_never_run_witness:
  "\<exists>w0 w2. env_init ex_env 8 ex_blank = Inr (M_OK, w0) \<and> tstep\<^sup>*\<^sup>* (w0, No_thread) (w2, At_run)
    \<and> \<not> running w2 0x4000 \<and> coros w2 0x4000 \<noteq> None"
proof -
  from ex_threads_run obtain w0 w2 where
    w0: "env_init ex_env 8 ex_blank = Inr (M_OK, w0)" and w2: "tstep\<^sup>*\<^sup>* (w0, No_thread) (w2, At_run)" by blast
  have "\<not> g_mutex ex_blank" "0x4000 \<in> {e_back_coro ex_env, e_mgr_coro ex_env}"
    by (simp_all add: ex_blank_def ex_env_def Let_def)
  from service_coroutines_never_run [OF ex_env_ok this(1) w0 w2 this(2)] w0 w2 show ?thesis by auto
qed

end
