(* ===== verification/Benchmark.thy ===== *)
theory Benchmark
  imports Two_Threads
begin

text \<open>
  src/benchmark/two_coro_switch_test.c, the program that comes with the library: two coroutines that
  count and yield.  \<open>bench_turn\<close> is one turn of the loop of \<open>func\<close> with the counter as part of the state
  (it stays far below the largest \<open>int\<close>), \<open>bench_main\<close> is \<open>main\<close> up to where \<open>env_run\<close> hands the thread to
  the scheduler.  Messages to the log and to the terminal are left out.

  The second thread, which \<open>env_run\<close> creates, runs beside it: how many turns it makes before \<open>env_run\<close> takes the
  lock, and between any two steps of the master thread after that, is a parameter.  \<open>pthread_create\<close> succeeds.
\<close>

section \<open>The second thread\<close>

text \<open>Up to \<open>k\<close> turns: the start in \<open>parallel_main\<close>, then turns of \<open>parallel_run\<close>; a thread that has to wait waits.\<close>

fun second_turn :: "world \<times> second \<Rightarrow> (fault + (world \<times> second)) option" where
  "second_turn (w, No_thread) = None"
| "second_turn (w, At_main) = map_option (\<lambda>r. andThen r (\<lambda>w. Inr (w, At_run))) (parallel_main (g_parallelsched w) w)"
| "second_turn (w, At_run) = map_option (\<lambda>r. andThen r (\<lambda>w. Inr (w, At_run))) (parallel_step [] w)"

fun second_turns :: "nat \<Rightarrow> world \<times> second \<Rightarrow> fault + (world \<times> second)" where
  "second_turns 0 s = Inr s"
| "second_turns (Suc k) s = (case second_turn s of None \<Rightarrow> Inr s | Some r \<Rightarrow> andThen r (second_turns k))"

section \<open>The program\<close>

definition bench_turn :: "int \<times> world \<Rightarrow> fault + (int \<times> world)" where
  "bench_turn = (\<lambda>(counter, w).
     let counter = counter + 1 in
     andThen (if counter > 1000 then env_stop w else Inr w) (\<lambda>w.
     andThen (the_current w) (\<lambda>c.
     andThen (coro_yield Master c w) (\<lambda>w. Inr (counter, w)))))"

text \<open>
  \<open>logged\<close> is what \<open>log_init\<close> returns; \<open>malloc_a\<close> and \<open>malloc_b\<close> are the allocator at the two calls; \<open>early\<close> is how
  many turns the second thread makes between \<open>pthread_create\<close> and the lock in \<open>env_run\<close>.  The result \<open>None\<close> means
  that \<open>env_run\<close> waits for the lock, a pair without an exit status that the scheduler has the thread.
\<close>

definition bench_main ::
  "int \<Rightarrow> env_results \<Rightarrow> addr \<Rightarrow> addr \<Rightarrow> (size_t \<Rightarrow> addr) \<Rightarrow> (size_t \<Rightarrow> addr) \<Rightarrow> nat \<Rightarrow> world \<Rightarrow>
   (fault + (int option \<times> world \<times> second)) option" where
  "bench_main logged r rbs func malloc_a malloc_b early w =
     (if logged < 0 then Some (Inr (Some 0, w, No_thread))
      else
        case env_init r rbs w of
          Inl e \<Rightarrow> Some (Inl e)
        | Inr (rs, w) \<Rightarrow>
            if rs \<noteq> 0 then Some (Inr (Some 0, w, No_thread))
            else
              case andThen (coro_spawn malloc_a (g_mastersched w) (User_fn func) NULL 8192 w) (\<lambda>(_, w).
                   andThen (coro_spawn malloc_b (g_mastersched w) (User_fn func) NULL 8192 w) (\<lambda>(_, w).
                   andThen (ASSERT (g_mastersched w \<noteq> NULL \<and> g_parallelsched w \<noteq> NULL)) (\<lambda>_.
                   second_turns early (w, At_main)))) of
                Inl e \<Rightarrow> Some (Inl e)
              | Inr (w, p) \<Rightarrow>
                  map_option (\<lambda>x. andThen x (\<lambda>(rs, w). Inr (map_option (\<lambda>_. 0) rs, w, p))) (env_run 0 w))"

text \<open>
  The scheduler switches to a coroutine, which takes its turn, and is back at its loop.  Before each of the three
  steps the second thread makes some turns.
\<close>

definition bench_round ::
  "nat \<times> nat \<times> nat \<Rightarrow> int \<times> world \<times> second \<Rightarrow> fault + (addr \<times> int \<times> world \<times> second)" where
  "bench_round = (\<lambda>(k1, k2, k3) (n, s).
     andThen (second_turns k1 s) (\<lambda>(w, p).
     andThen (run_step w) (\<lambda>w.
     andThen (second_turns k2 (w, p)) (\<lambda>(w, p).
     andThen (the_current w) (\<lambda>c.
     andThen (bench_turn (n, w)) (\<lambda>(n, w).
     andThen (second_turns k3 (w, p)) (\<lambda>(w, p).
     andThen (run_step w) (\<lambda>w. Inr (c, n, w, p)))))))))"

fun bench_rounds ::
  "(nat \<times> nat \<times> nat) list \<Rightarrow> int \<times> world \<times> second \<Rightarrow> fault + (addr list \<times> int \<times> world \<times> second)" where
  "bench_rounds [] s = Inr ([], s)"
| "bench_rounds (k # ks) s =
     andThen (bench_round k s) (\<lambda>(c, s).
     andThen (bench_rounds ks s) (\<lambda>(cs, s). Inr (c # cs, s)))"

section \<open>Both threads from step to step\<close>

lemma second_turns_rel:
  assumes "threads_rel w p ws ph" "p \<noteq> No_thread"
  shows "\<exists>w' p'. second_turns k (w, p) = Inr (w', p') \<and> p' \<noteq> No_thread \<and> threads_rel w' p' ws ph \<and> same_master w w'"
  using assms
proof (induction k arbitrary: w p)
  case 0
  then show ?case by (simp add: same_master_def)
next
  case (Suc k)
  have "\<exists>w1. second_turn (w, p) = Some (Inr (w1, At_run)) \<and> threads_rel w1 At_run ws ph \<and> same_master w w1"
  proof (cases p)
    case At_main
    with parallel_main_rel [OF Suc.prems(1)] show ?thesis by auto
  next
    case At_run
    with parallel_step_rel [of w ws ph "[]"] Suc.prems(1) show ?thesis by auto
  qed (use Suc.prems in simp)
  then obtain w1 where
    w1: "second_turn (w, p) = Some (Inr (w1, At_run))" "threads_rel w1 At_run ws ph" "same_master w w1" by blast
  from Suc.IH [OF w1(2)] obtain w2 p2 where
    w2: "second_turns k (w1, At_run) = Inr (w2, p2)" "p2 \<noteq> No_thread" "threads_rel w2 p2 ws ph" "same_master w1 w2"
    by auto
  have "same_master w w2" using w1(3) w2(4) by (simp add: same_master_def)
  with w1(1) w2 show ?case by (intro exI [of _ w2] exI [of _ p2]) (simp del: second_turn.simps)
qed

text \<open>The second thread has the lock from its first turn in \<open>parallel_run\<close> on.\<close>

lemma second_turns_lock:
  assumes "threads_rel w At_main ws ph" "second_turns k (w, At_main) = Inr (w', p')"
  shows "g_mutex w' \<longleftrightarrow> 2 \<le> k"
proof -
  have m: "\<not> g_mutex w" using assms(1) by (auto simp: threads_rel_def)
  have kept: "g_mutex v'" if "threads_rel v At_run ws ph" "g_mutex v" "second_turns j (v, At_run) = Inr (v', q)" for v v' q j
    using that
  proof (induction j arbitrary: v)
    case (Suc j)
    from parallel_step_rel [OF Suc.prems(1), of "[]"] obtain v1 where
      "parallel_step [] v = Some (Inr v1)" "g_mutex v1" "threads_rel v1 At_run ws ph" by blast
    with Suc.IH [of v1] Suc.prems(3) show ?case by simp
  qed simp
  from parallel_main_rel [OF assms(1)] obtain w1 where
    w1: "parallel_main (g_parallelsched w) w = Some (Inr w1)" "g_mutex w1 = g_mutex w" "threads_rel w1 At_run ws ph" by auto
  from parallel_step_rel [OF w1(3), of "[]"] obtain w2 where
    w2: "parallel_step [] w1 = Some (Inr w2)" "g_mutex w2" "threads_rel w2 At_run ws ph" by blast
  consider "k = 0" | "k = 1" | j where "k = Suc (Suc j)" by (metis One_nat_def not0_implies_Suc)
  then show ?thesis
  proof cases
    case 3
    with kept [OF w2(3,2), of j] assms(2) w1(1) w2(1) show ?thesis by simp
  qed (use assms(2) m w1(1,2) in auto)
qed

lemma threads_master:
  assumes rel: "threads_rel w p ws ph" and s: "step w w'" and rel': "sched_rel w' ws' ph'"
    and main: "p = No_thread \<Longrightarrow> ph' = Outside False"
  shows "threads_rel w' p ws' ph'"
proof -
  from main main_outside [OF rel'] have "p = No_thread \<Longrightarrow> control w' Master = In_main" by blast
  from master_step_rel [OF rel s this] obtain ws1 ph1 where r: "threads_rel w' p ws1 ph1" by blast
  then have "sched_rel w' ws1 ph1" by (simp add: threads_rel_def)
  from idle_unique [OF this rel'] r rel' main show ?thesis by (simp add: threads_rel_def)
qed

text \<open>The master thread does not touch the event manager.\<close>

lemma touches_no_mgr:
  "touches A w w' \<Longrightarrow> eventmgrs w (g_eventmgr w) = None \<Longrightarrow> eventmgrs w' (g_eventmgr w') = None"
  by (auto simp: touches_def)

lemma same_master_no_mgr:
  "same_master w w' \<Longrightarrow> eventmgrs w (g_eventmgr w) = None \<Longrightarrow> eventmgrs w' (g_eventmgr w') = None"
  by (simp add: same_master_def)

text \<open>What holds throughout: the program waits for its end with an event manager that is null.\<close>

definition bench_at :: "world \<Rightarrow> second \<Rightarrow> addr list \<Rightarrow> phase \<Rightarrow> bool" where
  "bench_at w p ws ph \<longleftrightarrow>
     threads_rel w p ws ph \<and> p \<noteq> No_thread \<and> \<not> stopped w \<and> eventmgrs w (g_eventmgr w) = None"

lemma bench_rel: "bench_at w p ws ph \<Longrightarrow> sched_rel w ws ph"
  by (simp add: bench_at_def threads_rel_def)

lemma bench_second:
  assumes "bench_at w p ws ph"
  shows "\<exists>w' p'. second_turns k (w, p) = Inr (w', p') \<and> bench_at w' p' ws ph"
proof -
  from assms second_turns_rel [of w p ws ph k] obtain w' p' where
    w': "second_turns k (w, p) = Inr (w', p')" "p' \<noteq> No_thread" "threads_rel w' p' ws ph" and same: "same_master w w'"
    by (auto simp: bench_at_def)
  moreover from assms have "\<not> stopped w'" "eventmgrs w' (g_eventmgr w') = None"
    using same_master_stopped [OF same] same_master_no_mgr [OF same] by (simp_all add: bench_at_def)
  ultimately show ?thesis by (simp add: bench_at_def)
qed

text \<open>A step of the master thread that leaves the stop flag alone.\<close>

lemma bench_step:
  assumes "bench_at w p ws ph" "step w w'" "sched_rel w' ws' ph'" "stopped w' = stopped w" "touches A w w'"
  shows "bench_at w' p ws' ph'"
  using assms threads_master [of w p ws ph w' ws' ph'] touches_no_mgr [OF assms(5)] by (simp add: bench_at_def)

lemma bench_dispatch:
  assumes "bench_at w p (c # ws) Loop"
  shows "\<exists>w'. run_step w = Inr w' \<and> the_current w' = Inr c \<and> bench_at w' p ws (Running c)"
proof -
  note rel = bench_rel [OF assms]
  from assms have "\<not> stopped w" by (simp add: bench_at_def)
  from sched_dispatch_refines [OF rel this] obtain w' where
    w': "sched_step w = Some (Inr w')" "sched_rel w' ws (Running c)" "stopped w' = stopped w" by blast
  from sched_step_touch [OF rel w'(1)] have "touches (live (c # ws) Loop \<union> set_option (master_coro w)) w w'" by simp
  from bench_step [OF assms s_sched [OF w'(1)] w'(2,3) this] w'(1) rel_the_current [OF w'(2)] show ?thesis
    by (simp add: run_step_def)
qed

lemma bench_yield:
  assumes "bench_at w p ws (Running c)" "n < 1000"
  shows "\<exists>w'. bench_turn (n, w) = Inr (n + 1, w') \<and> bench_at w' p (ws @ [c]) (Back c False)"
proof -
  note rel = bench_rel [OF assms(1)]
  from coro_yield_refines [OF rel] obtain w' where
    w': "coro_yield Master c w = Inr w'" "sched_rel w' (ws @ [c]) (Back c False)" "stopped w' = stopped w" by blast
  have "running w c" using rel by (auto simp: running_def elim!: sched_relE)
  from bench_step [OF assms(1) s_yield [OF this w'(1)] w'(2,3) coro_yield_touch [OF w'(1)]]
  show ?thesis using assms(2) w'(1) rel_the_current [OF rel] by (simp add: bench_turn_def)
qed

lemma bench_back:
  assumes "bench_at w p ws (Back c False)"
  shows "\<exists>w'. run_step w = Inr w' \<and> bench_at w' p ws Loop"
proof -
  note rel = bench_rel [OF assms]
  from resume_yielded_refines [OF rel] obtain w' where
    w': "sched_step w = Some (Inr w')" "sched_rel w' ws Loop" "stopped w' = stopped w" by blast
  from sched_step_touch [OF rel w'(1)] have
    "touches (live ws (Back c False) \<union> set_option (master_coro w)) w w'" by simp
  from bench_step [OF assms s_sched [OF w'(1)] w'(2,3) this] w'(1) show ?thesis by (simp add: run_step_def)
qed

section \<open>Rounds\<close>

lemma bench_round_ok:
  assumes "bench_at w p (c # ws) Loop" "n < 1000"
  shows "\<exists>w' p'. bench_round k (n, w, p) = Inr (c, n + 1, w', p') \<and> bench_at w' p' (ws @ [c]) Loop"
proof -
  obtain k1 k2 k3 where k: "k = (k1, k2, k3)" by (cases k)
  from bench_second [OF assms(1)] obtain w1 p1 where
    w1: "second_turns k1 (w, p) = Inr (w1, p1)" "bench_at w1 p1 (c # ws) Loop" by blast
  from bench_dispatch [OF w1(2)] obtain w2 where w2: "run_step w1 = Inr w2" "bench_at w2 p1 ws (Running c)" by blast
  from bench_second [OF w2(2)] obtain w3 p3 where
    w3: "second_turns k2 (w2, p1) = Inr (w3, p3)" "bench_at w3 p3 ws (Running c)" by blast
  note cur = rel_the_current [OF bench_rel [OF w3(2)]]
  from bench_yield [OF w3(2) assms(2)] obtain w4 where
    w4: "bench_turn (n, w3) = Inr (n + 1, w4)" "bench_at w4 p3 (ws @ [c]) (Back c False)" by blast
  from bench_second [OF w4(2)] obtain w5 p5 where
    w5: "second_turns k3 (w4, p3) = Inr (w5, p5)" "bench_at w5 p5 (ws @ [c]) (Back c False)" by blast
  from bench_back [OF w5(2)] obtain w6 where w6: "run_step w5 = Inr w6" "bench_at w6 p5 (ws @ [c]) Loop" by blast
  with k w1(1) w2(1) w3(1) cur w4(1) w5(1) show ?thesis by (simp add: bench_round_def)
qed

lemma bench_rounds_ok:
  assumes "bench_at w p ws Loop" "ws \<noteq> []" "n + int (length ks) \<le> 1000"
  shows "\<exists>w' p'. bench_rounds ks (n, w, p)
        = Inr (map (\<lambda>i. ws ! (i mod length ws)) [0..<length ks], n + int (length ks), w', p')
      \<and> bench_at w' p' (rotate (length ks) ws) Loop"
  using assms
proof (induction ks arbitrary: n w p ws)
  case Nil
  then show ?case by simp
next
  case (Cons k ks)
  then obtain c cs where ws: "ws = c # cs" by (cases ws) auto
  from Cons.prems bench_round_ok [of w p c cs n k] obtain w1 p1 where
    w1: "bench_round k (n, w, p) = Inr (c, n + 1, w1, p1)" "bench_at w1 p1 (cs @ [c]) Loop" by (auto simp: ws)
  from Cons.IH [OF w1(2), of "n + 1"] Cons.prems(3) obtain w2 p2 where
    w2: "bench_rounds ks (n + 1, w1, p1)
           = Inr (map (\<lambda>i. (cs @ [c]) ! (i mod length (cs @ [c]))) [0..<length ks], n + 1 + int (length ks), w2, p2)"
      "bench_at w2 p2 (rotate (length ks) (cs @ [c])) Loop" by auto
  with w1(1) turns_Cons [of c cs "length ks"] show ?case
    by (simp add: ws rotate1_rotate_swap ac_simps del: upt_Suc)
qed

text \<open>Past the limit the coroutine that is next in the queue calls \<open>env_stop\<close>.\<close>

lemma bench_round_over:
  assumes "bench_at w p (c # ws) Loop" "1000 \<le> n"
  shows "bench_round k (n, w, p) = Inl Segv"
proof -
  obtain k1 k2 k3 where k: "k = (k1, k2, k3)" by (cases k)
  from bench_second [OF assms(1)] obtain w1 p1 where
    w1: "second_turns k1 (w, p) = Inr (w1, p1)" "bench_at w1 p1 (c # ws) Loop" by blast
  from bench_dispatch [OF w1(2)] obtain w2 where w2: "run_step w1 = Inr w2" "bench_at w2 p1 ws (Running c)" by blast
  from bench_second [OF w2(2)] obtain w3 p3 where
    w3: "second_turns k2 (w2, p1) = Inr (w3, p3)" "bench_at w3 p3 ws (Running c)" by blast
  note rel = bench_rel [OF w3(2)]
  from w3(2) have "eventmgrs w3 (g_eventmgr w3) = None" by (simp add: bench_at_def)
  with rel have "env_stop w3 = Inl Segv" by (auto simp: env_stop_def op_defs elim!: sched_relE)
  with assms(2) k w1(1) w2(1) w3(1) rel_the_current [OF rel] show ?thesis by (simp add: bench_round_def bench_turn_def)
qed

section \<open>The whole run\<close>

text \<open>The blocks that \<open>malloc\<close> gives for the two coroutines are in use nowhere else.\<close>

definition bench_mem :: "env_results \<Rightarrow> addr \<Rightarrow> world \<Rightarrow> addr \<Rightarrow> addr \<Rightarrow> bool" where
  "bench_mem r rbs w a b \<longleftrightarrow>
     distinct [a, b, NULL, e_sched_coro r, e_parallel_coro r, e_back_coro r, e_mgr_coro r]
     \<and> coros w a = None \<and> coros w b = None \<and> {node_of a, node_of b} \<inter> {NULL, rbs} = {}"

text \<open>Before \<open>env_run\<close> has created the second thread.\<close>

definition bench_before :: "world \<Rightarrow> addr list \<Rightarrow> bool" where
  "bench_before w ws \<longleftrightarrow>
     threads_rel w No_thread ws (Outside False) \<and> \<not> stopped w \<and> eventmgrs w (g_eventmgr w) = None"

lemma bench_spawn:
  assumes b: "bench_before w ws" and a: "alloc_ok a w" "malloc (sizeof_coroutine + 8192) = a" "a \<noteq> NULL"
  shows "\<exists>w'. coro_spawn malloc (g_mastersched w) (User_fn func) NULL 8192 w = Inr (M_OK, w')
           \<and> bench_before w' (ws @ [a]) \<and> spawn_frame a w w'"
proof -
  have n: "sizeof_coroutine + 8192 \<noteq> (0 :: size_t)" by (simp add: sizeof_coroutine_def)
  have rel: "sched_rel w ws (Outside False)" using b by (simp add: bench_before_def threads_rel_def)
  from coro_spawn_refines [OF rel _ n, of malloc func NULL] a obtain w' where
    w': "coro_spawn malloc (g_mastersched w) (User_fn func) NULL 8192 w = Inr (M_OK, w')"
      "sched_rel w' (ws @ [a]) (Outside False)" "stopped w' = stopped w" "spawn_frame a w w'" by auto
  have "step w w'" by (rule s_spawn [OF _ _ w'(1)]) (use a main_outside [OF rel] in simp_all)
  with b w' threads_master [of w No_thread ws "Outside False" w'] show ?thesis
    by (simp add: bench_before_def spawn_frame_def)
qed

text \<open>\<open>env_run\<close>, after some turns of the thread that it has created: it waits when that thread has the lock.\<close>

lemma bench_run:
  assumes "bench_before w ws"
  shows "\<exists>w1 p. second_turns early (w, At_main) = Inr (w1, p)
    \<and> (if 2 \<le> early then env_run 0 w1 = None
        else \<exists>w2. env_run 0 w1 = Some (Inr (None, w2)) \<and> bench_at w2 p ws Loop)"
proof -
  from assms have b: "threads_rel w At_main ws (Outside False)"
    "\<not> stopped w" "eventmgrs w (g_eventmgr w) = None" by (auto simp: bench_before_def threads_rel_def)
  then have "bench_at w At_main ws (Outside False)" by (simp add: bench_at_def)
  from bench_second [OF this] obtain w1 p where
    w1: "second_turns early (w, At_main) = Inr (w1, p)" "bench_at w1 p ws (Outside False)" by blast
  note rel = bench_rel [OF w1(2)]
  have g: "g_mutex w1 \<longleftrightarrow> 2 \<le> early" by (rule second_turns_lock [OF b(1) w1(1)])
  have ptr: "g_mastersched w1 \<noteq> NULL" "g_parallelsched w1 \<noteq> NULL"
    using w1(2) by (simp_all add: bench_at_def threads_rel_def)
  show ?thesis
  proof (cases "2 \<le> early")
    case True
    with g ptr have "env_run 0 w1 = None" by (simp add: env_run_blocked)
    with w1(1) True show ?thesis by auto
  next
    case False
    with env_run_refines [OF rel _ ptr] g obtain w2 where
      w2: "env_run 0 w1 = Some (Inr (None, w2))" "sched_rel w2 ws Loop" "stopped w2 = stopped w1" by blast
    have "step w1 w2" by (rule s_start [OF _ _ w2(1)]) (use main_outside [OF rel refl] outside_not_started [OF rel] in simp_all)
    from bench_step [OF w1(2) this w2(2,3) env_run_touch [OF w2(1), where A = "{}"]] w1(1) w2(1) False
    show ?thesis by auto
  qed
qed

lemma bench_start:
  assumes ok: "env_ok r rbs w" "\<not> g_mutex w" "g_eventmgr w = NULL" "eventmgrs w NULL = None" "0 \<le> logged"
    and mem: "bench_mem r rbs w a b"
    and malloc: "malloc_a (sizeof_coroutine + 8192) = a" "malloc_b (sizeof_coroutine + 8192) = b"
  shows "if 2 \<le> early then bench_main logged r rbs func malloc_a malloc_b early w = None
    else \<exists>w' p. bench_main logged r rbs func malloc_a malloc_b early w = Some (Inr (None, w', p))
      \<and> bench_at w' p [a, b] Loop"
proof -
  from env_init_refines [OF ok(1)] obtain w0 where
    w0: "env_init r rbs w = Inr (M_OK, w0)" "g_eventmgr w0 = g_eventmgr w"
      "eventmgrs w0 NULL = eventmgrs w NULL" "env_made r rbs w w0" by blast
  have b0: "bench_before w0 []"
    using env_init_threads [OF ok(1,2) w0(1)] w0(2,3,4) ok(3,4) by (simp add: bench_before_def env_made_def)
  have "alloc_ok a w0" "coros w0 b = None" "a \<noteq> NULL" "b \<noteq> NULL"
    using mem w0(4) by (auto simp: bench_mem_def alloc_ok_def env_made_def fun_upd_apply)
  from bench_spawn [where malloc = malloc_a and func = func, OF b0 this(1) malloc(1) this(3)] obtain w1 where
    w1: "coro_spawn malloc_a (g_mastersched w0) (User_fn func) NULL 8192 w0 = Inr (M_OK, w1)"
      "bench_before w1 [a]" "spawn_frame a w0 w1" by auto
  have "alloc_ok b w1"
    using mem w0(4) w1(3) \<open>coros w0 b = None\<close> by (auto simp: bench_mem_def alloc_ok_def env_made_def spawn_frame_def)
  from bench_spawn [where malloc = malloc_b and func = func, OF w1(2) this malloc(2) \<open>b \<noteq> NULL\<close>] obtain w2 where
    w2: "coro_spawn malloc_b (g_mastersched w1) (User_fn func) NULL 8192 w1 = Inr (M_OK, w2)" "bench_before w2 [a, b]"
    by auto
  from bench_run [OF w2(2), of early] obtain w3 p where
    w3: "second_turns early (w2, At_main) = Inr (w3, p)"
      "if 2 \<le> early then env_run 0 w3 = None
       else \<exists>w4. env_run 0 w3 = Some (Inr (None, w4)) \<and> bench_at w4 p [a, b] Loop" by blast
  have "g_mastersched w2 \<noteq> NULL" "g_parallelsched w2 \<noteq> NULL"
    using w2(2) by (simp_all add: bench_before_def threads_rel_def)
  then have "bench_main logged r rbs func malloc_a malloc_b early w
      = map_option (\<lambda>x. andThen x (\<lambda>(rs, w). Inr (map_option (\<lambda>_. 0) rs, w, p))) (env_run 0 w3)"
    unfolding bench_main_def w0(1) using ok(5) by (simp add: w1(1) w2(1) w3(1) ASSERT_def)
  with w3(2) show ?thesis by (auto split: if_splits)
qed

text \<open>C23: How the benchmark ends.  Whether it starts is decided by the race for the lock: when the thread that
  \<open>env_run\<close> creates has made two turns (its start and one look at the parallel queue) before the master thread
  gets there, \<open>env_run\<close> waits for the lock (which that thread keeps for good, see Two_Threads).  Otherwise, whatever turns the second thread makes
  between any two steps of the master thread from then on, the two coroutines take turns for exactly a thousand
  rounds, and the round after that crashes: \<open>func\<close> calls \<open>env_stop\<close>, which follows the null pointer
  \<open>g_eventmgr\<close>.\<close>

theorem benchmark_crashes:
  assumes "env_ok r rbs w" "\<not> g_mutex w" "g_eventmgr w = NULL" "eventmgrs w NULL = None" "0 \<le> logged"
    and "bench_mem r rbs w a b" "malloc_a (sizeof_coroutine + 8192) = a" "malloc_b (sizeof_coroutine + 8192) = b"
  shows "if 2 \<le> early then bench_main logged r rbs func malloc_a malloc_b early w = None
    else \<exists>w1 p1. bench_main logged r rbs func malloc_a malloc_b early w = Some (Inr (None, w1, p1))
      \<and> (\<forall>ks k. length ks = 1000 \<longrightarrow>
           (\<exists>s. bench_rounds ks (0, w1, p1) = Inr (map (\<lambda>i. if even i then a else b) [0..<1000], 1000, s)
                 \<and> bench_round k (1000, s) = Inl Segv))"
proof -
  have turn: "[a, b] ! (i mod length [a, b]) = (if even i then a else b)" for i
  proof -
    have "i mod length [a, b] = of_bool (odd i)" using mod_2_eq_odd [of i] by (simp add: numeral_2_eq_2)
    then show ?thesis by (cases "even i") simp_all
  qed
  have "\<exists>s. bench_rounds ks (0, w1, p1) = Inr (map (\<lambda>i. if even i then a else b) [0..<1000], 1000, s)
           \<and> bench_round k (1000, s) = Inl Segv"
    if "bench_at w1 p1 [a, b] Loop" and ks: "length ks = 1000" for w1 p1 ks k
  proof -
    have "0 + int (length ks) \<le> 1000" using ks by simp
    from bench_rounds_ok [OF that(1) _ this, unfolded turn ks] obtain w2 p2 where
      w2: "bench_rounds ks (0, w1, p1) = Inr (map (\<lambda>i. if even i then a else b) [0..<1000], 1000, w2, p2)"
        "bench_at w2 p2 (rotate 1000 [a, b]) Loop" by auto
    obtain c cs where "rotate 1000 [a, b] = c # cs" by (cases "rotate 1000 [a, b]") auto
    with w2(2) bench_round_over [of w2 p2 c cs 1000 k] w2(1) show ?thesis by auto
  qed
  with bench_start [where malloc_a = malloc_a and malloc_b = malloc_b and func = func and early = early, OF assms]
  show ?thesis by (auto split: if_splits)
qed

theorem benchmark_crashes_witness:
  "(\<exists>w1 p1. bench_main 0 ex_env 8 7 (\<lambda>_. 0x6000) (\<lambda>_. 0x7000) 1 ex_blank = Some (Inr (None, w1, p1))
     \<and> (\<exists>s. bench_rounds (replicate 1000 (0, 1, 2)) (0, w1, p1)
              = Inr (map (\<lambda>i. if even i then 0x6000 else 0x7000) [0..<1000], 1000, s)
            \<and> bench_round (0, 0, 0) (1000, s) = Inl Segv))
   \<and> bench_main 0 ex_env 8 7 (\<lambda>_. 0x6000) (\<lambda>_. 0x7000) 2 ex_blank = None"
proof -
  have "bench_mem ex_env 8 ex_blank 0x6000 0x7000"
    by (simp add: bench_mem_def ex_env_def ex_blank_def node_of_def Let_def)
  note run = benchmark_crashes [where logged = 0 and malloc_a = "\<lambda>_. 0x6000" and malloc_b = "\<lambda>_. 0x7000" and func = 7,
      OF ex_env_ok _ _ _ _ this]
  have none: "\<not> g_mutex ex_blank" "g_eventmgr ex_blank = NULL" "eventmgrs ex_blank NULL = None"
    by (simp_all add: ex_blank_def)
  have len: "length (replicate 1000 (0, 1, 2) :: (nat \<times> nat \<times> nat) list) = 1000" by simp
  from run [where early = 1] none len show ?thesis using run [where early = 2] none by fastforce
qed

end
