(* ===== verification/Sched_Misuse.thy ===== *)
theory Sched_Misuse
  imports Examples Queue_Checks
begin

text \<open>
  Calls that break the invariant of the scheduler (Sched_Safety): \<open>coro_yield\<close> and \<open>coro_exit\<close> for a coroutine that
  does not run, \<open>coro_ready\<close> for one that is queued already, and \<open>sched_run_once\<close> from a coroutine.
\<close>

section \<open>Calls for another coroutine\<close>

lemma yield_other:
  assumes "sched_rel w ws (Running c)" "d \<in> set ws"
  shows "coro_yield Master d w = Inl Assert_Fail" "coro_exit Master d w = Inl Assert_Fail"
proof -
  obtain S where S: "scheds w (g_mastersched w) = Some S" "current_coro S = c" "c \<notin> set ws"
    "coro_ok w d (expected ws (Running c) d)"
    using assms by (auto elim!: sched_relE)
  from S(4) obtain co where "coros w d = Some co" "sched co = g_mastersched w" "d \<noteq> NULL"
    by (auto simp: coro_ok_def)
  moreover have "d \<noteq> current_coro S" using S(2,3) assms(2) by auto
  ultimately show "coro_yield Master d w = Inl Assert_Fail" "coro_exit Master d w = Inl Assert_Fail"
    using S(1) by (simp_all add: coro_yield_def coro_exit_def is_current_def get_coro_def get_sched_def)
qed

text \<open>\<open>coro_yield\<close> and \<open>coro_exit\<close> for a coroutine that is not the running one stop at their assertion.\<close>

theorem yield_other_aborts:
  assumes "sched_rel w ws (Running c)" "d \<in> set ws"
  shows "coro_yield Master d w = Inl Assert_Fail \<and> coro_exit Master d w = Inl Assert_Fail"
  using yield_other [OF assms] by simp

theorem yield_other_aborts_witness: "coro_yield Master 0x2000 ex_running = Inl Assert_Fail"
  using yield_other_aborts [OF ex_running_rel, of "0x2000"] by simp

section \<open>A coroutine that is made ready again\<close>

text \<open>The loop over a queue up to some place in it.\<close>

lemma foreach_from_prefix:
  "tq_seg (tq_entries m) l xs e \<Longrightarrow>
   tailq_foreach_from (first_of xs e) m = map_option ((@) xs) (tailq_foreach_from e m)"
proof (induction xs arbitrary: l)
  case Nil
  show ?case by (cases "tailq_foreach_from e m") simp_all
next
  case (Cons x xs)
  then have "tailq_foreach_from (first_of xs e) m = map_option ((@) xs) (tailq_foreach_from e m)" by auto
  with Cons.prems show ?case
    by (cases "tailq_foreach_from e m")
      (simp_all add: tailq_foreach_from.simps [of x m] TAILQ_NEXT_def get_entry_def)
qed

text \<open>The loop over an element that links to itself does not end.\<close>

lemma foreach_from_self:
  assumes "tq_entries m c = Some e" "tqe_next e = c" "c \<noteq> NULL"
  shows "tailq_foreach_from c m = None"
proof (rule ccontr)
  assume "tailq_foreach_from c m \<noteq> None"
  then obtain xs where xs: "tailq_foreach_from c m = Some xs" by blast
  have "tailq_foreach_from c m = Option.bind (tailq_foreach_from c m) (\<lambda>ys. Some (c # ys))"
    using assms by (subst tailq_foreach_from.simps) (simp add: TAILQ_NEXT_def get_entry_def)
  with xs show False by simp
qed

lemma insert_queued:
  assumes q: "is_tailq m h (as @ c # bs)"
  shows "\<exists>m'. insert_tail h c m = Some m' \<and> TAILQ_FOREACH h m' = (if bs = [] then None else Some (as @ [c]))"
proof -
  have c: "c \<noteq> NULL" "c \<notin> set as" "c \<notin> set bs" and dist: "set as \<inter> set bs = {}"
    and seg: "tq_seg (tq_entries m) (Link_First h) as c"
    and hd: "tq_heads m h = Some \<lparr>tqh_first = first_of as c, tqh_last = last_link (Link_Next c) bs\<rparr>"
    using q by (auto simp: is_tailq_def)
  obtain e where e: "tq_entries m c = Some e" using q by (auto simp: is_tailq_def)
  show ?thesis
  proof (cases bs rule: rev_cases)
    case Nil
    let ?m = "m\<lparr>tq_entries := (tq_entries m)(c \<mapsto> \<lparr>tqe_next = c, tqe_prev = Link_Next c\<rparr>),
        tq_heads := (tq_heads m)(h \<mapsto> \<lparr>tqh_first = first_of as c, tqh_last = Link_Next c\<rparr>)\<rparr>"
    have "insert_tail h c m = Some ?m"
      using e hd Nil by (cases e) (simp add: insert_tail_def TAILQ_INSERT_TAIL_def tq_access)
    moreover have "TAILQ_FOREACH h ?m = None"
      using foreach_from_prefix [of ?m "Link_First h" as c] seg c(1,2) foreach_from_self [of ?m c]
      by (simp add: TAILQ_FOREACH_def TAILQ_FIRST_def get_head_def)
    ultimately show ?thesis using Nil by simp
  next
    case (snoc ds d)
    have d: "d \<noteq> c" "d \<notin> set as" using snoc c(3) dist by auto
    obtain f where f: "tq_entries m d = Some f" using q snoc by (auto simp: is_tailq_def)
    let ?m = "m\<lparr>tq_entries := (tq_entries m)(c \<mapsto> \<lparr>tqe_next = NULL, tqe_prev = Link_Next d\<rparr>, d \<mapsto> f\<lparr>tqe_next := c\<rparr>),
        tq_heads := (tq_heads m)(h \<mapsto> \<lparr>tqh_first = first_of as c, tqh_last = Link_Next c\<rparr>)\<rparr>"
    have "insert_tail h c m = Some ?m"
      using e f hd d snoc by (cases e) (simp add: insert_tail_def TAILQ_INSERT_TAIL_def tq_access)
    moreover have "tailq_foreach_from c ?m = Some [c]"
      using c(1) d by (simp add: foreach_from_Cons foreach_from_Nil get_entry_def)
    then have "TAILQ_FOREACH h ?m = Some (as @ [c])"
      using foreach_from_prefix [of ?m "Link_First h" as c] seg c(2) d
      by (simp add: TAILQ_FOREACH_def TAILQ_FIRST_def get_head_def)
    ultimately show ?thesis using snoc by simp
  qed
qed

text \<open>The queue that results when the only element is inserted again.\<close>

definition self_queue :: "tqmem \<Rightarrow> addr \<Rightarrow> addr \<Rightarrow> bool" where
  "self_queue m q c \<longleftrightarrow>
     c \<noteq> NULL \<and> tq_heads m q = Some \<lparr>tqh_first = c, tqh_last = Link_Next c\<rparr>
     \<and> tq_entries m c = Some \<lparr>tqe_next = c, tqe_prev = Link_Next c\<rparr>"

lemma insert_again:
  assumes "is_tailq m q [c]"
  shows "\<exists>m'. insert_tail q c m = Some m' \<and> self_queue m' q c"
  using assms
  by (auto simp: is_tailq_def insert_tail_def TAILQ_INSERT_TAIL_def self_queue_def mem_simps set_entry_def
      set_head_def link_set_def get_head_def get_entry_def fun_upd_apply)

lemma self_queue_pop:
  assumes "self_queue m q c"
  shows "\<exists>m'. pop q m = Some (c, m') \<and> pop q m' = None"
  using assms
  by (auto simp: self_queue_def pop_def TAILQ_FIRST_def TAILQ_REMOVE_def get_head_def get_entry_def
      set_entry_def set_head_def link_set_def fun_upd_apply)

lemma coro_ready_twice:
  assumes "sched_rel w [] (Running c)"
  shows "\<exists>w1 w2. coro_ready c w = Inr w1 \<and> coro_ready c w1 = Inr w2
            \<and> self_queue (tq w2) (wait_q (g_mastersched w2)) c"
proof -
  obtain S sco items co p where
    r: "scheds w (g_mastersched w) = Some S"
      "is_tailq (tq w) (wait_q (g_mastersched w)) []" "coros w c = Some co" "sched co = g_mastersched w"
      "status co = M_RUN" "is_entry (tq w) c"
    using assms by (rule running_facts)
  from wq.put_tail [OF r(2,6)] obtain m1 where
    m1: "insert_tail (wait_q (g_mastersched w)) c (tq w) = Some m1"
      "is_tailq m1 (wait_q (g_mastersched w)) [c]" by auto
  from insert_again [OF m1(2)] obtain m2 where
    m2: "insert_tail (wait_q (g_mastersched w)) c m1 = Some m2"
      "self_queue m2 (wait_q (g_mastersched w)) c" by blast
  show ?thesis using r m1(1) m2 by (simp add: coro_ready_def op_defs)
qed

text \<open>The running coroutine makes itself ready twice while no other is ready: it links to itself, the first \<open>pop\<close>
  returns it and leaves the queue broken, the next one follows a null pointer.\<close>

theorem ready_twice_breaks_queue:
  assumes "sched_rel w [] (Running c)"
  shows "\<exists>w1 w2 m. coro_ready c w = Inr w1 \<and> coro_ready c w1 = Inr w2
            \<and> pop (wait_q (g_mastersched w2)) (tq w2) = Some (c, m) \<and> pop (wait_q (g_mastersched w2)) m = None"
  using coro_ready_twice [OF assms] self_queue_pop by blast

theorem ready_twice_breaks_queue_witness:
  "\<exists>w w1 w2 m. sched_rel w [] (Running 0x2000) \<and> coro_ready 0x2000 w = Inr w1 \<and> coro_ready 0x2000 w1 = Inr w2
     \<and> pop (wait_q (g_mastersched w2)) m = None"
proof -
  from ex_alone obtain w where "sched_rel w [] (Running 0x2000)" by blast
  with ready_twice_breaks_queue [OF this] show ?thesis by blast
qed

text \<open>C27: A coroutine that is in the queue and is made ready again breaks the queue: \<open>coro_ready\<close> returns, but when
  others stood behind it they are cut off, and a loop over the queue now ends with it; when it was the last one it
  links to itself, and a loop over the queue does not end.  When it was the only one the next \<open>pop\<close> returns it and
  the one after that follows a null pointer.\<close>

theorem ready_again_breaks_queue:
  assumes "sched_rel w (as @ c # bs) ph"
  shows "\<exists>w'. coro_ready c w = Inr w'
    \<and> TAILQ_FOREACH (wait_q (g_mastersched w)) (tq w') = (if bs = [] then None else Some (as @ [c]))
    \<and> (as = [] \<and> bs = [] \<longrightarrow> (\<exists>m. pop (wait_q (g_mastersched w)) (tq w') = Some (c, m)
         \<and> pop (wait_q (g_mastersched w)) m = None))"
proof -
  note q = rel_queue(1) [OF assms]
  from insert_queued [OF q] obtain m where
    m: "insert_tail (wait_q (g_mastersched w)) c (tq w) = Some m"
      "TAILQ_FOREACH (wait_q (g_mastersched w)) m = (if bs = [] then None else Some (as @ [c]))" by blast
  have "c \<in> live (as @ c # bs) ph" using ready_live [of "as @ c # bs" ph] by auto
  with assms have "coro_ok w c (expected (as @ c # bs) ph c)" by (blast elim!: sched_relE)
  then obtain co where co: "coros w c = Some co" "status co = M_READY" "sched co = g_mastersched w"
    by (auto simp: coro_ok_def expected_def)
  obtain S where "scheds w (g_mastersched w) = Some S" using assms by (auto elim!: sched_relE)
  with co m(1) have "coro_ready c w = Inr (w\<lparr>coros := (coros w)(c \<mapsto> co\<lparr>status := M_READY\<rparr>), tq := m\<rparr>)"
    by (simp add: coro_ready_def op_defs)
  moreover have "\<exists>m'. pop (wait_q (g_mastersched w)) m = Some (c, m') \<and> pop (wait_q (g_mastersched w)) m' = None"
    if "as = []" "bs = []"
    using insert_again [of "tq w" _ c] q m(1) that self_queue_pop by fastforce
  ultimately show ?thesis
    using m(2) by (intro exI [of _ "w\<lparr>coros := (coros w)(c \<mapsto> co\<lparr>status := M_READY\<rparr>), tq := m\<rparr>"]) simp
qed

theorem ready_again_breaks_queue_witness:
  "\<exists>w1 w2. coro_ready 0x2000 ex_loop = Inr w1 \<and> TAILQ_FOREACH 0x120 (tq w1) = Some [0x2000]
     \<and> coro_ready 0x3000 ex_loop = Inr w2 \<and> TAILQ_FOREACH 0x120 (tq w2) = None"
proof -
  have "sched_rel ex_loop ([] @ 0x2000 # [0x3000]) Loop" "sched_rel ex_loop ([0x2000] @ 0x3000 # []) Loop"
    using ex_loop_rel by simp_all
  from ready_again_breaks_queue [OF this(1)] ready_again_breaks_queue [OF this(2)] show ?thesis
    by (auto simp: ex_loop_def)
qed

section \<open>A coroutine that runs another one\<close>



end
