(* ===== verification/Rbtree_Bounds.thy ===== *)
theory Rbtree_Bounds
  imports Registry
begin

text \<open>
  How often the loops of src/cs_rbtree.c turn.  \<open>loop_within n turn s\<close> runs a loop whose turn is \<open>turn\<close> at most
  \<open>n\<close> times and gives \<open>None\<close> when it has not ended then (or when a turn faults); the functions with the suffix
  \<open>_within\<close> are those of Rbtree with every loop limited so.  On a tree with \<open>k\<close> nodes \<open>2 * log2 (k + 1) + 2\<close> turns are
  enough for every loop: the limited functions give the result of the unlimited ones.
\<close>

section \<open>Loops with a limit\<close>

fun loop_within :: "nat \<Rightarrow> ('s \<Rightarrow> ('s + 'r) option) \<Rightarrow> 's \<Rightarrow> 'r option" where
  "loop_within 0 turn s = None"
| "loop_within (Suc n) turn s =
     Option.bind (turn s) (\<lambda>x. case x of Inl s' \<Rightarrow> loop_within n turn s' | Inr r \<Rightarrow> Some r)"

lemma loop_within_mono: "loop_within n turn s = Some r \<Longrightarrow> n \<le> m \<Longrightarrow> loop_within m turn s = Some r"
proof (induction n arbitrary: s m)
  case (Suc n)
  then obtain m' where "m = Suc m'" "n \<le> m'" by (cases m) auto
  with Suc show ?case by (auto simp: bind_eq_Some_conv split: sum.splits)
qed simp

text \<open>A function that is that loop has the result of the limited loop, when that has one.\<close>

lemma loop_within_sound:
  assumes "\<And>s. f s = Option.bind (turn s) (\<lambda>x. case x of Inl s' \<Rightarrow> f s' | Inr r \<Rightarrow> Some r)"
  shows "loop_within n turn s = Some r \<Longrightarrow> f s = Some r"
proof (induction n arbitrary: s)
  case (Suc n)
  then show ?case by (subst assms) (auto simp: bind_eq_Some_conv split: sum.splits)
qed simp

section \<open>The turns of the loops\<close>

definition lookup_turn :: "64 word \<Rightarrow> rbtree \<Rightarrow> addr \<Rightarrow> (addr + addr) option" where
  "lookup_turn k t node =
     (if node = NULL then Some (Inr NULL)
      else do {
        nk \<leftarrow> rd key node t;
        (if nk = k then Some (Inr node)
         else if sint k < sint nk then map_option Inl (rd left node t)
         else map_option Inl (rd right node t))
      })"

definition min_turn :: "addr \<Rightarrow> rbtree \<Rightarrow> addr \<Rightarrow> (addr + addr) option" where
  "min_turn s t node = do {
     l \<leftarrow> rd left node t;
     Some (if l \<noteq> s then Inl l else Inr node)
   }"

definition find_turn :: "addr \<Rightarrow> rbtree \<Rightarrow> addr \<Rightarrow> (addr + (addr \<times> bool)) option" where
  "find_turn node t temp = do {
     nk \<leftarrow> rd key node t;
     tk \<leftarrow> rd key temp t;
     let is_left = sint nk < sint tk;
     p \<leftarrow> (if is_left then rd left temp t else rd right temp t);
     Some (if p = sentinel t then Inr (temp, is_left) else Inl p)
   }"

definition insert_turn :: "addr \<times> rbtree \<Rightarrow> ((addr \<times> rbtree) + rbtree) option" where
  "insert_turn = (\<lambda>(node, t). do {
     b \<leftarrow> rbtree_insert_guard node t;
     (if b then map_option Inl (rbtree_insert_step node t) else Some (Inr t))
   })"

definition delete_turn :: "addr \<times> rbtree \<Rightarrow> ((addr \<times> rbtree) + (addr \<times> rbtree)) option" where
  "delete_turn = (\<lambda>(temp, t). do {
     b \<leftarrow> rbtree_delete_guard temp t;
     (if b then map_option Inl (rbtree_delete_step temp t) else Some (Inr (temp, t)))
   })"

lemma lookup_sound: "loop_within n (lookup_turn k t) node = Some r \<Longrightarrow> rbtree_lookup_from node k t = Some r"
proof (rule loop_within_sound [where f = "\<lambda>node. rbtree_lookup_from node k t"])
  show "rbtree_lookup_from s k t = Option.bind (lookup_turn k t s)
      (\<lambda>x. case x of Inl s' \<Rightarrow> rbtree_lookup_from s' k t | Inr r \<Rightarrow> Some r)" for s
    by (subst rbtree_lookup_from.simps) (simp add: lookup_turn_def Option.bind_map_option comp_def split: bind_splits)
qed

lemma min_sound: "loop_within n (min_turn s t) node = Some r \<Longrightarrow> rbtree_node_min node s t = Some r"
proof (rule loop_within_sound [where f = "\<lambda>node. rbtree_node_min node s t"])
  show "rbtree_node_min a s t = Option.bind (min_turn s t a)
      (\<lambda>x. case x of Inl a' \<Rightarrow> rbtree_node_min a' s t | Inr r \<Rightarrow> Some r)" for a
    by (subst rbtree_node_min.simps) (simp add: min_turn_def split: bind_splits)
qed

lemma find_sound: "loop_within n (find_turn node t) temp = Some r \<Longrightarrow> rbtree_insert_find node temp t = Some r"
proof (rule loop_within_sound [where f = "\<lambda>temp. rbtree_insert_find node temp t"])
  show "rbtree_insert_find node a t = Option.bind (find_turn node t a)
      (\<lambda>x. case x of Inl a' \<Rightarrow> rbtree_insert_find node a' t | Inr r \<Rightarrow> Some r)" for a
    by (subst rbtree_insert_find.simps) (simp add: find_turn_def Let_def split: bind_splits)
qed

lemma insert_sound: "loop_within n insert_turn s = Some r \<Longrightarrow> rbtree_insert_fixup (fst s) (snd s) = Some r"
proof (rule loop_within_sound [where f = "\<lambda>s. rbtree_insert_fixup (fst s) (snd s)"])
  show "rbtree_insert_fixup (fst s) (snd s) = Option.bind (insert_turn s)
      (\<lambda>x. case x of Inl s' \<Rightarrow> rbtree_insert_fixup (fst s') (snd s') | Inr r \<Rightarrow> Some r)" for s
    by (subst rbtree_insert_fixup.simps)
      (simp add: insert_turn_def case_prod_beta Option.bind_map_option comp_def split: bind_splits)
qed

lemma delete_sound: "loop_within n delete_turn s = Some r \<Longrightarrow> rbtree_delete_fixup (fst s) (snd s) = Some r"
proof (rule loop_within_sound [where f = "\<lambda>s. rbtree_delete_fixup (fst s) (snd s)"])
  show "rbtree_delete_fixup (fst s) (snd s) = Option.bind (delete_turn s)
      (\<lambda>x. case x of Inl s' \<Rightarrow> rbtree_delete_fixup (fst s') (snd s') | Inr r \<Rightarrow> Some r)" for s
    by (subst rbtree_delete_fixup.simps)
      (simp add: delete_turn_def case_prod_beta Option.bind_map_option comp_def split: bind_splits)
qed

section \<open>Every loop goes down or up one path\<close>

lemma height_plug: "length C + rb_height T \<le> rb_height (plug T C)"
proof (induction T C rule: plug.induct)
  case (2 T x c r C)
  then show ?case by simp
next
  case (3 T l x c C)
  then show ?case by simp
qed simp

lemma loop_within_more: "loop_within n turn s \<noteq> None \<Longrightarrow> n \<le> m \<Longrightarrow> loop_within m turn s \<noteq> None"
  using loop_within_mono [of n turn s _ m] by auto

lemma lookup_bound:
  assumes "rb_repr t sp p0 (plug T C)"
  shows "loop_within (Suc (Suc (rb_height T))) (lookup_turn k t) (ptr (sentinel t) T) \<noteq> None"
  using assms
proof (induction T arbitrary: C)
  case Leaf
  have "sentinel t \<noteq> NULL" using Leaf by (simp add: rb_repr_def)
  with rd_sentinel [OF Leaf] show ?case by (auto simp: lookup_turn_def)
next
  case (Node l x c r)
  let ?h = "Suc (Suc (max (rb_height l) (rb_height r)))"
  have "i_addr x \<noteq> NULL" using Node.prems by (auto simp: rb_repr_def set_addrs_plug)
  then have turn: "lookup_turn k t (i_addr x) = Some (if i_key x = k then Inr (i_addr x)
      else Inl (ptr (sentinel t) (if sint k < sint (i_key x) then l else r)))"
    using rd_at(1,2,4) [OF Node.prems] by (simp add: lookup_turn_def)
  have "loop_within ?h (lookup_turn k t) (ptr (sentinel t) l) \<noteq> None"
    by (rule loop_within_more [OF Node.IH(1) [of "FL x c r # C"]]) (use Node.prems in simp_all)
  moreover have "loop_within ?h (lookup_turn k t) (ptr (sentinel t) r) \<noteq> None"
    by (rule loop_within_more [OF Node.IH(2) [of "FR l x c # C"]]) (use Node.prems in simp_all)
  ultimately show ?case
    unfolding rb_height.simps ptr.simps loop_within.simps(2) [of ?h] turn by (simp del: loop_within.simps)
qed

lemma ptr_leaf:
  "rb_repr t sp p0 (plug (Node l x c r) C) \<Longrightarrow> ptr (sentinel t) l = sentinel t \<longleftrightarrow> l = Leaf"
  "rb_repr t sp p0 (plug (Node l x c r) C) \<Longrightarrow> ptr (sentinel t) r = sentinel t \<longleftrightarrow> r = Leaf"
  by (cases l; auto simp: rb_unfold) (cases r; auto simp: rb_unfold)

lemma min_bound:
  assumes "rb_repr t sp p0 (plug T C)" "T \<noteq> Leaf"
  shows "loop_within (rb_height T) (min_turn (sentinel t) t) (ptr (sentinel t) T) \<noteq> None"
  using assms
proof (induction T arbitrary: C)
  case (Node l x c r)
  let ?h = "max (rb_height l) (rb_height r)"
  have turn: "min_turn (sentinel t) t (i_addr x)
      = Some (if l \<noteq> Leaf then Inl (ptr (sentinel t) l) else Inr (i_addr x))"
    using rd_at(1) [OF Node.prems(1)] ptr_leaf(1) [OF Node.prems(1)] by (simp add: min_turn_def)
  have "loop_within ?h (min_turn (sentinel t) t) (ptr (sentinel t) l) \<noteq> None" if "l \<noteq> Leaf"
    by (rule loop_within_more [OF Node.IH(1) [of "FL x c r # C"]]) (use Node.prems that in simp_all)
  then show ?case
    unfolding rb_height.simps ptr.simps loop_within.simps(2) [of ?h] turn by (simp del: loop_within.simps)
qed simp

lemma find_bound:
  assumes "rb_repr t sp p0 (plug T C)" "T \<noteq> Leaf" "rd key node t = Some k"
  shows "loop_within (rb_height T) (find_turn node t) (ptr (sentinel t) T) \<noteq> None"
  using assms
proof (induction T arbitrary: C)
  case (Node l x c r)
  let ?h = "max (rb_height l) (rb_height r)"
  let ?s = "if sint k < sint (i_key x) then l else r"
  have turn: "find_turn node t (i_addr x)
      = Some (if ?s \<noteq> Leaf then Inl (ptr (sentinel t) ?s) else Inr (i_addr x, sint k < sint (i_key x)))"
    using rd_at(1,2,4) [OF Node.prems(1)] ptr_leaf [OF Node.prems(1)] Node.prems(3) by (auto simp: find_turn_def)
  have "loop_within ?h (find_turn node t) (ptr (sentinel t) l) \<noteq> None" if "l \<noteq> Leaf"
    by (rule loop_within_more [OF Node.IH(1) [of "FL x c r # C"]]) (use Node.prems that in simp_all)
  moreover have "loop_within ?h (find_turn node t) (ptr (sentinel t) r) \<noteq> None" if "r \<noteq> Leaf"
    by (rule loop_within_more [OF Node.IH(2) [of "FR l x c # C"]]) (use Node.prems that in simp_all)
  ultimately show ?case
    unfolding rb_height.simps ptr.simps loop_within.simps(2) [of ?h] turn by (simp del: loop_within.simps)
qed simp

lemma insert_bound:
  assumes "rb_repr t sp p0 (plug T C)" "T \<noteq> Leaf" "root_black C"
  shows "loop_within (Suc (length C)) insert_turn (ptr (sentinel t) T, t) \<noteq> None"
  using assms
proof (induction "length C" arbitrary: T C t rule: less_induct)
  case less
  obtain l x c r where T: "T = Node l x c r" using less.prems(2) by (cases T) auto
  have guard: "rbtree_insert_guard (i_addr x) t = Some (case C of [] \<Rightarrow> False | f # _ \<Rightarrow> fcol f)"
    using insert_guard_at less.prems(1) T by blast
  show ?case
  proof (cases "\<exists>f1 f2 C'. C = f1 # f2 # C' \<and> fcol f1")
    case True
    then obtain f1 f2 C' where C: "C = f1 # f2 # C'" "fcol f1" by blast
    obtain T' D where st: "ins_step T f1 f2 C' = (T', D)" by fastforce
    from insert_step_repr [of t sp p0 l x c r f1 f2 C'] less.prems(1) T C st obtain t' where
      t': "rbtree_insert_step (i_addr x) t = Some (ptr (sentinel t) T', t')"
        "rb_repr t' sp p0 (plug T' D)" "sentinel t' = sentinel t" by auto
    have D: "T' \<noteq> Leaf" "root_black D" "length D < length C"
      using ins_step_node [of T f1 f2 C'] ins_step_root_black [of T f1 f2 C'] ins_step_length [of T f1 f2 C']
        less.prems C st by auto
    from less.hyps [OF D(3) t'(2) D(1,2)] have "loop_within (Suc (length D)) insert_turn (ptr (sentinel t) T', t') \<noteq> None"
      using t'(3) by simp
    then have "loop_within (length C) insert_turn (ptr (sentinel t) T', t') \<noteq> None"
      by (rule loop_within_more) (use D(3) in simp)
    then show ?thesis
      using guard t'(1) C unfolding loop_within.simps(2) [of "length C"] T
      by (simp add: insert_turn_def del: loop_within.simps)
  next
    case False
    with less.prems(3) have "(case C of [] \<Rightarrow> False | f # _ \<Rightarrow> fcol f) = False"
      by (cases C; cases "tl C") (auto simp: root_black_def)
    with guard T show ?thesis by (simp add: insert_turn_def)
  qed
qed

definition del_turns :: "rbt \<Rightarrow> frame list \<Rightarrow> nat" where
  "del_turns T C = (if is_red T then 0 else length C)"

lemma del_base_turns: "\<not> is_red T \<Longrightarrow> del_turns (fst (del_base T f C)) (snd (del_base T f C)) \<le> length C"
  using del_base_size [of T f C] by (auto simp: del_turns_def)

lemma del_step_turns:
  assumes "\<not> is_red T"
  shows "del_turns (fst (del_step T f C)) (snd (del_step T f C)) < del_turns T (f # C)"
proof (cases "(T, f, C)" rule: del_step.cases)
  case (1 T' p cp wa x wb C')
  then show ?thesis using del_base_size [of T "FL p True wa" "FL x False wb # C"] assms
    by (auto simp: del_turns_def)
next
  case (2 T' wa x wb p cp C')
  then show ?thesis using del_base_size [of T "FR wb p True" "FR wa x False # C"] assms
    by (auto simp: del_turns_def)
qed (use del_base_turns [OF assms, of f C] assms in \<open>auto simp: del_turns_def\<close>)

lemma delete_bound:
  assumes "rb_at t p0 T C" "del_ok T C"
  shows "loop_within (Suc (del_turns T C)) delete_turn (ptr (sentinel t) T, t) \<noteq> None"
  using assms
proof (induction "del_turns T C" arbitrary: T C t rule: less_induct)
  case less
  from less.prems(1) obtain sp where r: "rb_repr t sp p0 (plug T C)" by (auto simp: rb_at_def)
  have g: "rbtree_delete_guard (ptr (sentinel t) T) t = Some (C \<noteq> [] \<and> \<not> is_red T)"
    using root_iff_at [OF r] is_black_at [OF r] by (auto simp: rbtree_delete_guard_def)
  show ?case
  proof (cases "C \<noteq> [] \<and> \<not> is_red T")
    case False
    with g show ?thesis by (auto simp: delete_turn_def)
  next
    case True
    then obtain f C' where C: "C = f # C'" by (cases C) auto
    with less.prems True have st: "rb_at t p0 T (f # C')" "del_state T (f # C')" by (auto simp: del_ok_def)
    obtain T' D where d: "del_step T f C' = (T', D)" by fastforce
    from delete_step_repr [OF st] d obtain t' where
      t': "rbtree_delete_step (ptr (sentinel t) T) t = Some (ptr (sentinel t) T', t')"
        "rb_at t' p0 T' D" "sentinel t' = sentinel t" by auto
    have D: "del_ok T' D" "del_turns T' D < del_turns T C"
      using del_step_ok [OF st(2)] del_step_turns [of T f C'] True d C by auto
    from less.hyps [OF D(2) t'(2) D(1)] t'(3)
    have "loop_within (Suc (del_turns T' D)) delete_turn (ptr (sentinel t) T', t') \<noteq> None" by simp
    then have "loop_within (del_turns T C) delete_turn (ptr (sentinel t) T', t') \<noteq> None"
      by (rule loop_within_more) (use D(2) in simp)
    then show ?thesis
      using g t'(1) True unfolding loop_within.simps(2) [of "del_turns T C"]
      by (simp add: delete_turn_def del: loop_within.simps)
  qed
qed

section \<open>The functions with their loops limited\<close>

definition rbtree_lookup_within :: "nat \<Rightarrow> rbtree \<Rightarrow> 64 word \<Rightarrow> addr option" where
  "rbtree_lookup_within n t k = loop_within n (lookup_turn k t) (root t)"

definition rbtree_min_within :: "nat \<Rightarrow> rbtree \<Rightarrow> addr option" where
  "rbtree_min_within n t =
     (if root t = sentinel t then Some NULL else loop_within n (min_turn (sentinel t) t) (root t))"

definition rbtree_insert_within :: "nat \<Rightarrow> addr \<Rightarrow> rbtree \<Rightarrow> rbtree option" where
  "rbtree_insert_within n node t =
     (if root t = sentinel t then do {
        t \<leftarrow> wr node (\<lambda>n. n\<lparr>parent := NULL, left := sentinel t, right := sentinel t\<rparr>) t;
        t \<leftarrow> rbtree_black node t;
        Some (t\<lparr>root := node\<rparr>)
      } else do {
        (temp, is_left) \<leftarrow> loop_within n (find_turn node t) (root t);
        t \<leftarrow> (if is_left then wr temp (left_update (\<lambda>_. node)) t
              else wr temp (right_update (\<lambda>_. node)) t);
        t \<leftarrow> wr node (\<lambda>n. n\<lparr>parent := temp, left := sentinel t, right := sentinel t\<rparr>) t;
        t \<leftarrow> rbtree_red node t;
        t \<leftarrow> loop_within n insert_turn (node, t);
        rbtree_black (root t) t
      })"

definition rbtree_delete_pick_within :: "nat \<Rightarrow> addr \<Rightarrow> rbtree \<Rightarrow> (addr \<times> addr) option" where
  "rbtree_delete_pick_within n node t = do {
     nl \<leftarrow> rd left node t;
     nr \<leftarrow> rd right node t;
     (if nl = sentinel t then Some (nr, node)
      else if nr = sentinel t then Some (nl, node)
      else do {
        subst \<leftarrow> loop_within n (min_turn (sentinel t) t) nr;
        sl \<leftarrow> rd left subst t;
        temp \<leftarrow> (if sl \<noteq> sentinel t then Some sl else rd right subst t);
        Some (temp, subst)
      })
   }"

definition rbtree_delete_within :: "nat \<Rightarrow> addr \<Rightarrow> rbtree \<Rightarrow> rbtree option" where
  "rbtree_delete_within n node t = do {
     (temp, subst) \<leftarrow> rbtree_delete_pick_within n node t;
     (if subst = root t then do {
        t \<leftarrow> Some (t\<lparr>root := temp\<rparr>);
        t \<leftarrow> rbtree_black temp t;
        rbtree_node_init node t
      } else do {
        red \<leftarrow> rbtree_is_red subst t;
        t \<leftarrow> rbtree_delete_splice node temp subst t;
        t \<leftarrow> rbtree_node_init node t;
        (if red then Some t
         else do {
           (temp, t) \<leftarrow> loop_within n delete_turn (temp, t);
           rbtree_black temp t
         })
      })
   }"

section \<open>The limit is enough\<close>

lemma lookup_within:
  assumes "rb_repr t sp p0 T" "rb_height T + 2 \<le> n"
  shows "rbtree_lookup_within n t k = rbtree_lookup t k"
proof -
  have "loop_within n (lookup_turn k t) (root t) \<noteq> None"
    by (rule loop_within_more [OF lookup_bound [of t sp p0 T "[]", unfolded plug.simps, OF assms(1),
            folded root_at [OF assms(1)]]]) (use assms(2) in simp)
  with lookup_sound show ?thesis by (auto simp: rbtree_lookup_within_def rbtree_lookup_def)
qed

lemma min_within:
  assumes "rb_repr t sp p0 T" "rb_height T \<le> n"
  shows "rbtree_min_within n t = rbtree_min t"
proof (cases "T = Leaf")
  case True
  with root_at [OF assms(1)] show ?thesis by (simp add: rbtree_min_within_def rbtree_min_def)
next
  case False
  have "loop_within n (min_turn (sentinel t) t) (root t) \<noteq> None"
    by (rule loop_within_more [OF min_bound [of t sp p0 T "[]", unfolded plug.simps, OF assms(1) False,
            folded root_at [OF assms(1)]] assms(2)])
  with min_sound show ?thesis by (auto simp: rbtree_min_within_def rbtree_min_def)
qed

lemma insert_within:
  assumes r: "rb_repr t sp p0 T" and fresh: "fresh_node t a T" and black: "\<not> is_red T"
    and n: "rb_height T + 2 \<le> n"
  shows "rbtree_insert_within n a t = rbtree_insert a t"
proof (cases "T = Leaf")
  case True
  then show ?thesis using root_at [OF r] by (simp add: rbtree_insert_within_def rbtree_insert_def)
next
  case False
  obtain k where k: "rd key a t = Some k" using fresh by (auto simp: fresh_node_def rd_def)
  have rT: "rb_repr t sp p0 (plug T [])" using r by simp
  from insert_find_repr [OF rT False k] obtain f D where
    fD: "desc k T [] = f # D" "rbtree_insert_find a (root t) t
           = Some (case f of FL x c r \<Rightarrow> (i_addr x, True) | FR l x c \<Rightarrow> (i_addr x, False))"
    using root_at [OF r] by auto
  have "loop_within n (find_turn a t) (root t) \<noteq> None"
    by (rule loop_within_more [OF find_bound [OF rT False k, folded root_at [OF r]]]) (use n in simp)
  with find_sound have find: "loop_within n (find_turn a t) (root t) = rbtree_insert_find a (root t) t" by fastforce
  have pl: "plug Leaf (f # D) = T" using plug_desc [of k T "[]"] fD(1) by simp
  from insert_link_repr [of t sp p0 f D a] r fresh pl obtain t1 t2 t3 where
    l: "(case f of FL x c r \<Rightarrow> wr (i_addr x) (left_update (\<lambda>_. a)) t
                 | FR l x c \<Rightarrow> wr (i_addr x) (right_update (\<lambda>_. a)) t) = Some t1"
      "wr a (\<lambda>n. n\<lparr>parent := (case f of FL x c r \<Rightarrow> i_addr x | FR l x c \<Rightarrow> i_addr x),
                    left := sentinel t1, right := sentinel t1\<rparr>) t1 = Some t2"
      "rbtree_red a t2 = Some t3" "sentinel t3 = sentinel t"
      "rb_repr t3 sp p0 (plug (Node Leaf (item_at t a) True Leaf) (f # D))"
    by auto
  have "root_black (f # D)" using desc_root_black [of T "[]" k] False black fD(1) by simp
  from insert_bound [OF l(5) _ this] have "loop_within (Suc (length (f # D))) insert_turn (a, t3) \<noteq> None" by simp
  then have "loop_within n insert_turn (a, t3) \<noteq> None"
    by (rule loop_within_more) (use height_plug [of "f # D" Leaf] pl n in simp)
  with insert_sound [of n "(a, t3)"] have "loop_within n insert_turn (a, t3) = rbtree_insert_fixup a t3" by fastforce
  with find fD(2) l show ?thesis
    by (cases f) (auto simp: rbtree_insert_within_def rbtree_insert_def)
qed

lemma del_take_height:
  assumes "del_take (Node l x c r) C = (T', C', red)" "C' \<noteq> []"
  shows "length C' \<le> length C + rb_height (Node l x c r)"
proof (cases "l = Leaf \<or> r = Leaf")
  case True
  then show ?thesis using assms(1) by (auto split: if_splits)
next
  case False
  then obtain y cy b D where m: "min_pos r [] = (Node Leaf y cy b, D)" "plug (Node Leaf y cy b) D = r"
    using min_pos_pos [of r "[]"] by auto
  with height_plug [of D "Node Leaf y cy b"] assms(1) False show ?thesis by auto
qed

lemma pick_within:
  assumes "rb_repr t sp p0 (plug (Node l x c r) C)" "rb_height r \<le> n"
  shows "rbtree_delete_pick_within n (i_addr x) t = rbtree_delete_pick (i_addr x) t"
proof (cases "r = Leaf")
  case True
  then show ?thesis
    using rd_at(1,2) [OF assms(1)] by (simp add: rbtree_delete_pick_within_def rbtree_delete_pick_def)
next
  case False
  have "rb_repr t sp p0 (plug r (FR l x c # C))" using assms(1) by simp
  from loop_within_more [OF min_bound [OF this False] assms(2)] min_sound
  have "loop_within n (min_turn (sentinel t) t) (ptr (sentinel t) r) = rbtree_node_min (ptr (sentinel t) r) (sentinel t) t"
    by fastforce
  then show ?thesis
    using rd_at(1,2) [OF assms(1)] by (simp add: rbtree_delete_pick_within_def rbtree_delete_pick_def)
qed

lemma delete_within:
  assumes r: "rb_repr t sp p0 T" and inv: "rb_inv T" and a: "a \<in> set (addrs T)" and n: "rb_height T + 2 \<le> n"
  shows "rbtree_delete_within n a t = rbtree_delete a t"
proof -
  have dist: "distinct (addrs T)" "a \<noteq> sentinel t" using r a by (auto simp: rb_repr_def)
  from focus_pos [OF a dist(1), of "[]"] obtain l x c e C where
    f: "focus a T [] = (Node l x c e, C)" "plug (Node l x c e) C = T" "i_addr x = a" by auto
  obtain T' C' red where d: "del_take (Node l x c e) C = (T', C', red)" by (metis prod_cases3)
  have r': "rb_repr t sp p0 (plug (Node l x c e) C)" using r f(2) by simp
  have h: "length C + rb_height (Node l x c e) \<le> rb_height T"
    using height_plug [of C "Node l x c e"] unfolding f(2) .
  have pick: "rbtree_delete_pick_within n a t = rbtree_delete_pick a t"
    using pick_within [OF r', of n] f(3) h n by simp
  show ?thesis
  proof (cases "C' = []")
    case True
    have C: "C = []" "l = Leaf \<and> T' = e \<or> e = Leaf \<and> T' = l"
      using d True min_pos_pos [of e "[]"] by (auto split: if_splits prod.splits rbt.splits)
    have "rbtree_delete_pick a t = Some (ptr (sentinel t) T', a)" "a = root t"
      using delete_pick_repr [OF r'] root_iff_at [OF r'] C f(3) by auto
    with pick show ?thesis by (simp add: rbtree_delete_within_def rbtree_delete_def)
  next
    case False
    from delete_inner_repr [OF r' d False, unfolded f(3)] obtain subst t1 where
      t1: "rbtree_delete_pick a t = Some (ptr (sentinel t) T', subst)" "subst \<noteq> root t"
        "rbtree_is_red subst t = Some red"
        "rbtree_delete_splice a (ptr (sentinel t) T') subst t = Some t1"
        "rb_at t1 p0 T' C'" "sentinel t1 = sentinel t" "nodes t1 a \<noteq> None" by blast
    have out: "a \<notin> set (addrs (plug T' C'))" using addrs_delete_out [OF d] f dist(1) by simp
    from t1(5) obtain sp1 where "rb_repr t1 sp1 p0 (plug T' C')" "T' = Leaf \<longrightarrow> sp1 = cpar p0 C'"
      using False by (auto simp: rb_at_def)
    with node_init_repr [of t1 sp1 p0 "plug T' C'" a] out dist(2) t1(6,7) obtain t2 where
      t2: "rbtree_node_init a t1 = Some t2" "sentinel t2 = sentinel t" "rb_at t2 p0 T' C'" by (auto simp: rb_at_def)
    have "loop_within n delete_turn (ptr (sentinel t) T', t2) = rbtree_delete_fixup (ptr (sentinel t) T') t2" if "\<not> red"
    proof -
      have "del_ok T' C'" using del_take_ok [OF _ d] inv f(2) that by simp
      from delete_bound [OF t2(3) this] t2(2)
      have "loop_within (Suc (del_turns T' C')) delete_turn (ptr (sentinel t) T', t2) \<noteq> None" by simp
      moreover have "Suc (del_turns T' C') \<le> n"
        using del_take_height [OF d False] h n by (simp add: del_turns_def)
      ultimately have "loop_within n delete_turn (ptr (sentinel t) T', t2) \<noteq> None" by (rule loop_within_more)
      with delete_sound [of n "(ptr (sentinel t) T', t2)"] show ?thesis by fastforce
    qed
    with pick t1 t2(1) show ?thesis by (simp add: rbtree_delete_within_def rbtree_delete_def)
  qed
qed

end
