(* ===== verification/Coro_Pthread.thy ===== *)
theory Coro_Pthread
  imports Prelude
begin

text \<open>
  The backend of src/cs_coro.c with threads (CORO_PTHREAD), which the project does not build: every
  coroutine is a thread, the one that runs holds the mutex, the others wait on the condition variables
  of their contexts.  An operation is split where its thread can wait; \<open>pstep\<close> interleaves the pieces.
  \<open>pcond_signal\<close> and \<open>pcond_wait\<close> do what POSIX documents; the spurious wake-ups it allows are a relation of
  their own.
\<close>

section \<open>State\<close>

type_synonym tid = nat

text \<open>
  Where a thread is: \<open>In_code\<close>: in the code of its coroutine; \<open>Sig p\<close>: in \<open>coro_transfer\<close> after the signal, about
  to wait on the context \<open>p\<close>; \<open>Wait_on p\<close>: it waits there; \<open>Woken\<close>: it has been signalled and is to lock the
  mutex again; \<open>Start c\<close>: it is new and is to lock the mutex in \<open>coro_init\<close>; \<open>Init c\<close>: it has locked it and is
  before \<open>coro_transfer\<close>; \<open>Cancelled\<close>: it has been cancelled in its wait; \<open>Join u\<close>: it is in \<open>coro_destroy\<close> and waits
  for the end of \<open>u\<close>; \<open>Ended\<close>.
\<close>

datatype pc = In_code | Sig addr | Wait_on addr | Woken | Start addr | Init addr | Cancelled | Join tid | Ended

text \<open>\<open>nctx\<close> is the address of the static variable of \<open>coro_create\<close>; \<open>ids\<close> are the fields \<open>id\<close> of the contexts.\<close>

record pthreads =
  mutex :: "tid option"
  cvs :: "addr \<Rightarrow> tid list"
  pcs :: "tid \<rightharpoonup> pc"
  ids :: "addr \<rightharpoonup> tid"
  nctx :: addr
  once :: bool
  null_tid :: tid

definition set_pc :: "tid \<Rightarrow> pc \<Rightarrow> pthreads \<Rightarrow> pthreads" where
  "set_pc t p s = s\<lparr>pcs := (pcs s)(t \<mapsto> p)\<rparr>"

text \<open>A signal wakes one of the threads that wait, or nobody.\<close>

definition pcond_signal :: "addr \<Rightarrow> pthreads \<Rightarrow> pthreads" where
  "pcond_signal c s =
     (case cvs s c of [] \<Rightarrow> s
      | u # us \<Rightarrow> set_pc u Woken (s\<lparr>cvs := (cvs s)(c := us)\<rparr>))"

text \<open>The two pieces of \<open>pthread_cond_wait\<close>: the mutex is released and the thread waits; it locks the mutex again.\<close>

definition pcond_wait :: "tid \<Rightarrow> pthreads \<Rightarrow> pthreads option" where
  "pcond_wait t s =
     (case pcs s t of
        Some (Sig p) \<Rightarrow> Some (set_pc t (Wait_on p) (s\<lparr>mutex := None, cvs := (cvs s)(p := cvs s p @ [t])\<rparr>))
      | _ \<Rightarrow> None)"

definition pcond_wake :: "tid \<Rightarrow> pthreads \<Rightarrow> pthreads option" where
  "pcond_wake t s =
     (if pcs s t = Some Woken \<and> mutex s = None then Some (set_pc t In_code (s\<lparr>mutex := Some t\<rparr>)) else None)"

section \<open>The functions\<close>

definition pt_transfer :: "tid \<Rightarrow> addr \<Rightarrow> addr \<Rightarrow> pthreads \<Rightarrow> pthreads" where
  "pt_transfer t prev nxt s = set_pc t (Sig prev) (pcond_signal nxt s)"

definition pt_init_lock :: "tid \<Rightarrow> pthreads \<Rightarrow> pthreads option" where
  "pt_init_lock t s =
     (case pcs s t of
        Some (Start c) \<Rightarrow> if mutex s = None then Some (set_pc t (Init c) (s\<lparr>mutex := Some t\<rparr>)) else None
      | _ \<Rightarrow> None)"

definition pt_init_transfer :: "tid \<Rightarrow> pthreads \<Rightarrow> pthreads option" where
  "pt_init_transfer t s =
     (case pcs s t of Some (Init c) \<Rightarrow> Some (pt_transfer t c (nctx s) s) | _ \<Rightarrow> None)"

text \<open>The function of the coroutine returns: the handler unlocks the mutex and the thread ends.\<close>

definition pt_init_return :: "tid \<Rightarrow> pthreads \<Rightarrow> pthreads" where
  "pt_init_return t s = set_pc t Ended (s\<lparr>mutex := None\<rparr>)"

text \<open>The first call of \<open>coro_create\<close> locks the mutex.\<close>

definition pt_once :: "tid \<Rightarrow> pthreads \<Rightarrow> pthreads" where
  "pt_once t s =
     (if once s then s
      else s\<lparr>once := True, mutex := Some t, cvs := (cvs s)(nctx s := []), null_tid := t\<rparr>)"

text \<open>
  \<open>made\<close> is the thread that \<open>pthread_create\<close> makes, \<open>None\<close> when it fails: its result is not looked at.
\<close>

definition pt_create :: "tid \<Rightarrow> addr \<Rightarrow> addr \<Rightarrow> tid option \<Rightarrow> pthreads \<Rightarrow> pthreads" where
  "pt_create t cx coro made s =
     (let s = pt_once t s; s = s\<lparr>cvs := (cvs s)(cx := [])\<rparr>
      in if coro \<noteq> NULL
         then pt_transfer t (nctx s) cx
                (case made of None \<Rightarrow> s | Some u \<Rightarrow> set_pc u (Start cx) (s\<lparr>ids := (ids s)(cx \<mapsto> u)\<rparr>))
         else s\<lparr>ids := (ids s)(cx \<mapsto> null_tid s)\<rparr>)"

text \<open>
  A thread that is cancelled while it waits locks the mutex, and the handler of \<open>coro_init\<close> unlocks it.
\<close>

definition pcancel :: "tid \<Rightarrow> pthreads \<Rightarrow> pthreads" where
  "pcancel u s =
     (case pcs s u of
        Some (Wait_on c) \<Rightarrow> set_pc u Cancelled (s\<lparr>cvs := (cvs s)(c := remove1 u (cvs s c))\<rparr>)
      | _ \<Rightarrow> s)"

definition pt_cancelled :: "tid \<Rightarrow> pthreads \<Rightarrow> pthreads option" where
  "pt_cancelled u s =
     (if pcs s u = Some Cancelled \<and> mutex s = None then Some (set_pc u Ended s) else None)"

definition pt_destroy :: "tid \<Rightarrow> addr \<Rightarrow> pthreads \<Rightarrow> pthreads option" where
  "pt_destroy t cx s =
     (case ids s cx of None \<Rightarrow> None
      | Some u \<Rightarrow>
          if u \<noteq> null_tid s then Some (set_pc t (Join u) ((pcancel u s)\<lparr>mutex := None\<rparr>))
          else Some s)"

definition pt_destroy_join :: "tid \<Rightarrow> pthreads \<Rightarrow> pthreads option" where
  "pt_destroy_join t s =
     (case pcs s t of
        Some (Join u) \<Rightarrow>
          if pcs s u = Some Ended \<and> mutex s = None then Some (set_pc t In_code (s\<lparr>mutex := Some t\<rparr>)) else None
      | _ \<Rightarrow> None)"

section \<open>Steps\<close>

text \<open>
  A thread may call \<open>coro_transfer\<close> with a context of its own and another one, \<open>coro_create\<close> with a context on
  which nobody waits, and \<open>coro_destroy\<close> with the context of a thread that waits.
\<close>

inductive pstep :: "pthreads \<Rightarrow> pthreads \<Rightarrow> bool" where
  p_transfer: "pcs s t = Some In_code \<Longrightarrow> mutex s = Some t \<Longrightarrow> ids s p = Some t \<Longrightarrow> p \<noteq> nctx s \<Longrightarrow> n \<noteq> nctx s \<Longrightarrow>
    pstep s (pt_transfer t p n s)"
| p_wait: "pcond_wait t s = Some s' \<Longrightarrow> pstep s s'"
| p_wake: "pcond_wake t s = Some s' \<Longrightarrow> pstep s s'"
| p_create: "pcs s t = Some In_code \<Longrightarrow> pcs s u = None \<Longrightarrow> cx \<noteq> nctx s \<Longrightarrow> cvs s cx = [] \<Longrightarrow>
    pstep s (pt_create t cx coro (Some u) s)"
| p_create_fails: "pcs s t = Some In_code \<Longrightarrow> cx \<noteq> nctx s \<Longrightarrow> cvs s cx = [] \<Longrightarrow>
    pstep s (pt_create t cx coro None s)"
| p_lock: "pt_init_lock t s = Some s' \<Longrightarrow> pstep s s'"
| p_init: "pt_init_transfer t s = Some s' \<Longrightarrow> pstep s s'"
| p_return: "pcs s t = Some In_code \<Longrightarrow> mutex s = Some t \<Longrightarrow> t \<noteq> null_tid s \<Longrightarrow> pstep s (pt_init_return t s)"
| p_destroy: "pcs s t = Some In_code \<Longrightarrow> mutex s = Some t \<Longrightarrow> ids s cx = Some u \<Longrightarrow> pcs s u = Some (Wait_on c) \<Longrightarrow>
    pt_destroy t cx s = Some s' \<Longrightarrow> pstep s s'"
| p_cancelled: "pt_cancelled u s = Some s' \<Longrightarrow> pstep s s'"
| p_join: "pt_destroy_join t s = Some s' \<Longrightarrow> pstep s s'"

text \<open>A thread that waits may wake without a signal.\<close>

inductive spurious :: "pthreads \<Rightarrow> pthreads \<Rightarrow> bool" where
  "pcs s u = Some (Wait_on c) \<Longrightarrow> spurious s (set_pc u Woken (s\<lparr>cvs := (cvs s)(c := remove1 u (cvs s c))\<rparr>))"

text \<open>The process before the first call: one thread.\<close>

definition pt_start :: "tid \<Rightarrow> addr \<Rightarrow> pthreads" where
  "pt_start t n =
     \<lparr>mutex = None, cvs = (\<lambda>_. []), pcs = [t \<mapsto> In_code], ids = Map.empty, nctx = n, once = False, null_tid = 0\<rparr>"

section \<open>The invariant\<close>

text \<open>
  A thread is parked when it waits or has ended.  \<open>baton s\<close> lists the states with the threads that are not
  parked: one that runs; one on its way into its wait and the one it has signalled; and so on.
\<close>

fun parked :: "pc option \<Rightarrow> bool" where
  "parked None \<longleftrightarrow> True"
| "parked (Some (Wait_on c)) \<longleftrightarrow> True"
| "parked (Some Ended) \<longleftrightarrow> True"
| "parked _ \<longleftrightarrow> False"

definition only :: "tid set \<Rightarrow> pthreads \<Rightarrow> bool" where
  "only A s \<longleftrightarrow> (\<forall>t. t \<notin> A \<longrightarrow> parked (pcs s t))"

inductive baton :: "pthreads \<Rightarrow> bool" where
  b_first: "\<not> once s \<Longrightarrow> mutex s = None \<Longrightarrow> pcs s = [t \<mapsto> In_code] \<Longrightarrow> ids s = Map.empty \<Longrightarrow> baton s"
| b_run: "once s \<Longrightarrow> mutex s = Some t \<Longrightarrow> pcs s t = Some In_code \<Longrightarrow> only {t} s \<Longrightarrow> cvs s (nctx s) = [] \<Longrightarrow> baton s"
| b_sig: "once s \<Longrightarrow> mutex s = Some t \<Longrightarrow> pcs s t = Some (Sig p) \<Longrightarrow> pcs s u = Some Woken \<Longrightarrow> only {t, u} s \<Longrightarrow>
    cvs s (nctx s) = [] \<Longrightarrow> p \<noteq> nctx s \<Longrightarrow> ids s p = Some t \<Longrightarrow> baton s"
| b_lost: "once s \<Longrightarrow> mutex s = Some t \<Longrightarrow> pcs s t = Some (Sig p) \<Longrightarrow> only {t} s \<Longrightarrow>
    cvs s (nctx s) = [] \<Longrightarrow> p \<noteq> nctx s \<Longrightarrow> ids s p = Some t \<Longrightarrow> baton s"
| b_new: "once s \<Longrightarrow> mutex s = Some t \<Longrightarrow> pcs s t = Some (Sig (nctx s)) \<Longrightarrow> pcs s u = Some (Start c) \<Longrightarrow> only {t, u} s \<Longrightarrow>
    cvs s (nctx s) = [] \<Longrightarrow> c \<noteq> nctx s \<Longrightarrow> ids s c = Some u \<Longrightarrow> baton s"
| b_woken: "once s \<Longrightarrow> mutex s = None \<Longrightarrow> pcs s u = Some Woken \<Longrightarrow> only {u} s \<Longrightarrow> cvs s (nctx s) = [] \<Longrightarrow> baton s"
| b_fail: "once s \<Longrightarrow> mutex s = Some t \<Longrightarrow> pcs s t = Some (Sig (nctx s)) \<Longrightarrow> only {t} s \<Longrightarrow>
    cvs s (nctx s) = [] \<Longrightarrow> baton s"
| b_dead: "once s \<Longrightarrow> mutex s = None \<Longrightarrow> only {} s \<Longrightarrow> baton s"
| b_start: "once s \<Longrightarrow> mutex s = None \<Longrightarrow> pcs s u = Some (Start c) \<Longrightarrow> only {u} s \<Longrightarrow>
    cvs s (nctx s) = [t] \<Longrightarrow> c \<noteq> nctx s \<Longrightarrow> ids s c = Some u \<Longrightarrow> baton s"
| b_init: "once s \<Longrightarrow> mutex s = Some u \<Longrightarrow> pcs s u = Some (Init c) \<Longrightarrow> only {u} s \<Longrightarrow>
    cvs s (nctx s) = [t] \<Longrightarrow> c \<noteq> nctx s \<Longrightarrow> ids s c = Some u \<Longrightarrow> baton s"
| b_cancel: "once s \<Longrightarrow> mutex s = None \<Longrightarrow> pcs s t = Some (Join u) \<Longrightarrow> pcs s u = Some Cancelled \<Longrightarrow> only {t, u} s \<Longrightarrow>
    cvs s (nctx s) = [] \<Longrightarrow> baton s"
| b_join: "once s \<Longrightarrow> mutex s = None \<Longrightarrow> pcs s t = Some (Join u) \<Longrightarrow> pcs s u = Some Ended \<Longrightarrow> only {t} s \<Longrightarrow>
    cvs s (nctx s) = [] \<Longrightarrow> baton s"

text \<open>
  The threads in the queue of a context are those that wait there; except at \<open>nctx\<close> a thread waits on a
  context of its own, and only one.
\<close>

definition queues :: "pthreads \<Rightarrow> bool" where
  "queues s \<longleftrightarrow>
     (\<forall>c t. t \<in> set (cvs s c) \<longleftrightarrow> pcs s t = Some (Wait_on c))
     \<and> (\<forall>c t. c \<noteq> nctx s \<longrightarrow> pcs s t = Some (Wait_on c) \<longrightarrow> ids s c = Some t)
     \<and> (\<forall>c. distinct (cvs s c))"

section \<open>Preservation\<close>

lemma only_pc:
  "only A s \<Longrightarrow> pcs s t = Some In_code \<Longrightarrow> t \<in> A" "only A s \<Longrightarrow> pcs s t = Some (Sig p) \<Longrightarrow> t \<in> A"
  "only A s \<Longrightarrow> pcs s t = Some Woken \<Longrightarrow> t \<in> A" "only A s \<Longrightarrow> pcs s t = Some (Start c) \<Longrightarrow> t \<in> A"
  "only A s \<Longrightarrow> pcs s t = Some (Init c) \<Longrightarrow> t \<in> A" "only A s \<Longrightarrow> pcs s t = Some Cancelled \<Longrightarrow> t \<in> A"
  "only A s \<Longrightarrow> pcs s t = Some (Join u) \<Longrightarrow> t \<in> A"
  unfolding only_def by (metis parked.simps)+

text \<open>What a thread's place says about the others.\<close>

lemma baton_running:
  assumes "baton s" "pcs s t = Some In_code"
  shows "\<not> once s \<and> mutex s = None \<and> pcs s = [t \<mapsto> In_code] \<and> ids s = Map.empty
    \<or> once s \<and> mutex s = Some t \<and> only {t} s \<and> cvs s (nctx s) = []"
  using assms by (cases rule: baton.cases) (auto dest: only_pc split: if_splits)

lemma baton_sig:
  assumes "baton s" "pcs s t = Some (Sig p)"
  shows "once s \<and> mutex s = Some t \<and> cvs s (nctx s) = []
    \<and> ((\<exists>u. pcs s u = Some Woken \<and> only {t, u} s) \<and> p \<noteq> nctx s \<and> ids s p = Some t
       \<or> only {t} s \<and> (p \<noteq> nctx s \<longrightarrow> ids s p = Some t)
       \<or> (\<exists>u c. pcs s u = Some (Start c) \<and> only {t, u} s \<and> p = nctx s \<and> c \<noteq> nctx s \<and> ids s c = Some u))"
proof -
  have in_set: "t \<in> A" if "only A s" for A using only_pc(2) [OF that assms(2)] .
  from assms(1) show ?thesis
  proof (cases rule: baton.cases)
    case (b_sig t' p' u)
    with in_set [OF b_sig(5)] assms(2) have "t' = t" "p' = p" by auto
    with b_sig show ?thesis by auto
  next
    case (b_lost t' p')
    with in_set [OF b_lost(4)] assms(2) have "t' = t" "p' = p" by auto
    with b_lost show ?thesis by auto
  next
    case (b_fail t')
    with in_set [OF b_fail(4)] assms(2) have "t' = t" "p = nctx s" by auto
    with b_fail show ?thesis by auto
  next
    case (b_new t' u c)
    with in_set [OF b_new(5)] assms(2) have "t' = t" "p = nctx s" by auto
    with b_new show ?thesis by auto
  next
    case (b_cancel t' u)
    with in_set [OF b_cancel(5)] assms(2) show ?thesis by auto
  qed (use assms(2) in \<open>auto dest!: in_set split: if_splits\<close>)
qed

lemma baton_woken:
  assumes "baton s" "pcs s u = Some Woken" "mutex s = None"
  shows "once s \<and> only {u} s \<and> cvs s (nctx s) = []"
  using assms by (cases rule: baton.cases) (auto dest: only_pc split: if_splits)

lemma baton_start:
  assumes "baton s" "pcs s u = Some (Start c)" "mutex s = None"
  shows "once s \<and> only {u} s \<and> (\<exists>t. cvs s (nctx s) = [t]) \<and> c \<noteq> nctx s \<and> ids s c = Some u"
  using assms by (cases rule: baton.cases) (auto dest: only_pc split: if_splits)

lemma baton_init:
  assumes "baton s" "pcs s u = Some (Init c)"
  shows "once s \<and> mutex s = Some u \<and> only {u} s \<and> (\<exists>t. cvs s (nctx s) = [t]) \<and> c \<noteq> nctx s \<and> ids s c = Some u"
  using assms by (cases rule: baton.cases) (auto dest: only_pc split: if_splits)

lemma baton_cancelled:
  assumes "baton s" "pcs s u = Some Cancelled"
  shows "once s \<and> mutex s = None \<and> cvs s (nctx s) = [] \<and> (\<exists>t. pcs s t = Some (Join u) \<and> only {t, u} s)"
proof -
  have in_set: "u \<in> A" if "only A s" for A using only_pc(6) [OF that assms(2)] .
  from assms(1) show ?thesis
  proof (cases rule: baton.cases)
    case (b_cancel t u')
    with in_set [OF b_cancel(5)] assms(2) have "u' = u" by auto
    with b_cancel show ?thesis by auto
  qed (use assms(2) in \<open>auto dest!: in_set split: if_splits\<close>)
qed

lemma baton_join:
  assumes "baton s" "pcs s t = Some (Join u)" "pcs s u = Some Ended"
  shows "once s \<and> mutex s = None \<and> only {t} s \<and> cvs s (nctx s) = []"
  using assms by (cases rule: baton.cases) (auto dest: only_pc split: if_splits)

text \<open>Reading what was written.\<close>

lemma set_pc_sel [simp]:
  "pcs (set_pc t p s) = (pcs s)(t \<mapsto> p)" "mutex (set_pc t p s) = mutex s" "cvs (set_pc t p s) = cvs s"
  "ids (set_pc t p s) = ids s" "nctx (set_pc t p s) = nctx s" "once (set_pc t p s) = once s"
  "null_tid (set_pc t p s) = null_tid s"
  by (simp_all add: set_pc_def)

lemma signal_sel [simp]:
  "mutex (pcond_signal c s) = mutex s" "ids (pcond_signal c s) = ids s" "nctx (pcond_signal c s) = nctx s"
  "once (pcond_signal c s) = once s" "null_tid (pcond_signal c s) = null_tid s"
  by (simp_all add: pcond_signal_def split: list.splits)

lemma only_upd:
  "only A s \<Longrightarrow> pcs s' = (pcs s)(t \<mapsto> p) \<Longrightarrow> A \<subseteq> insert t B \<Longrightarrow> parked (Some p) \<or> t \<in> B \<Longrightarrow> only B s'"
  unfolding only_def by (metis fun_upd_other fun_upd_same insertE subsetD)

lemma queues_wait: "queues s \<Longrightarrow> pcs s t = Some (Wait_on c) \<longleftrightarrow> t \<in> set (cvs s c)"
  by (simp add: queues_def)

text \<open>Nobody else waits where a thread waits, except at \<open>nctx\<close>.\<close>

lemma distinct_all_same:
  assumes "distinct xs" "set xs = {t}"
  shows "xs = [t]"
proof -
  have "length xs = 1" using distinct_card [OF assms(1)] assms(2) by simp
  then obtain y where "xs = [y]" by (cases xs) simp_all
  with assms(2) show ?thesis by simp
qed

lemma queues_ids: "queues s \<Longrightarrow> c \<noteq> nctx s \<Longrightarrow> u \<in> set (cvs s c) \<Longrightarrow> ids s c = Some u"
  by (simp add: queues_def)

lemma queues_own:
  assumes "queues s" "c \<noteq> nctx s" "t \<in> set (cvs s c)"
  shows "cvs s c = [t]"
proof (rule distinct_all_same)
  show "distinct (cvs s c)" using assms(1) by (simp add: queues_def)
  have same: "u = t" if "u \<in> set (cvs s c)" for u
  proof -
    have "Some t = Some u"
      using queues_ids [OF assms(1,2,3)] queues_ids [OF assms(1,2) that] by (rule trans [OF sym])
    then show "u = t" by simp
  qed
  show "set (cvs s c) = {t}"
  proof (intro equalityI subsetI)
    show "u \<in> {t}" if "u \<in> set (cvs s c)" for u using same [OF that] by simp
    show "u \<in> set (cvs s c)" if "u \<in> {t}" for u using that assms(3) by simp
  qed
qed

section \<open>The steps keep the invariant\<close>

definition pinv :: "pthreads \<Rightarrow> bool" where
  "pinv s \<longleftrightarrow> baton s \<and> queues s"

lemma wait_inv:
  assumes "pinv s" "pcond_wait t s = Some s'"
  shows "pinv s'"
proof -
  from assms(2) obtain p where p: "pcs s t = Some (Sig p)"
    and s': "s' = set_pc t (Wait_on p) (s\<lparr>mutex := None, cvs := (cvs s)(p := cvs s p @ [t])\<rparr>)"
    by (auto simp: pcond_wait_def split: option.splits pc.splits)
  have q: "queues s" and b: "baton s" using assms(1) by (simp_all add: pinv_def)
  have t: "t \<notin> set (cvs s c)" for c using q p by (auto simp: queues_def)
  have own: "p \<noteq> nctx s \<longrightarrow> ids s p = Some t" using baton_sig [OF b p] by auto
  have "queues s'"
    using q t own p unfolding queues_def s' by auto
  moreover have "baton s'"
    using baton_sig [OF b p]
  proof (elim conjE disjE exE)
    fix u assume a: "once s" "cvs s (nctx s) = []" "pcs s u = Some Woken" "only {t, u} s" "p \<noteq> nctx s"
    show ?thesis
      by (rule b_woken [where u = u]) (use a p in \<open>auto simp: s' intro: only_upd [where A = "{t, u}" and t = t]\<close>)
  next
    assume a: "once s" "only {t} s"
    show ?thesis
      by (rule b_dead) (use a in \<open>auto simp: s' intro: only_upd [where A = "{t}" and t = t]\<close>)
  next
    fix u c assume a: "once s" "cvs s (nctx s) = []" "pcs s u = Some (Start c)" "only {t, u} s" "p = nctx s"
      "c \<noteq> nctx s" "ids s c = Some u"
    show ?thesis
      by (rule b_start [where u = u and t = t and c = c])
        (use a p in \<open>auto simp: s' intro: only_upd [where A = "{t, u}" and t = t]\<close>)
  qed
  ultimately show ?thesis by (simp add: pinv_def)
qed

lemma lock_queues:
  assumes "queues s" "pcs s t = Some p" "\<not> parked (Some p)" "\<not> parked (Some p')"
  shows "queues (set_pc t p' (s\<lparr>mutex := x\<rparr>))"
  using assms unfolding queues_def by (cases p; cases p') auto

lemma wake_inv:
  assumes "pinv s" "pcond_wake t s = Some s'"
  shows "pinv s'"
proof -
  from assms(2) have p: "pcs s t = Some Woken" "mutex s = None" and s': "s' = set_pc t In_code (s\<lparr>mutex := Some t\<rparr>)"
    by (auto simp: pcond_wake_def split: if_splits)
  have a: "once s \<and> only {t} s \<and> cvs s (nctx s) = []" using assms(1) baton_woken p by (simp add: pinv_def)
  have "baton s'"
    by (rule b_run [where t = t]) (use a in \<open>auto simp: s' intro: only_upd [where A = "{t}" and t = t]\<close>)
  moreover have "queues s'" unfolding s' by (rule lock_queues [OF _ p(1)]) (use assms(1) in \<open>auto simp: pinv_def\<close>)
  ultimately show ?thesis by (simp add: pinv_def)
qed

lemma init_lock_inv:
  assumes "pinv s" "pt_init_lock t s = Some s'"
  shows "pinv s'"
proof -
  from assms(2) obtain c where p: "pcs s t = Some (Start c)" "mutex s = None"
    and s': "s' = set_pc t (Init c) (s\<lparr>mutex := Some t\<rparr>)"
    by (auto simp: pt_init_lock_def split: if_splits option.splits pc.splits)
  have "once s \<and> only {t} s \<and> (\<exists>u. cvs s (nctx s) = [u]) \<and> c \<noteq> nctx s \<and> ids s c = Some t"
    using assms(1) baton_start p by (simp add: pinv_def)
  then obtain u where a: "once s" "only {t} s" "cvs s (nctx s) = [u]" "c \<noteq> nctx s" "ids s c = Some t" by blast
  have "baton s'"
    by (rule b_init [where u = t and t = u and c = c])
      (use a in \<open>auto simp: s' intro: only_upd [where A = "{t}" and t = t]\<close>)
  moreover have "queues s'" unfolding s' by (rule lock_queues [OF _ p(1)]) (use assms(1) in \<open>auto simp: pinv_def\<close>)
  ultimately show ?thesis by (simp add: pinv_def)
qed

lemma cancelled_inv:
  assumes "pinv s" "pt_cancelled u s = Some s'"
  shows "pinv s'"
proof -
  from assms(2) have p: "pcs s u = Some Cancelled" and s': "s' = set_pc u Ended s"
    by (auto simp: pt_cancelled_def split: if_splits)
  from baton_cancelled [OF _ p] assms(1) obtain t where
    a: "once s" "mutex s = None" "cvs s (nctx s) = []" "pcs s t = Some (Join u)" "only {t, u} s"
    by (auto simp: pinv_def)
  have "t \<noteq> u" using a(4) p by auto
  then have "baton s'"
    by (intro b_join [where t = t and u = u])
      (use a in \<open>auto simp: s' intro: only_upd [where A = "{t, u}" and t = u]\<close>)
  moreover have "queues s'" using assms(1) p unfolding s' pinv_def queues_def by auto
  ultimately show ?thesis by (simp add: pinv_def)
qed

lemma join_inv:
  assumes "pinv s" "pt_destroy_join t s = Some s'"
  shows "pinv s'"
proof -
  from assms(2) obtain u where p: "pcs s t = Some (Join u)" "pcs s u = Some Ended"
    and s': "s' = set_pc t In_code (s\<lparr>mutex := Some t\<rparr>)"
    by (auto simp: pt_destroy_join_def split: if_splits option.splits pc.splits)
  have a: "once s" "only {t} s" "cvs s (nctx s) = []" using assms(1) baton_join p by (auto simp: pinv_def)
  have "baton s'"
    by (rule b_run [where t = t]) (use a in \<open>auto simp: s' intro: only_upd [where A = "{t}" and t = t]\<close>)
  moreover have "queues s'" unfolding s' by (rule lock_queues [OF _ p(1)]) (use assms(1) in \<open>auto simp: pinv_def\<close>)
  ultimately show ?thesis by (simp add: pinv_def)
qed

lemma return_inv:
  assumes "pinv s" "pcs s t = Some In_code" "mutex s = Some t"
  shows "pinv (pt_init_return t s)"
proof -
  have a: "once s" "only {t} s" "cvs s (nctx s) = []" using assms baton_running [of s t] by (auto simp: pinv_def)
  have "baton (pt_init_return t s)"
    by (rule b_dead) (use a in \<open>auto simp: pt_init_return_def intro: only_upd [where A = "{t}" and t = t]\<close>)
  moreover have "queues (pt_init_return t s)"
    using assms unfolding pt_init_return_def pinv_def queues_def by auto
  ultimately show ?thesis by (simp add: pinv_def)
qed

lemma set_pc_queues:
  assumes "queues s" "pcs s t = Some p" "\<not> parked (Some p)" "\<not> parked (Some p')"
  shows "queues (set_pc t p' s)"
  using lock_queues [OF assms, of "mutex s"] by simp

lemma signal_queues:
  assumes "queues s"
  shows "queues (pcond_signal c s)"
proof (cases "cvs s c")
  case Nil
  with assms show ?thesis by (simp add: pcond_signal_def)
next
  case (Cons u us)
  have d: "distinct (u # us)" using assms Cons by (metis queues_def)
  have w: "pcs s u = Some (Wait_on c)" using assms Cons by (simp add: queues_wait)
  have off: "x \<noteq> u" if "x \<in> set (cvs s c')" "c' \<noteq> c" for x c' using assms that w by (auto simp: queues_def)
  have "(x \<in> set (((cvs s)(c := us)) c')) = (((pcs s)(u \<mapsto> Woken)) x = Some (Wait_on c'))" for x c'
  proof (cases "x = u")
    case True
    with d off [of u c'] show ?thesis by auto
  next
    case False
    with queues_wait [OF assms, of x c'] Cons show ?thesis by auto
  qed
  moreover have "c' \<noteq> nctx s \<Longrightarrow> ((pcs s)(u \<mapsto> Woken)) x = Some (Wait_on c') \<Longrightarrow> ids s c' = Some x" for x c'
    using assms by (auto simp: queues_def split: if_splits)
  moreover have "distinct (((cvs s)(c := us)) c')" for c' using assms d by (simp add: queues_def)
  ultimately show ?thesis by (simp add: queues_def pcond_signal_def Cons)
qed

lemma signal_nobody: "cvs s c = [] \<Longrightarrow> pcond_signal c s = s"
  by (simp add: pcond_signal_def)

lemma signal_one:
  "cvs s c = [u] \<Longrightarrow> pcond_signal c s = set_pc u Woken (s\<lparr>cvs := (cvs s)(c := [])\<rparr>)"
  by (simp add: pcond_signal_def)

lemma transfer_queues:
  assumes "queues s" "pcs s t = Some p'" "\<not> parked (Some p')"
  shows "queues (pt_transfer t p n s)"
proof -
  have "pcs (pcond_signal n s) t = Some p'"
    using assms queues_wait [OF assms(1), of t n] by (auto simp: pcond_signal_def split: list.splits)
  then show ?thesis unfolding pt_transfer_def
    by (rule set_pc_queues [OF signal_queues [OF assms(1)]]) (use assms(3) in simp_all)
qed

text \<open>A transfer to the context of a thread that waits, from the only active thread.\<close>

lemma transfer_one:
  assumes "pinv s" "once s" "mutex s = Some t" "pcs s t = Some q" "\<not> parked (Some q)" "only {t} s"
    and "cvs s n = [u]" "((cvs s)(n := [])) (nctx s) = []" "p \<noteq> nctx s" "ids s p = Some t"
  shows "pinv (pt_transfer t p n s)"
proof -
  have w: "pcs s u = Some (Wait_on n)" using assms(1,7) by (simp add: pinv_def queues_wait)
  then have u: "u \<noteq> t" using assms(4,5) by auto
  have sig: "pt_transfer t p n s = set_pc t (Sig p) (set_pc u Woken (s\<lparr>cvs := (cvs s)(n := [])\<rparr>))"
    using assms(7) by (simp add: pt_transfer_def signal_one)
  have "only {t, u} (pt_transfer t p n s)" using assms(6) unfolding sig only_def by simp
  then have "baton (pt_transfer t p n s)"
    by (rule b_sig [where t = t and u = u and p = p, rotated 4]) (use assms u in \<open>simp_all add: sig\<close>)
  then show ?thesis using transfer_queues [OF _ assms(4,5)] assms(1) by (simp add: pinv_def)
qed

lemma transfer_inv:
  assumes "pinv s" "pcs s t = Some In_code" "mutex s = Some t" "ids s p = Some t" "p \<noteq> nctx s" "n \<noteq> nctx s"
  shows "pinv (pt_transfer t p n s)"
proof -
  have a: "once s" "only {t} s" "cvs s (nctx s) = []" using assms baton_running [of s t] by (auto simp: pinv_def)
  have q: "queues s" using assms(1) by (simp add: pinv_def)
  show ?thesis
  proof (cases "cvs s n")
    case Nil
    have "baton (pt_transfer t p n s)"
      by (rule b_lost [where t = t and p = p])
        (use a assms Nil in \<open>auto simp: pt_transfer_def signal_nobody intro: only_upd [where A = "{t}" and t = t]\<close>)
    then show ?thesis using transfer_queues [OF q assms(2)] by (simp add: pinv_def)
  next
    case (Cons u us)
    then have own: "cvs s n = [u]" using queues_own [OF q assms(6), of u] by simp
    show ?thesis by (rule transfer_one [OF assms(1) a(1) assms(3,2) _ a(2) own]) (use a assms in simp_all)
  qed
qed

lemma init_inv:
  assumes "pinv s" "pt_init_transfer t s = Some s'"
  shows "pinv s'"
proof -
  from assms(2) obtain c where p: "pcs s t = Some (Init c)" and s': "s' = pt_transfer t c (nctx s) s"
    by (auto simp: pt_init_transfer_def split: option.splits pc.splits)
  from baton_init [OF _ p] assms(1) obtain m where
    a: "once s" "mutex s = Some t" "only {t} s" "cvs s (nctx s) = [m]" "c \<noteq> nctx s" "ids s c = Some t"
    by (auto simp: pinv_def)
  show ?thesis unfolding s' by (rule transfer_one [OF assms(1) a(1,2) p _ a(3,4)]) (use a in simp_all)
qed

lemma destroy_inv:
  assumes "pinv s" "pcs s t = Some In_code" "mutex s = Some t" "ids s cx = Some u" "pcs s u = Some (Wait_on c)"
    and "pt_destroy t cx s = Some s'"
  shows "pinv s'"
proof (cases "u = null_tid s")
  case True
  with assms show ?thesis by (simp add: pt_destroy_def)
next
  case False
  have a: "once s" "only {t} s" "cvs s (nctx s) = []" using assms baton_running [of s t] by (auto simp: pinv_def)
  have q: "queues s" using assms(1) by (simp add: pinv_def)
  have u: "u \<noteq> t" using assms(2,5) by auto
  have s': "s' = set_pc t (Join u) (set_pc u Cancelled (s\<lparr>mutex := None, cvs := (cvs s)(c := remove1 u (cvs s c))\<rparr>))"
    using assms(4-6) False by (auto simp: pt_destroy_def pcancel_def set_pc_def)
  have "only {t, u} s'" using a(2) unfolding s' only_def by simp
  then have "baton s'"
    by (rule b_cancel [where t = t and u = u, rotated 4]) (use a u in \<open>auto simp: s'\<close>)
  moreover have "queues s'"
    using q u assms(2,5) unfolding queues_def s' by auto
  ultimately show ?thesis by (simp add: pinv_def)
qed

lemma create_once:
  assumes "pinv s" "pcs s t = Some In_code"
  shows "once (pt_once t s) \<and> mutex (pt_once t s) = Some t \<and> pcs (pt_once t s) = pcs s \<and> only {t} (pt_once t s)
    \<and> cvs (pt_once t s) (nctx s) = [] \<and> cvs (pt_once t s) = cvs s \<and> nctx (pt_once t s) = nctx s
    \<and> queues (pt_once t s) \<and> ids (pt_once t s) = ids s"
proof -
  have q: "queues s" and b: "baton s" using assms(1) by (simp_all add: pinv_def)
  from baton_running [OF b assms(2)] show ?thesis
  proof (elim disjE conjE)
    assume a: "once s" "mutex s = Some t" "only {t} s" "cvs s (nctx s) = []"
    then have "pt_once t s = s" by (simp add: pt_once_def)
    with a q show ?thesis by simp
  next
    assume a: "\<not> once s" "pcs s = [t \<mapsto> In_code]"
    have "x \<notin> set (cvs s c)" for x c using queues_wait [OF q, of x c] a(2) by (auto split: if_splits)
    then have none: "cvs s c = []" for c by (metis list.set_intros(1) neq_Nil_conv)
    have keep: "(cvs s)(nctx s := []) = cvs s" using none [of "nctx s"] by (metis fun_upd_triv)
    have s1: "pt_once t s = s\<lparr>once := True, mutex := Some t, null_tid := t\<rparr>"
      using a(1) keep by (simp add: pt_once_def)
    have "only {t} (pt_once t s)" using a(2) unfolding s1 only_def by simp
    moreover have "queues (pt_once t s)" using q unfolding s1 queues_def by simp
    ultimately show ?thesis using none by (simp add: s1)
  qed
qed

lemma create_inv:
  assumes "pinv s" "pcs s t = Some In_code" "cx \<noteq> nctx s" "cvs s cx = []"
    and made: "\<forall>u. made = Some u \<longrightarrow> pcs s u = None"
  shows "pinv (pt_create t cx coro made s)"
proof -
  define s1 where "s1 = pt_once t s"
  have c1: "once s1" "mutex s1 = Some t" "pcs s1 = pcs s" "only {t} s1" "cvs s1 (nctx s) = []" "cvs s1 = cvs s"
    "nctx s1 = nctx s" "queues s1" "ids s1 = ids s"
    using create_once [OF assms(1,2)] unfolding s1_def by blast+
  have keep: "s1\<lparr>cvs := (cvs s1)(cx := [])\<rparr> = s1" using assms(4) c1(6) by (simp add: fun_upd_idem)
  have cr: "pt_create t cx coro made s =
      (if coro \<noteq> NULL then pt_transfer t (nctx s1) cx
                (case made of None \<Rightarrow> s1 | Some u \<Rightarrow> set_pc u (Start cx) (s1\<lparr>ids := (ids s1)(cx \<mapsto> u)\<rparr>))
       else s1\<lparr>ids := (ids s1)(cx \<mapsto> null_tid s1)\<rparr>)"
    unfolding pt_create_def s1_def [symmetric] Let_def keep by simp
  have nobody: "pcs s1 x \<noteq> Some (Wait_on cx)" for x
    using queues_wait [OF c1(8), of x cx] assms(4) c1(6) by simp
  show ?thesis
  proof (cases "coro = NULL")
    case True
    have "baton (s1\<lparr>ids := (ids s1)(cx \<mapsto> null_tid s1)\<rparr>)"
      by (rule b_run [where t = t]) (use c1 assms(2) in \<open>simp_all add: only_def\<close>)
    moreover have "queues (s1\<lparr>ids := (ids s1)(cx \<mapsto> null_tid s1)\<rparr>)"
      using c1(8) nobody unfolding queues_def by simp
    ultimately show ?thesis unfolding cr pinv_def using True by simp
  next
    case created: False
    show ?thesis
    proof (cases made)
      case None
      have e: "pt_create t cx coro made s = set_pc t (Sig (nctx s)) s1"
        unfolding cr using None created assms(4) c1(6,7) by (simp add: pt_transfer_def signal_nobody)
      have "baton (set_pc t (Sig (nctx s)) s1)"
        by (rule b_fail [where t = t]) (use c1 in \<open>auto intro: only_upd [where A = "{t}" and t = t]\<close>)
      moreover have "queues (set_pc t (Sig (nctx s)) s1)"
        by (rule set_pc_queues [OF c1(8)]) (use c1 assms(2) in auto)
      ultimately show ?thesis by (simp add: e pinv_def)
    next
      case (Some u)
      then have u: "pcs s u = None" "u \<noteq> t" using made assms(2) by auto
      define s2 where "s2 = set_pc u (Start cx) (s1\<lparr>ids := (ids s1)(cx \<mapsto> u)\<rparr>)"
      have e: "pt_create t cx coro made s = set_pc t (Sig (nctx s)) s2"
        unfolding cr using Some created assms(4) c1(6,7) by (simp add: pt_transfer_def signal_nobody s2_def)
      have "queues s2" using c1(3,8) u nobody unfolding queues_def s2_def by auto
      then have q: "queues (set_pc t (Sig (nctx s)) s2)"
        by (rule set_pc_queues) (use c1 assms(2) u in \<open>auto simp: s2_def\<close>)
      have "only {t, u} (set_pc t (Sig (nctx s)) s2)" using c1(4) by (simp add: only_def s2_def)
      then have "baton (set_pc t (Sig (nctx s)) s2)"
        by (rule b_new [where t = t and u = u and c = cx, rotated 4])
          (use c1 assms(3) u in \<open>simp_all add: s2_def\<close>)
      with q show ?thesis by (simp add: e pinv_def)
    qed
  qed
qed

theorem pstep_inv:
  assumes "pstep s s'" "pinv s"
  shows "pinv s'"
  using assms(1)
proof cases
  case (p_transfer t p n)
  with assms(2) show ?thesis by (simp add: transfer_inv)
next
  case (p_wait t)
  with wait_inv [OF assms(2)] show ?thesis .
next
  case (p_wake t)
  with wake_inv [OF assms(2)] show ?thesis .
next
  case (p_create t u cx coro)
  with assms(2) show ?thesis by (simp add: create_inv)
next
  case (p_create_fails t cx coro)
  with assms(2) show ?thesis by (simp add: create_inv)
next
  case (p_lock t)
  with init_lock_inv [OF assms(2)] show ?thesis .
next
  case (p_init t)
  with init_inv [OF assms(2)] show ?thesis .
next
  case (p_return t)
  with assms(2) show ?thesis by (simp add: return_inv)
next
  case (p_destroy t cx u c)
  with destroy_inv [OF assms(2)] show ?thesis .
next
  case (p_cancelled u)
  with cancelled_inv [OF assms(2)] show ?thesis .
next
  case (p_join t)
  with join_inv [OF assms(2)] show ?thesis .
qed

lemma start_inv: "pinv (pt_start t n)"
  unfolding pinv_def
proof
  show "baton (pt_start t n)" by (rule b_first) (simp_all add: pt_start_def)
  show "queues (pt_start t n)" by (simp add: queues_def pt_start_def)
qed

lemma reachable_inv: "pstep\<^sup>*\<^sup>* (pt_start t n) s \<Longrightarrow> pinv s"
  by (induction rule: rtranclp_induct) (simp_all add: start_inv pstep_inv)

section \<open>Which thread can take a step\<close>

definition moves :: "pthreads \<Rightarrow> tid \<Rightarrow> pthreads \<Rightarrow> bool" where
  "moves s t x \<longleftrightarrow>
     pcs s t = Some In_code
     \<or> (\<exists>p. pcs s t = Some (Sig p)) \<and> pcond_wait t s = Some x
     \<or> pcs s t = Some Woken \<and> mutex s = None \<and> pcond_wake t s = Some x
     \<or> (\<exists>c. pcs s t = Some (Start c)) \<and> mutex s = None \<and> pt_init_lock t s = Some x
     \<or> (\<exists>c. pcs s t = Some (Init c)) \<and> pt_init_transfer t s = Some x
     \<or> pcs s t = Some Cancelled \<and> mutex s = None \<and> pt_cancelled t s = Some x
     \<or> (\<exists>u. pcs s t = Some (Join u) \<and> pcs s u = Some Ended) \<and> mutex s = None \<and> pt_destroy_join t s = Some x"

lemma pstep_moves: "pstep s x \<Longrightarrow> \<exists>t. moves s t x"
proof (erule pstep.cases)
  fix t s0 s' assume "s = s0" "x = s'" "pcond_wait t s0 = Some s'"
  then show ?thesis
    by (intro exI [of _ t]) (auto simp: moves_def pcond_wait_def split: option.splits pc.splits)
next
  fix t s0 s' assume "s = s0" "x = s'" "pcond_wake t s0 = Some s'"
  then show ?thesis by (intro exI [of _ t]) (auto simp: moves_def pcond_wake_def split: if_splits)
next
  fix t s0 s' assume "s = s0" "x = s'" "pt_init_lock t s0 = Some s'"
  then show ?thesis
    by (intro exI [of _ t]) (auto simp: moves_def pt_init_lock_def split: option.splits pc.splits if_splits)
next
  fix t s0 s' assume "s = s0" "x = s'" "pt_init_transfer t s0 = Some s'"
  then show ?thesis
    by (intro exI [of _ t]) (auto simp: moves_def pt_init_transfer_def split: option.splits pc.splits)
next
  fix t s0 s' assume "s = s0" "x = s'" "pt_cancelled t s0 = Some s'"
  then show ?thesis by (intro exI [of _ t]) (auto simp: moves_def pt_cancelled_def split: if_splits)
next
  fix t s0 s' assume "s = s0" "x = s'" "pt_destroy_join t s0 = Some s'"
  then show ?thesis
    by (intro exI [of _ t]) (auto simp: moves_def pt_destroy_join_def split: option.splits pc.splits if_splits)
qed (auto simp: moves_def)

lemma moves_active: "moves s t x \<Longrightarrow> \<not> parked (pcs s t)"
  unfolding moves_def by (elim disjE exE conjE) simp_all

lemma only_moves: "pstep s x \<Longrightarrow> only A s \<Longrightarrow> \<exists>t\<in>A. moves s t x"
  using pstep_moves moves_active unfolding only_def by blast

text \<open>\<open>s'\<close> is the only state that can follow.\<close>

definition forced :: "pthreads \<Rightarrow> pthreads \<Rightarrow> bool" where
  "forced s s' \<longleftrightarrow> (\<forall>x. pstep s x \<longleftrightarrow> x = s')"

lemma forcedI:
  assumes "\<And>x. pstep s x \<Longrightarrow> f = Some x" "f = Some s'" "pstep s s'"
  shows "forced s s'"
  unfolding forced_def
proof (intro allI iffI)
  show "x = s'" if "pstep s x" for x using assms(1) [OF that] assms(2) by simp
  show "pstep s x" if "x = s'" for x using that assms(3) by simp
qed

lemma stuck: "only {} s \<Longrightarrow> \<not> pstep s x"
  using only_moves [of s x "{}"] by auto

lemma forced_wait:
  assumes "only {t, u} s" "mutex s = Some t" "pcs s t = Some (Sig p)"
    and "u = t \<or> pcs s u = Some Woken \<or> (\<exists>c. pcs s u = Some (Start c))"
  shows "forced s (set_pc t (Wait_on p) (s\<lparr>mutex := None, cvs := (cvs s)(p := cvs s p @ [t])\<rparr>))"
proof -
  have w: "pcond_wait t s = Some (set_pc t (Wait_on p) (s\<lparr>mutex := None, cvs := (cvs s)(p := cvs s p @ [t])\<rparr>))"
    using assms(3) by (simp add: pcond_wait_def)
  have "pcond_wait t s = Some x" if "pstep s x" for x
    using only_moves [OF that assms(1)] assms(2-) by (auto simp: moves_def)
  then show ?thesis using w pstep.p_wait [OF w] by (rule forcedI)
qed

lemma forced_wake:
  assumes "only {u} s" "mutex s = None" "pcs s u = Some Woken"
  shows "forced s (set_pc u In_code (s\<lparr>mutex := Some u\<rparr>))"
proof -
  have w: "pcond_wake u s = Some (set_pc u In_code (s\<lparr>mutex := Some u\<rparr>))"
    using assms(2,3) by (simp add: pcond_wake_def)
  have "pcond_wake u s = Some x" if "pstep s x" for x
    using only_moves [OF that assms(1)] assms(2-) by (auto simp: moves_def)
  then show ?thesis using w pstep.p_wake [OF w] by (rule forcedI)
qed

lemma forced_lock:
  assumes "only {u} s" "mutex s = None" "pcs s u = Some (Start c)"
  shows "forced s (set_pc u (Init c) (s\<lparr>mutex := Some u\<rparr>))"
proof -
  have w: "pt_init_lock u s = Some (set_pc u (Init c) (s\<lparr>mutex := Some u\<rparr>))"
    using assms(2,3) by (simp add: pt_init_lock_def)
  have "pt_init_lock u s = Some x" if "pstep s x" for x
    using only_moves [OF that assms(1)] assms(2-) by (auto simp: moves_def)
  then show ?thesis using w pstep.p_lock [OF w] by (rule forcedI)
qed

lemma forced_init:
  assumes "only {u} s" "pcs s u = Some (Init c)"
  shows "forced s (pt_transfer u c (nctx s) s)"
proof -
  have w: "pt_init_transfer u s = Some (pt_transfer u c (nctx s) s)"
    using assms(2) by (simp add: pt_init_transfer_def)
  have "pt_init_transfer u s = Some x" if "pstep s x" for x
    using only_moves [OF that assms(1)] assms(2-) by (auto simp: moves_def)
  then show ?thesis using w pstep.p_init [OF w] by (rule forcedI)
qed

text \<open>A transfer to a thread that waits ends with that thread running and the caller waiting.\<close>

lemma transfer_forced:
  assumes "only {t} s" "pcs s t = Some q" "mutex s = Some t" "cvs s n = [u]" "u \<noteq> t"
    and "((cvs s)(n := [])) p = []"
  shows "forced\<^sup>*\<^sup>* (pt_transfer t p n s)
    (s\<lparr>mutex := Some u, cvs := (cvs s)(n := [], p := [t]), pcs := (pcs s)(t \<mapsto> Wait_on p, u \<mapsto> In_code)\<rparr>)"
proof -
  define s0 where "s0 = pt_transfer t p n s"
  have s0: "s0 = set_pc t (Sig p) (set_pc u Woken (s\<lparr>cvs := (cvs s)(n := [])\<rparr>))"
    using assms(4) by (simp add: s0_def pt_transfer_def signal_one)
  define s1 where "s1 = set_pc t (Wait_on p) (s0\<lparr>mutex := None, cvs := (cvs s0)(p := cvs s0 p @ [t])\<rparr>)"
  have "only {t, u} s0" using assms(1) unfolding s0 only_def by simp
  then have f0: "forced s0 s1"
    unfolding s1_def by (rule forced_wait) (use assms in \<open>auto simp: s0\<close>)
  have s1: "s1 = s\<lparr>mutex := None, cvs := (cvs s)(n := [], p := [t]), pcs := (pcs s)(t \<mapsto> Wait_on p, u \<mapsto> Woken)\<rparr>"
    using assms(5,6) by (auto simp: s1_def s0 set_pc_def fun_upd_twist split: if_splits)
  have "only {u} s1" using assms(1) unfolding s1 only_def by simp
  then have "forced s1 (set_pc u In_code (s1\<lparr>mutex := Some u\<rparr>))"
    by (rule forced_wake) (simp_all add: s1)
  moreover have "set_pc u In_code (s1\<lparr>mutex := Some u\<rparr>) =
      s\<lparr>mutex := Some u, cvs := (cvs s)(n := [], p := [t]), pcs := (pcs s)(t \<mapsto> Wait_on p, u \<mapsto> In_code)\<rparr>"
    by (simp add: s1 set_pc_def)
  ultimately have "forced\<^sup>*\<^sup>* s1
      (s\<lparr>mutex := Some u, cvs := (cvs s)(n := [], p := [t]), pcs := (pcs s)(t \<mapsto> Wait_on p, u \<mapsto> In_code)\<rparr>)"
    by simp
  with f0 show ?thesis unfolding s0_def by (rule converse_rtranclp_into_rtranclp)
qed

lemma forced_trans: "forced s s1 \<Longrightarrow> forced\<^sup>*\<^sup>* s1 s2 \<Longrightarrow> forced\<^sup>*\<^sup>* s s2"
  by (rule converse_rtranclp_into_rtranclp)

text \<open>
  \<open>coro_create\<close> starts the thread, which locks the mutex, transfers back and waits on its context.
\<close>

lemma create_forced:
  assumes "pinv s" "pcs s t = Some In_code" "pcs s u = None" "cx \<noteq> nctx s" "cvs s cx = []" "coro \<noteq> NULL"
  shows "forced\<^sup>*\<^sup>* (pt_create t cx coro (Some u) s)
    ((pt_once t s)\<lparr>ids := (ids s)(cx \<mapsto> u), cvs := (cvs s)(cx := [u]), pcs := (pcs s)(u \<mapsto> Wait_on cx)\<rparr>)"
proof -
  define s1 where "s1 = pt_once t s"
  have c1: "mutex s1 = Some t" "pcs s1 = pcs s" "only {t} s1" "cvs s1 (nctx s) = []" "cvs s1 = cvs s"
    "nctx s1 = nctx s" "ids s1 = ids s"
    using create_once [OF assms(1,2)] unfolding s1_def by blast+
  have u: "u \<noteq> t" using assms(2,3) by auto
  have keep: "s1\<lparr>cvs := (cvs s1)(cx := [])\<rparr> = s1" using assms(5) c1(5) by (simp add: fun_upd_idem)
  define a where "a = s1\<lparr>ids := (ids s)(cx \<mapsto> u), pcs := (pcs s)(u \<mapsto> Start cx, t \<mapsto> Sig (nctx s))\<rparr>"
  have a: "pt_create t cx coro (Some u) s = a"
    unfolding pt_create_def s1_def [symmetric] Let_def keep a_def
    using assms(5,6) c1(2,5-7) by (simp add: pt_transfer_def signal_nobody set_pc_def)
  define b where "b = s1\<lparr>mutex := None, cvs := (cvs s)(nctx s := [t]), ids := (ids s)(cx \<mapsto> u),
      pcs := (pcs s)(u \<mapsto> Start cx, t \<mapsto> Wait_on (nctx s))\<rparr>"
  have "only {t, u} a" using c1(2,3) by (simp add: only_def a_def)
  then have "forced a (set_pc t (Wait_on (nctx s)) (a\<lparr>mutex := None, cvs := (cvs a)(nctx s := cvs a (nctx s) @ [t])\<rparr>))"
    by (rule forced_wait) (use c1(1) u in \<open>auto simp: a_def\<close>)
  moreover have "set_pc t (Wait_on (nctx s)) (a\<lparr>mutex := None, cvs := (cvs a)(nctx s := cvs a (nctx s) @ [t])\<rparr>) = b"
    using c1(4,5) by (simp add: a_def b_def set_pc_def)
  ultimately have ab: "forced a b" by simp
  define c where "c = set_pc u (Init cx) (b\<lparr>mutex := Some u\<rparr>)"
  have "only {u} b" using c1(2,3) by (simp add: only_def b_def)
  then have bc: "forced b c" unfolding c_def by (rule forced_lock) (use u in \<open>simp_all add: b_def\<close>)
  have cu: "only {u} c" using c1(2,3) by (simp add: only_def b_def c_def)
  then have cd: "forced c (pt_transfer u cx (nctx s) c)"
    using forced_init [OF cu, of cx] c1(6) by (simp add: c_def b_def)
  have "forced\<^sup>*\<^sup>* (pt_transfer u cx (nctx s) c)
      (c\<lparr>mutex := Some t, cvs := (cvs c)(nctx s := [], cx := [u]), pcs := (pcs c)(u \<mapsto> Wait_on cx, t \<mapsto> In_code)\<rparr>)"
    by (rule transfer_forced [OF cu, where q = "Init cx"]) (use u assms(4,5) in \<open>simp_all add: c_def b_def\<close>)
  moreover have "(cvs s)(nctx s := [], cx := [u]) = (cvs s)(cx := [u])"
    using c1(4,5) by (auto simp: fun_upd_def)
  moreover have "(pcs s)(t \<mapsto> In_code, u \<mapsto> Wait_on cx) = (pcs s)(u \<mapsto> Wait_on cx)"
    using assms(2) by (auto simp: fun_upd_def)
  moreover have "s1\<lparr>ids := (ids s)(cx \<mapsto> u), mutex := Some t, cvs := (cvs s)(cx := [u]), pcs := (pcs s)(u \<mapsto> Wait_on cx)\<rparr>
      = s1\<lparr>ids := (ids s)(cx \<mapsto> u), cvs := (cvs s)(cx := [u]), pcs := (pcs s)(u \<mapsto> Wait_on cx)\<rparr>"
    using c1(1) by (intro pthreads.equality) simp_all
  ultimately have "forced\<^sup>*\<^sup>* (pt_transfer u cx (nctx s) c)
      (s1\<lparr>ids := (ids s)(cx \<mapsto> u), cvs := (cvs s)(cx := [u]), pcs := (pcs s)(u \<mapsto> Wait_on cx)\<rparr>)"
    using u by (simp add: c_def b_def set_pc_def fun_upd_twist)
  with cd have "forced\<^sup>*\<^sup>* c (s1\<lparr>ids := (ids s)(cx \<mapsto> u), cvs := (cvs s)(cx := [u]), pcs := (pcs s)(u \<mapsto> Wait_on cx)\<rparr>)"
    by (rule forced_trans)
  then show ?thesis unfolding a s1_def [symmetric] by (intro forced_trans [OF ab] forced_trans [OF bc])
qed

lemma forced_pstep: "forced\<^sup>*\<^sup>* s s' \<Longrightarrow> pstep\<^sup>*\<^sup>* s s'"
  by (erule rtranclp_mono [THEN predicate2D, rotated]) (auto simp: forced_def)

lemma forced_cancelled:
  assumes "only {t, u} s" "mutex s = None" "pcs s t = Some (Join u)" "pcs s u = Some Cancelled"
  shows "forced s (set_pc u Ended s)"
proof -
  have w: "pt_cancelled u s = Some (set_pc u Ended s)" using assms(2,4) by (simp add: pt_cancelled_def)
  have "pt_cancelled u s = Some x" if "pstep s x" for x
    using only_moves [OF that assms(1)] assms(2-) by (auto simp: moves_def)
  then show ?thesis using w pstep.p_cancelled [OF w] by (rule forcedI)
qed

lemma forced_join:
  assumes "only {t} s" "mutex s = None" "pcs s t = Some (Join u)" "pcs s u = Some Ended"
  shows "forced s (set_pc t In_code (s\<lparr>mutex := Some t\<rparr>))"
proof -
  have w: "pt_destroy_join t s = Some (set_pc t In_code (s\<lparr>mutex := Some t\<rparr>))"
    using assms(2-4) by (simp add: pt_destroy_join_def)
  have "pt_destroy_join t s = Some x" if "pstep s x" for x
    using only_moves [OF that assms(1)] assms(2-) by (auto simp: moves_def)
  then show ?thesis using w pstep.p_join [OF w] by (rule forcedI)
qed

section \<open>An example\<close>

text \<open>The main thread with an empty context and two coroutines.\<close>

definition pt_empty :: pthreads where
  "pt_empty = pt_create 1 200 NULL None (pt_start 1 100)"

definition pt_two :: pthreads where
  "pt_two = \<lparr>mutex = Some 1, cvs = (\<lambda>_. [])(300 := [2], 400 := [3]),
     pcs = [1 \<mapsto> In_code, 2 \<mapsto> Wait_on 300, 3 \<mapsto> Wait_on 400], ids = [200 \<mapsto> 1, 300 \<mapsto> 2, 400 \<mapsto> 3],
     nctx = 100, once = True, null_tid = 1\<rparr>"

lemma pt_empty_eq:
  "pt_empty = \<lparr>mutex = Some 1, cvs = (\<lambda>_. []), pcs = [1 \<mapsto> In_code], ids = [200 \<mapsto> 1], nctx = 100, once = True,
     null_tid = 1\<rparr>"
  by (simp add: pt_empty_def pt_create_def pt_once_def pt_start_def fun_upd_idem)

lemma pt_empty_reachable: "pstep\<^sup>*\<^sup>* (pt_start 1 100) pt_empty"
  unfolding pt_empty_def
  by (rule r_into_rtranclp, rule pstep.p_create_fails) (simp_all add: pt_start_def)

lemma create_reaches:
  assumes "pstep\<^sup>*\<^sup>* (pt_start m k) s" "pcs s t = Some In_code" "pcs s u = None" "cx \<noteq> nctx s" "cvs s cx = []"
  shows "pstep\<^sup>*\<^sup>* (pt_start m k)
    ((pt_once t s)\<lparr>ids := (ids s)(cx \<mapsto> u), cvs := (cvs s)(cx := [u]), pcs := (pcs s)(u \<mapsto> Wait_on cx)\<rparr>)"
proof -
  have "pstep s (pt_create t cx 1 (Some u) s)" using assms(2-5) by (rule pstep.p_create)
  with assms(1) have "pstep\<^sup>*\<^sup>* (pt_start m k) (pt_create t cx 1 (Some u) s)" by (rule rtranclp.rtrancl_into_rtrancl)
  moreover have "pstep\<^sup>*\<^sup>* (pt_create t cx 1 (Some u) s)
    ((pt_once t s)\<lparr>ids := (ids s)(cx \<mapsto> u), cvs := (cvs s)(cx := [u]), pcs := (pcs s)(u \<mapsto> Wait_on cx)\<rparr>)"
    by (rule forced_pstep [OF create_forced [OF reachable_inv [OF assms(1)] assms(2-5)]]) simp
  ultimately show ?thesis by simp
qed

lemma pt_two_reachable: "pstep\<^sup>*\<^sup>* (pt_start 1 100) pt_two"
proof -
  let ?one = "(pt_once 1 pt_empty)\<lparr>ids := (ids pt_empty)(300 \<mapsto> 2), cvs := (cvs pt_empty)(300 := [2]),
    pcs := (pcs pt_empty)(2 \<mapsto> Wait_on 300)\<rparr>"
  have "pstep\<^sup>*\<^sup>* (pt_start 1 100) ?one"
    by (rule create_reaches [OF pt_empty_reachable]) (simp_all add: pt_empty_eq)
  then have "pstep\<^sup>*\<^sup>* (pt_start 1 100) ((pt_once 1 ?one)\<lparr>ids := (ids ?one)(400 \<mapsto> 3), cvs := (cvs ?one)(400 := [3]),
      pcs := (pcs ?one)(3 \<mapsto> Wait_on 400)\<rparr>)"
    by (rule create_reaches) (simp_all add: pt_empty_eq pt_once_def)
  then show ?thesis by (simp add: pt_empty_eq pt_once_def pt_two_def)
qed

section \<open>Properties\<close>

text \<open>C34: While no thread wakes without a signal, at most one thread of the backend runs the code of its coroutine
  or is in \<open>coro_transfer\<close> before its wait, and from the first \<open>coro_create\<close> on this thread holds the mutex.
\<close>

theorem pthread_one_runs:
  assumes "pstep\<^sup>*\<^sup>* (pt_start m k) s"
    and "pcs s t = Some In_code \<or> pcs s t = Some (Sig p)" "pcs s u = Some In_code \<or> pcs s u = Some (Sig q)"
  shows "t = u \<and> (once s \<longrightarrow> mutex s = Some t)"
proof -
  have b: "baton s" using reachable_inv [OF assms(1)] by (simp add: pinv_def)
  have "once s \<and> mutex s = Some x \<or> \<not> once s \<and> pcs s = [x \<mapsto> In_code]"
    if "pcs s x = Some In_code \<or> pcs s x = Some (Sig r)" for x r
    using that baton_running [OF b, of x] baton_sig [OF b, of x r] by blast
  from this [OF assms(2)] this [OF assms(3)] assms(3) show ?thesis by (auto split: if_splits)
qed

theorem pthread_one_runs_witness:
  "mutex pt_two = Some 1"
  using pthread_one_runs [OF pt_two_reachable, of 1 0 1 0] by (simp add: pt_two_def)

text \<open>C35: A \<open>coro_transfer\<close> to the context of a waiting coroutine switches to it: without a spurious wake-up every
  execution comes to the state in which that coroutine runs and holds the mutex, the caller waits on its own
  context, and nothing else has changed.
\<close>

theorem pthread_transfer_switches:
  assumes "pstep\<^sup>*\<^sup>* (pt_start m k) s" "pcs s t = Some In_code" "mutex s = Some t" "ids s p = Some t" "p \<noteq> nctx s"
    and "n \<noteq> nctx s" "pcs s u = Some (Wait_on n)"
  shows "forced\<^sup>*\<^sup>* (pt_transfer t p n s)
    (s\<lparr>mutex := Some u, cvs := (cvs s)(n := [], p := [t]), pcs := (pcs s)(t \<mapsto> Wait_on p, u \<mapsto> In_code)\<rparr>)"
proof -
  have i: "pinv s" by (rule reachable_inv [OF assms(1)])
  then have q: "queues s" and b: "baton s" by (simp_all add: pinv_def)
  have a: "only {t} s" using baton_running [OF b assms(2)] assms(3) by auto
  have "cvs s n = [u]" by (rule queues_own [OF q assms(6)]) (use queues_wait [OF q] assms(7) in simp)
  moreover have "cvs s p = []"
  proof (rule ccontr)
    assume "cvs s p \<noteq> []"
    then obtain x where x: "x \<in> set (cvs s p)" by (cases "cvs s p") auto
    then have "x = t" using queues_ids [OF q assms(5) x] assms(4) by simp
    with x queues_wait [OF q, of t p] assms(2) show False by simp
  qed
  moreover have "u \<noteq> t" using assms(2,7) by auto
  ultimately show ?thesis by (intro transfer_forced [OF a assms(2,3)]) simp_all
qed

theorem pthread_transfer_switches_witness:
  "forced\<^sup>*\<^sup>* (pt_transfer 1 200 300 pt_two)
    (pt_two\<lparr>mutex := Some 2, cvs := (cvs pt_two)(300 := [], 200 := [1]),
       pcs := (pcs pt_two)(1 \<mapsto> Wait_on 200, 2 \<mapsto> In_code)\<rparr>)"
  by (rule pthread_transfer_switches [OF pt_two_reachable]) (simp_all add: pt_two_def)

text \<open>
  \<open>coro_create\<close> returns: without a spurious wake-up every execution comes to the state in which the caller
  runs again and holds the mutex and the new thread waits on the context of the new coroutine, before its
  function.
\<close>

theorem pthread_create_returns:
  assumes "pstep\<^sup>*\<^sup>* (pt_start m k) s" "pcs s t = Some In_code" "pcs s u = None" "cx \<noteq> nctx s" "cvs s cx = []"
    and "coro \<noteq> NULL"
  shows "forced\<^sup>*\<^sup>* (pt_create t cx coro (Some u) s)
    ((pt_once t s)\<lparr>ids := (ids s)(cx \<mapsto> u), cvs := (cvs s)(cx := [u]), pcs := (pcs s)(u \<mapsto> Wait_on cx)\<rparr>)"
  by (rule create_forced [OF reachable_inv [OF assms(1)] assms(2-6)])

theorem pthread_create_returns_witness:
  "forced\<^sup>*\<^sup>* (pt_create 1 500 4096 (Some 4) pt_two)
    ((pt_once 1 pt_two)\<lparr>ids := (ids pt_two)(500 \<mapsto> 4), cvs := (cvs pt_two)(500 := [4]),
       pcs := (pcs pt_two)(4 \<mapsto> Wait_on 500)\<rparr>)"
  by (rule pthread_create_returns [OF pt_two_reachable]) (simp_all add: pt_two_def)

text \<open>
  \<open>coro_destroy\<close> of a coroutine that waits ends its thread: without a spurious wake-up every execution comes to
  the state in which that thread has ended and waits nowhere, and the caller runs and holds the mutex again.
\<close>

theorem pthread_destroy_ends:
  assumes "pstep\<^sup>*\<^sup>* (pt_start m k) s" "pcs s t = Some In_code" "mutex s = Some t" "ids s cx = Some u" "u \<noteq> null_tid s"
    and "pcs s u = Some (Wait_on cx)" "cx \<noteq> nctx s"
  shows "\<exists>s1. pt_destroy t cx s = Some s1 \<and> forced\<^sup>*\<^sup>* s1 (s\<lparr>cvs := (cvs s)(cx := []), pcs := (pcs s)(u \<mapsto> Ended)\<rparr>)"
proof -
  have i: "pinv s" by (rule reachable_inv [OF assms(1)])
  then have q: "queues s" and b: "baton s" by (simp_all add: pinv_def)
  have a: "only {t} s" using baton_running [OF b assms(2)] assms(3) by auto
  have own: "cvs s cx = [u]" by (rule queues_own [OF q assms(7)]) (use queues_wait [OF q] assms(6) in simp)
  have u: "u \<noteq> t" using assms(2,6) by auto
  let ?s1 = "s\<lparr>cvs := (cvs s)(cx := []), mutex := None, pcs := (pcs s)(u \<mapsto> Cancelled, t \<mapsto> Join u)\<rparr>"
  have d: "pt_destroy t cx s = Some ?s1"
    using assms(4-6) own by (simp add: pt_destroy_def pcancel_def set_pc_def)
  have "only {t, u} ?s1" using a by (simp add: only_def)
  then have 1: "forced ?s1 (set_pc u Ended ?s1)" by (rule forced_cancelled) (use u in simp_all)
  let ?s2 = "set_pc u Ended ?s1"
  have "only {t} ?s2" using a by (simp add: only_def)
  then have 2: "forced ?s2 (set_pc t In_code (?s2\<lparr>mutex := Some t\<rparr>))"
    by (rule forced_join [where u = u]) (use u in simp_all)
  have "(pcs s)(u \<mapsto> Cancelled, t \<mapsto> Join u, u \<mapsto> Ended, t \<mapsto> In_code) = (pcs s)(u \<mapsto> Ended)"
    using assms(2) u by (auto simp: fun_upd_def)
  then have "set_pc t In_code (?s2\<lparr>mutex := Some t\<rparr>) = s\<lparr>cvs := (cvs s)(cx := []), pcs := (pcs s)(u \<mapsto> Ended)\<rparr>"
    using assms(3) by (intro pthreads.equality) simp_all
  with 2 have "forced ?s2 (s\<lparr>cvs := (cvs s)(cx := []), pcs := (pcs s)(u \<mapsto> Ended)\<rparr>)" by simp
  with 1 have "forced\<^sup>*\<^sup>* ?s1 (s\<lparr>cvs := (cvs s)(cx := []), pcs := (pcs s)(u \<mapsto> Ended)\<rparr>)"
    by (blast intro: forced_trans)
  with d show ?thesis by blast
qed

theorem pthread_destroy_ends_witness:
  "\<exists>s1. pt_destroy 1 300 pt_two = Some s1
    \<and> forced\<^sup>*\<^sup>* s1 (pt_two\<lparr>cvs := (cvs pt_two)(300 := []), pcs := (pcs pt_two)(2 \<mapsto> Ended)\<rparr>)"
  by (rule pthread_destroy_ends [OF pt_two_reachable]) (simp_all add: pt_two_def)

text \<open>
  The result of \<open>pthread_create\<close> is not looked at: when no thread is made, \<open>coro_create\<close> waits on \<open>nctx\<close> and
  every execution comes to a state in which no thread takes a step any more.
\<close>

theorem pthread_create_failure_hangs:
  assumes "pstep\<^sup>*\<^sup>* (pt_start m k) s" "pcs s t = Some In_code" "cx \<noteq> nctx s" "cvs s cx = []" "coro \<noteq> NULL"
  shows "\<exists>d. forced (pt_create t cx coro None s) d \<and> pcs d t = Some (Wait_on (nctx s)) \<and> \<not> (\<exists>x. pstep d x)"
proof -
  define s1 where "s1 = pt_once t s"
  have c1: "mutex s1 = Some t" "only {t} s1" "cvs s1 = cvs s" "nctx s1 = nctx s"
    using create_once [OF reachable_inv [OF assms(1)] assms(2)] unfolding s1_def by blast+
  have keep: "s1\<lparr>cvs := (cvs s1)(cx := [])\<rparr> = s1" using assms(4) c1(3) by (simp add: fun_upd_idem)
  have a: "pt_create t cx coro None s = set_pc t (Sig (nctx s)) s1"
    unfolding pt_create_def s1_def [symmetric] Let_def keep
    using assms(4,5) c1(3,4) by (simp add: pt_transfer_def signal_nobody)
  let ?a = "set_pc t (Sig (nctx s)) s1"
  let ?d = "set_pc t (Wait_on (nctx s)) (?a\<lparr>mutex := None, cvs := (cvs ?a)(nctx s := cvs ?a (nctx s) @ [t])\<rparr>)"
  have "only {t, t} ?a" using c1(2) by (simp add: only_def)
  then have "forced ?a ?d" by (rule forced_wait) (use c1(1) in simp_all)
  moreover have "only {} ?d" using c1(2) by (simp add: only_def)
  ultimately show ?thesis using stuck [of ?d] unfolding a by (intro exI [of _ ?d]) simp
qed

theorem pthread_create_failure_hangs_witness:
  "\<exists>d. forced (pt_create 1 500 4096 None pt_two) d \<and> pcs d 1 = Some (Wait_on (nctx pt_two)) \<and> \<not> (\<exists>x. pstep d x)"
  by (rule pthread_create_failure_hangs [OF pt_two_reachable]) (simp_all add: pt_two_def)

text \<open>\<open>pthread_cond_wait\<close> is not in a loop over a condition: with one spurious wake-up of a third coroutine
  during a transfer that coroutine can run, with the mutex, while the one the transfer was to is still to wake.
\<close>

theorem pthread_spurious_runs_other:
  assumes "pcs s t = Some In_code" "mutex s = Some t" "cvs s n = [u]" "pcs s v = Some (Wait_on c)" "v \<noteq> u"
    and "t \<noteq> u" "c \<noteq> n"
  shows "\<exists>s1 s2. spurious (pt_transfer t p n s) s1 \<and> pstep\<^sup>*\<^sup>* s1 s2 \<and> pcs s2 v = Some In_code
    \<and> mutex s2 = Some v \<and> pcs s2 u = Some Woken"
proof -
  let ?s0 = "pt_transfer t p n s"
  have v: "v \<noteq> t" using assms(1,4) by auto
  have s0: "?s0 = set_pc t (Sig p) (set_pc u Woken (s\<lparr>cvs := (cvs s)(n := [])\<rparr>))"
    using assms(3) by (simp add: pt_transfer_def signal_one)
  let ?s1 = "set_pc v Woken (?s0\<lparr>cvs := (cvs ?s0)(c := remove1 v (cvs ?s0 c))\<rparr>)"
  let ?s2 = "set_pc t (Wait_on p) (?s1\<lparr>mutex := None, cvs := (cvs ?s1)(p := cvs ?s1 p @ [t])\<rparr>)"
  let ?s3 = "set_pc v In_code (?s2\<lparr>mutex := Some v\<rparr>)"
  have "spurious ?s0 ?s1" by (rule spurious.intros) (use assms v in \<open>simp add: s0\<close>)
  moreover have "pcond_wait t ?s1 = Some ?s2" using v by (simp add: pcond_wait_def pt_transfer_def)
  then have "pstep ?s1 ?s2" by (rule pstep.p_wait)
  moreover have "pcond_wake v ?s2 = Some ?s3" using v by (simp add: pcond_wake_def)
  then have "pstep ?s2 ?s3" by (rule pstep.p_wake)
  moreover have "pcs ?s3 v = Some In_code" "mutex ?s3 = Some v" "pcs ?s3 u = Some Woken"
    using assms v by (simp_all add: s0)
  ultimately show ?thesis by (intro exI [of _ ?s1] exI [of _ ?s3]) (meson converse_rtranclp_into_rtranclp r_into_rtranclp)
qed

theorem pthread_spurious_runs_other_witness:
  "pstep\<^sup>*\<^sup>* (pt_start 1 100) pt_two
   \<and> (\<exists>s1 s2. spurious (pt_transfer 1 200 300 pt_two) s1 \<and> pstep\<^sup>*\<^sup>* s1 s2 \<and> pcs s2 3 = Some In_code
       \<and> mutex s2 = Some 3 \<and> pcs s2 2 = Some Woken)"
  by (intro conjI pt_two_reachable pthread_spurious_runs_other [where c = 400]) (simp_all add: pt_two_def)

end
