(* ===== verification/Coro_I386.thy ===== *)
theory Coro_I386
  imports Prelude
begin

text \<open>
  The 32-bit variants of CORO_ASM in src/cs_coro.c, which the project does not build: \<open>coro_transfer\<close> as a list of
  instructions on a memory of 32-bit cells, for GNU/Linux and, with CORO_WIN_TIB, for Windows, where three words of
  the thread information block belong to a context; and the stack \<open>coro_create\<close> prepares for them.
\<close>

type_synonym memory32 = "uint32 \<rightharpoonup> uint32"

section \<open>The machine\<close>

record callee32 =
  ebp :: uint32
  ebx :: uint32
  esi :: uint32
  edi :: uint32

text \<open>\<open>fs0\<close>, \<open>fs4\<close> and \<open>fs8\<close> are the words of the thread information block: exception list, stack base, stack limit.\<close>

record cpu32 = callee32 +
  esp :: uint32
  eax :: uint32
  edx :: uint32
  ecx :: uint32
  eip :: uint32
  fs0 :: uint32
  fs4 :: uint32
  fs8 :: uint32
  mem32 :: memory32

datatype reg32 = EBP | EBX | ESI | EDI | ESP | EAX | EDX | ECX | FS0 | FS4 | FS8

fun get_reg32 :: "reg32 \<Rightarrow> cpu32 \<Rightarrow> uint32" where
  "get_reg32 EBP c = ebp c"
| "get_reg32 EBX c = ebx c"
| "get_reg32 ESI c = esi c"
| "get_reg32 EDI c = edi c"
| "get_reg32 ESP c = esp c"
| "get_reg32 EAX c = eax c"
| "get_reg32 EDX c = edx c"
| "get_reg32 ECX c = ecx c"
| "get_reg32 FS0 c = fs0 c"
| "get_reg32 FS4 c = fs4 c"
| "get_reg32 FS8 c = fs8 c"

fun set_reg32 :: "reg32 \<Rightarrow> uint32 \<Rightarrow> cpu32 \<Rightarrow> cpu32" where
  "set_reg32 EBP v c = c\<lparr>ebp := v\<rparr>"
| "set_reg32 EBX v c = c\<lparr>ebx := v\<rparr>"
| "set_reg32 ESI v c = c\<lparr>esi := v\<rparr>"
| "set_reg32 EDI v c = c\<lparr>edi := v\<rparr>"
| "set_reg32 ESP v c = c\<lparr>esp := v\<rparr>"
| "set_reg32 EAX v c = c\<lparr>eax := v\<rparr>"
| "set_reg32 EDX v c = c\<lparr>edx := v\<rparr>"
| "set_reg32 ECX v c = c\<lparr>ecx := v\<rparr>"
| "set_reg32 FS0 v c = c\<lparr>fs0 := v\<rparr>"
| "set_reg32 FS4 v c = c\<lparr>fs4 := v\<rparr>"
| "set_reg32 FS8 v c = c\<lparr>fs8 := v\<rparr>"

definition aligned4 :: "uint32 \<Rightarrow> bool" where
  "aligned4 a \<longleftrightarrow> uint a mod 4 = 0"

definition load32 :: "memory32 \<Rightarrow> uint32 \<Rightarrow> uint32 option" where
  "load32 m a = (if aligned4 a then m a else None)"

definition store32 :: "uint32 \<Rightarrow> uint32 \<Rightarrow> memory32 \<Rightarrow> memory32 option" where
  "store32 a v m = (if aligned4 a \<and> m a \<noteq> None then Some (m(a \<mapsto> v)) else None)"

datatype instr32 = Pushl reg32 | Popl reg32 | Storel reg32 reg32 | Loadl reg32 reg32 | Jmpl reg32

fun exec32 :: "instr32 \<Rightarrow> cpu32 \<Rightarrow> cpu32 option" where
  "exec32 (Pushl r) c = do {
     m \<leftarrow> store32 (esp c - 4) (get_reg32 r c) (mem32 c);
     Some (c\<lparr>esp := esp c - 4, mem32 := m\<rparr>)
   }"
| "exec32 (Popl r) c = do {
     v \<leftarrow> load32 (mem32 c) (esp c);
     Some (set_reg32 r v (c\<lparr>esp := esp c + 4\<rparr>))
   }"
| "exec32 (Storel a b) c = do {
     m \<leftarrow> store32 (get_reg32 b c) (get_reg32 a c) (mem32 c);
     Some (c\<lparr>mem32 := m\<rparr>)
   }"
| "exec32 (Loadl a b) c = do {
     v \<leftarrow> load32 (mem32 c) (get_reg32 a c);
     Some (set_reg32 b v c)
   }"
| "exec32 (Jmpl r) c = Some (c\<lparr>eip := get_reg32 r c\<rparr>)"

section \<open>The code\<close>

text \<open>The arguments are in \<open>eax\<close> and \<open>edx\<close> (\<open>regparm(2)\<close>).  \<open>win\<close> is CORO_WIN_TIB.\<close>

definition num_saved32 :: "bool \<Rightarrow> nat" where
  "num_saved32 win = (if win then 7 else 4)"

definition transfer_code32 :: "bool \<Rightarrow> instr32 list" where
  "transfer_code32 win =
     [Pushl EBP, Pushl EBX, Pushl ESI, Pushl EDI] @
     (if win then [Pushl FS0, Pushl FS4, Pushl FS8] else []) @
     [Storel ESP EAX, Loadl EDX ESP] @
     (if win then [Popl FS8, Popl FS4, Popl FS0] else []) @
     [Popl EDI, Popl ESI, Popl EBX, Popl EBP, Popl ECX, Jmpl ECX]"

definition coro_transfer32 :: "bool \<Rightarrow> cpu32 \<Rightarrow> cpu32 option" where
  "coro_transfer32 win c = fold_option exec32 (transfer_code32 win) c"

text \<open>\<open>push_ctx ctx v\<close> is \<open>*--ctx->sp = v\<close>.\<close>

definition push_ctx :: "uint32 \<Rightarrow> uint32 \<Rightarrow> memory32 \<Rightarrow> memory32 option" where
  "push_ctx ctx v m = do {
     sp \<leftarrow> load32 m ctx;
     m \<leftarrow> store32 ctx (sp - 4) m;
     store32 (sp - 4) v m
   }"

fun clear_cells32 :: "nat \<Rightarrow> uint32 \<Rightarrow> memory32 \<Rightarrow> memory32 option" where
  "clear_cells32 0 p m = Some m"
| "clear_cells32 (Suc n) p m = Option.bind (store32 p 0 m) (clear_cells32 n (p + 4))"

definition create_frame32 :: "bool \<Rightarrow> uint32 \<Rightarrow> uint32 \<Rightarrow> uint32 \<Rightarrow> uint32 \<Rightarrow> uint32 \<Rightarrow> memory32 \<Rightarrow> memory32 option" where
  "create_frame32 win abort_fn init_fn ctx sptr ssize m = do {
     m \<leftarrow> store32 ctx (ssize + sptr) m;
     m \<leftarrow> push_ctx ctx abort_fn m;
     m \<leftarrow> push_ctx ctx init_fn m;
     m \<leftarrow> (if win then do {
             m \<leftarrow> push_ctx ctx 0 m;
             m \<leftarrow> push_ctx ctx (sptr + ssize) m;
             push_ctx ctx sptr m
           } else Some m);
     sp \<leftarrow> load32 m ctx;
     m \<leftarrow> store32 ctx (sp - 4 * of_nat (num_saved32 win)) m;
     clear_cells32 (num_saved32 win) (sp - 4 * of_nat (num_saved32 win)) m
   }"

section \<open>Lemmas\<close>

lemma aligned4_minus [simp]: "uint k mod 4 = 0 \<Longrightarrow> aligned4 (a - k) = aligned4 a"
proof -
  assume k: "uint k mod 4 = 0"
  have m: "x mod 4294967296 mod 4 = x mod 4" for x :: int
    using mod_mod_cancel [of 4 "4294967296 :: int" x] by simp
  have "(uint a - uint k) mod 4 = uint a mod 4" using k by (metis diff_zero mod_diff_right_eq)
  then show ?thesis by (simp add: aligned4_def uint_word_ariths m)
qed

text \<open>Where a switch leaves the registers: below the stack pointer.\<close>

definition frame32 :: "bool \<Rightarrow> uint32 \<Rightarrow> uint32 set" where
  "frame32 win sp = {sp - 4, sp - 8, sp - 12, sp - 16} \<union> (if win then {sp - 20, sp - 24, sp - 28} else {})"

definition after_save32 :: "bool \<Rightarrow> cpu32 \<Rightarrow> memory32" where
  "after_save32 win c =
     (let m = (mem32 c)(esp c - 4 \<mapsto> ebp c, esp c - 8 \<mapsto> ebx c, esp c - 12 \<mapsto> esi c, esp c - 16 \<mapsto> edi c)
      in if win
         then m(esp c - 20 \<mapsto> fs0 c, esp c - 24 \<mapsto> fs4 c, esp c - 28 \<mapsto> fs8 c, eax c \<mapsto> esp c - 28)
         else m(eax c \<mapsto> esp c - 16))"

text \<open>A saved context: the registers, the words of the thread information block, and the return address.\<close>

definition saved32 ::
  "bool \<Rightarrow> memory32 \<Rightarrow> uint32 \<Rightarrow> 'a callee32_scheme \<Rightarrow> uint32 \<times> uint32 \<times> uint32 \<Rightarrow> uint32 \<Rightarrow> uint32 \<Rightarrow> bool" where
  "saved32 win m ctx k tib sp ra \<longleftrightarrow>
     aligned4 ctx \<and> aligned4 sp \<and> m ctx = Some (if win then sp - 28 else sp - 16) \<and>
     m (sp - 16) = Some (edi k) \<and> m (sp - 12) = Some (esi k) \<and> m (sp - 8) = Some (ebx k) \<and>
     m (sp - 4) = Some (ebp k) \<and> m sp = Some ra \<and>
     (win \<longrightarrow> m (sp - 20) = Some (fst tib) \<and> m (sp - 24) = Some (fst (snd tib)) \<and> m (sp - 28) = Some (snd (snd tib)))"

definition written32 :: "bool \<Rightarrow> cpu32 \<Rightarrow> uint32 set" where
  "written32 win c = frame32 win (esp c) \<union> {eax c}"

text \<open>What a caller provides: room on its stack, and a context outside its frame.\<close>

definition can_switch32 :: "bool \<Rightarrow> cpu32 \<Rightarrow> bool" where
  "can_switch32 win c \<longleftrightarrow> aligned4 (esp c) \<and> aligned4 (eax c) \<and> (\<forall>a \<in> written32 win c. mem32 c a \<noteq> None) \<and>
     eax c \<notin> frame32 win (esp c) \<union> {esp c}"

definition restored32 :: "bool \<Rightarrow> 'a callee32_scheme \<Rightarrow> uint32 \<times> uint32 \<times> uint32 \<Rightarrow> cpu32 \<Rightarrow> cpu32" where
  "restored32 win k tib c =
     (let c = c\<lparr>ebp := ebp k, ebx := ebx k, esi := esi k, edi := edi k\<rparr>
      in if win then c\<lparr>fs0 := fst tib, fs4 := fst (snd tib), fs8 := snd (snd tib)\<rparr> else c)"

definition save_code32 :: "bool \<Rightarrow> instr32 list" where
  "save_code32 win = [Pushl EBP, Pushl EBX, Pushl ESI, Pushl EDI] @
     (if win then [Pushl FS0, Pushl FS4, Pushl FS8] else []) @ [Storel ESP EAX]"

definition restore_code32 :: "bool \<Rightarrow> instr32 list" where
  "restore_code32 win = Loadl EDX ESP # (if win then [Popl FS8, Popl FS4, Popl FS0] else []) @
     [Popl EDI, Popl ESI, Popl EBX, Popl EBP, Popl ECX, Jmpl ECX]"

lemma code_split32: "transfer_code32 win = save_code32 win @ restore_code32 win"
  by (simp add: transfer_code32_def save_code32_def restore_code32_def)

lemma save32:
  assumes "can_switch32 win c"
  shows "fold_option exec32 (save_code32 win) c
    = Some (c\<lparr>esp := esp c - 4 * of_nat (num_saved32 win), mem32 := after_save32 win c\<rparr>)"
  using assms
  by (cases win) (simp_all add: save_code32_def store32_def can_switch32_def written32_def frame32_def after_save32_def
      num_saved32_def diff_diff_eq)

lemma restore32:
  assumes "saved32 win (mem32 c) (edx c) k tib sp ra"
  shows "fold_option exec32 (restore_code32 win) c
    = Some ((restored32 win k tib c)\<lparr>esp := sp + 4, ecx := ra, eip := ra\<rparr>)"
proof -
  have s: "sp - 28 + 4 = sp - 24" "sp - 24 + 4 = sp - 20" "sp - 20 + 4 = sp - 16" "sp - 16 + 4 = sp - 12"
    "sp - 12 + 4 = sp - 8" "sp - 8 + 4 = sp - 4" "sp - 4 + 4 = sp" by simp_all
  show ?thesis
    using assms unfolding saved32_def
    by (cases win) (simp_all add: restore_code32_def restored32_def load32_def s)
qed

text \<open>A switch from \<open>c\<close> to a saved context.\<close>

lemma transfer_run32:
  assumes "can_switch32 win c" "saved32 win (after_save32 win c) (edx c) k tib sp ra"
  shows "coro_transfer32 win c
    = Some ((restored32 win k tib c)\<lparr>esp := sp + 4, ecx := ra, eip := ra, mem32 := after_save32 win c\<rparr>)"
proof -
  let ?c = "c\<lparr>esp := esp c - 4 * of_nat (num_saved32 win), mem32 := after_save32 win c\<rparr>"
  have "saved32 win (mem32 ?c) (edx ?c) k tib sp ra" using assms(2) by simp
  from restore32 [OF this] show ?thesis
    unfolding coro_transfer32_def code_split32 fold_option_append save32 [OF assms(1)] Option.bind.simps(2)
    by (simp add: restored32_def Let_def)
qed

lemma transfer_saves32:
  assumes "can_switch32 win c" "mem32 c (esp c) = Some ra"
  shows "saved32 win (after_save32 win c) (eax c) c (fs0 c, fs4 c, fs8 c) (esp c) ra"
proof (cases win)
  case True
  then have "eax c \<noteq> esp c" "eax c \<noteq> esp c - 4" "eax c \<noteq> esp c - 8" "eax c \<noteq> esp c - 12" "eax c \<noteq> esp c - 16"
    "eax c \<noteq> esp c - 20" "eax c \<noteq> esp c - 24" "eax c \<noteq> esp c - 28" "aligned4 (eax c)" "aligned4 (esp c)"
    using assms(1) by (auto simp: can_switch32_def frame32_def)
  with True assms(2) show ?thesis by (simp add: saved32_def after_save32_def Let_def)
next
  case False
  then have "eax c \<noteq> esp c" "eax c \<noteq> esp c - 4" "eax c \<noteq> esp c - 8" "eax c \<noteq> esp c - 12" "eax c \<noteq> esp c - 16"
    "aligned4 (eax c)" "aligned4 (esp c)"
    using assms(1) by (auto simp: can_switch32_def frame32_def)
  with False assms(2) show ?thesis by (simp add: saved32_def after_save32_def Let_def)
qed

definition saved_cells32 :: "bool \<Rightarrow> uint32 \<Rightarrow> uint32 \<Rightarrow> uint32 set" where
  "saved_cells32 win ctx sp = frame32 win sp \<union> {sp, ctx}"

lemma saved_frame32:
  assumes "saved32 win m ctx k tib sp ra" "\<forall>a \<in> saved_cells32 win ctx sp. m' a = m a"
  shows "saved32 win m' ctx k tib sp ra"
  using assms by (auto simp: saved32_def saved_cells32_def frame32_def)

lemma after_save_outside32: "a \<notin> written32 win c \<Longrightarrow> after_save32 win c a = mem32 c a"
  by (auto simp: after_save32_def written32_def frame32_def Let_def split: if_splits)

lemma switch_to32:
  assumes "can_switch32 win c" "saved32 win (mem32 c) (edx c) k tib sp ra"
    and "saved_cells32 win (edx c) sp \<inter> written32 win c = {}"
  shows "coro_transfer32 win c
    = Some ((restored32 win k tib c)\<lparr>esp := sp + 4, ecx := ra, eip := ra, mem32 := after_save32 win c\<rparr>)"
proof (rule transfer_run32 [OF assms(1)])
  show "saved32 win (after_save32 win c) (edx c) k tib sp ra"
    by (rule saved_frame32 [OF assms(2)]) (use assms(3) after_save_outside32 in blast)
qed

text \<open>The second half of the code reads the memory only.\<close>

lemma restore_mem32:
  assumes "fold_option exec32 is c = Some c'" "list_all (\<lambda>i. case i of Pushl r \<Rightarrow> False | Storel a b \<Rightarrow> False | _ \<Rightarrow> True) is"
  shows "mem32 c' = mem32 c"
  using assms
proof (induction "is" arbitrary: c)
  case (Cons i "is")
  from Cons.prems obtain c1 where c1: "exec32 i c = Some c1" "fold_option exec32 is c1 = Some c'"
    by (auto simp: bind_eq_Some_conv)
  have set_mem: "mem32 (set_reg32 r v c) = mem32 c" for r v and c :: cpu32 by (cases r) auto
  have "mem32 c1 = mem32 c" using c1(1) Cons.prems(2) by (cases i) (auto simp: bind_eq_Some_conv set_mem)
  then show ?case using Cons.IH [OF c1(2)] Cons.prems(2) by simp
qed simp

lemma transfer_mem32:
  assumes "can_switch32 win c" "coro_transfer32 win c = Some c1"
  shows "mem32 c1 = after_save32 win c"
proof -
  have "fold_option exec32 (restore_code32 win)
      (c\<lparr>esp := esp c - 4 * of_nat (num_saved32 win), mem32 := after_save32 win c\<rparr>) = Some c1"
    using assms(2)
    unfolding coro_transfer32_def code_split32 fold_option_append save32 [OF assms(1)] Option.bind.simps(2) .
  from restore_mem32 [OF this] show ?thesis by (cases win) (simp_all add: restore_code32_def)
qed

section \<open>New contexts\<close>

text \<open>The cells \<open>coro_create\<close> writes, below the upper end \<open>tp\<close> of the stack.\<close>

definition create_cells32 :: "bool \<Rightarrow> uint32 \<Rightarrow> uint32 set" where
  "create_cells32 win tp =
     {tp - 4, tp - 8, tp - 12, tp - 16, tp - 20, tp - 24} \<union>
     (if win then {tp - 28, tp - 32, tp - 36, tp - 40, tp - 44, tp - 48} else {})"

definition zero_callee32 :: callee32 where
  "zero_callee32 = \<lparr>ebp = 0, ebx = 0, esi = 0, edi = 0\<rparr>"

lemma clear32_step:
  "aligned4 p \<Longrightarrow> m p \<noteq> None \<Longrightarrow> clear_cells32 (Suc n) p m = clear_cells32 n (p + 4) (m(p \<mapsto> 0))"
  by (simp add: store32_def)

text \<open>The context looks saved: for GNU/Linux at the start of \<open>coro_init\<close>, for Windows at the lower end of the stack.\<close>

definition entry32 :: "bool \<Rightarrow> uint32 \<Rightarrow> uint32 \<Rightarrow> uint32" where
  "entry32 win sptr init_fn = (if win then sptr else init_fn)"

lemma create_saved32:
  assumes "aligned4 ctx" "aligned4 tp" "tp = stk + n" "\<forall>a \<in> insert ctx (create_cells32 win tp). m a \<noteq> None"
    and "ctx \<notin> create_cells32 win tp"
  shows "\<exists>m'. create_frame32 win abort_fn init_fn ctx stk n m = Some m'
    \<and> saved32 win m' ctx zero_callee32 (0, 0, 0) (tp - (if win then 20 else 8)) (entry32 win stk init_fn)"
proof -
  have tp: "n + stk = tp" "stk + n = tp" using assms(3) by simp_all
  have s: "tp - 24 + 4 = tp - 20" "tp - 20 + 4 = tp - 16" "tp - 16 + 4 = tp - 12" "tp - 12 + 4 = tp - 8"
    "tp - 48 + 4 = tp - 44" "tp - 44 + 4 = tp - 40" "tp - 40 + 4 = tp - 36" "tp - 36 + 4 = tp - 32"
    "tp - 32 + 4 = tp - 28" "tp - 28 + 4 = tp - 24" by simp_all
  show ?thesis
  proof (cases win)
    case True
    have ne: "ctx \<noteq> tp - 4" "ctx \<noteq> tp - 8" "ctx \<noteq> tp - 12" "ctx \<noteq> tp - 16" "ctx \<noteq> tp - 20" "ctx \<noteq> tp - 24"
      "ctx \<noteq> tp - 28" "ctx \<noteq> tp - 32" "ctx \<noteq> tp - 36" "ctx \<noteq> tp - 40" "ctx \<noteq> tp - 44" "ctx \<noteq> tp - 48"
      using assms(5) True by (auto simp: create_cells32_def)
    have mapped: "m ctx \<noteq> None" "m (tp - 4) \<noteq> None" "m (tp - 8) \<noteq> None" "m (tp - 12) \<noteq> None" "m (tp - 16) \<noteq> None"
      "m (tp - 20) \<noteq> None" "m (tp - 24) \<noteq> None" "m (tp - 28) \<noteq> None" "m (tp - 32) \<noteq> None" "m (tp - 36) \<noteq> None"
      "m (tp - 40) \<noteq> None" "m (tp - 44) \<noteq> None" "m (tp - 48) \<noteq> None"
      using assms(4) True by (auto simp: create_cells32_def)
    have seven: "num_saved32 True = Suc (Suc (Suc (Suc (Suc (Suc (Suc 0))))))" by (simp add: num_saved32_def)
    show ?thesis
      using assms(1,2) mapped ne ne [symmetric] True unfolding create_frame32_def seven
      by (simp add: tp store32_def load32_def push_ctx_def clear32_step s diff_diff_eq saved32_def zero_callee32_def
          entry32_def seven del: clear_cells32.simps(2))
  next
    case False
    have ne: "ctx \<noteq> tp - 4" "ctx \<noteq> tp - 8" "ctx \<noteq> tp - 12" "ctx \<noteq> tp - 16" "ctx \<noteq> tp - 20" "ctx \<noteq> tp - 24"
      using assms(5) by (auto simp: create_cells32_def)
    have mapped: "m ctx \<noteq> None" "m (tp - 4) \<noteq> None" "m (tp - 8) \<noteq> None" "m (tp - 12) \<noteq> None" "m (tp - 16) \<noteq> None"
      "m (tp - 20) \<noteq> None" "m (tp - 24) \<noteq> None"
      using assms(4) by (auto simp: create_cells32_def)
    have four: "num_saved32 False = Suc (Suc (Suc (Suc 0)))" by (simp add: num_saved32_def)
    show ?thesis
      using assms(1,2) mapped ne ne [symmetric] False unfolding create_frame32_def four
      by (simp add: tp store32_def load32_def push_ctx_def clear32_step s diff_diff_eq saved32_def zero_callee32_def
          entry32_def four del: clear_cells32.simps(2))
  qed
qed

section \<open>Properties\<close>

text \<open>
  On i386 a coroutine that switches away and is switched to later continues behind its call of \<open>coro_transfer\<close>
  with its stack pointer, its four callee-saved registers and, on Windows, the words of the thread information
  block it had, as long as nobody wrote to its context and its saved cells.
\<close>

theorem i386_switch_roundtrip:
  assumes "can_switch32 win c" "mem32 c (esp c) = Some ra" "coro_transfer32 win c = Some c1"
    and "can_switch32 win c2" "edx c2 = eax c" "\<forall>a \<in> saved_cells32 win (eax c) (esp c). mem32 c2 a = mem32 c1 a"
    and "saved_cells32 win (eax c) (esp c) \<inter> written32 win c2 = {}"
  shows "\<exists>c3. coro_transfer32 win c2 = Some c3 \<and> eip c3 = ra \<and> esp c3 = esp c + 4
    \<and> callee32.truncate c3 = callee32.truncate c \<and> (win \<longrightarrow> fs0 c3 = fs0 c \<and> fs4 c3 = fs4 c \<and> fs8 c3 = fs8 c)"
proof -
  have "saved32 win (mem32 c2) (eax c) c (fs0 c, fs4 c, fs8 c) (esp c) ra"
    by (rule saved_frame32 [OF transfer_saves32 [OF assms(1,2)]])
      (use assms(6) transfer_mem32 [OF assms(1,3)] in simp)
  then have "saved32 win (mem32 c2) (edx c2) c (fs0 c, fs4 c, fs8 c) (esp c) ra" using assms(5) by simp
  from switch_to32 [OF assms(4) this] assms(5,7) show ?thesis
    by (simp add: callee32.defs restored32_def Let_def)
qed

text \<open>Two contexts at 8 and 16, with stack pointers 160 and 320; the callee returns to the caller.\<close>

definition ex_cpu32 :: cpu32 where
  "ex_cpu32 = \<lparr>ebp = 1, ebx = 2, esi = 3, edi = 4, esp = 160, eax = 8, edx = 16, ecx = 0, eip = 0, fs0 = 5, fs4 = 6, fs8 = 7,
     mem32 = (\<lambda>a. Some 0)(16 \<mapsto> 292, 320 \<mapsto> 99, 160 \<mapsto> 77)\<rparr>"

definition ex_back32 :: cpu32 where
  "ex_back32 = \<lparr>ebp = 0, ebx = 0, esi = 0, edi = 0, esp = 320, eax = 16, edx = 8, ecx = 0, eip = 0, fs0 = 0, fs4 = 0, fs8 = 0,
     mem32 = after_save32 True ex_cpu32\<rparr>"

lemma ex_can_switch32: "can_switch32 True ex_cpu32" "can_switch32 True ex_back32"
  by (simp_all add: can_switch32_def written32_def frame32_def ex_cpu32_def ex_back32_def after_save32_def aligned4_def)

theorem i386_switch_roundtrip_witness:
  "\<exists>c3. coro_transfer32 True ex_back32 = Some c3 \<and> eip c3 = 77 \<and> esp c3 = esp ex_cpu32 + 4
    \<and> callee32.truncate c3 = callee32.truncate ex_cpu32 \<and> (True \<longrightarrow> fs0 c3 = fs0 ex_cpu32 \<and> fs4 c3 = fs4 ex_cpu32 \<and> fs8 c3 = fs8 ex_cpu32)"
proof -
  have "saved32 True (mem32 ex_cpu32) (edx ex_cpu32) zero_callee32 (0, 0, 0) 320 99"
    by (simp add: saved32_def ex_cpu32_def zero_callee32_def aligned4_def)
  moreover have "saved_cells32 True (edx ex_cpu32) 320 \<inter> written32 True ex_cpu32 = {}"
    by (simp add: saved_cells32_def written32_def frame32_def ex_cpu32_def)
  ultimately obtain c1 where c1: "coro_transfer32 True ex_cpu32 = Some c1"
    using switch_to32 [OF ex_can_switch32(1)] by blast
  show ?thesis
  proof (rule i386_switch_roundtrip [OF ex_can_switch32(1) _ c1 ex_can_switch32(2)])
    show "mem32 ex_cpu32 (esp ex_cpu32) = Some 77" by (simp add: ex_cpu32_def)
    show "\<forall>a \<in> saved_cells32 True (eax ex_cpu32) (esp ex_cpu32). mem32 ex_back32 a = mem32 c1 a"
      using transfer_mem32 [OF ex_can_switch32(1) c1] by (simp add: ex_back32_def)
    show "saved_cells32 True (eax ex_cpu32) (esp ex_cpu32) \<inter> written32 True ex_back32 = {}"
      by (simp add: saved_cells32_def written32_def frame32_def ex_cpu32_def ex_back32_def)
  qed (simp add: ex_cpu32_def ex_back32_def)
qed

text \<open>C37: The first switch to a context of \<open>coro_create\<close> enters \<open>coro_init\<close> on GNU/Linux; with CORO_WIN_TIB it does not:
  NUM_SAVED counts the three words of the thread information block that \<open>coro_create\<close> pushes as well, so the stack
  holds three words too many and the switch jumps to the stack limit, the lower end of the stack itself.
\<close>

theorem i386_first_switch:
  assumes "aligned4 ctx" "aligned4 (stk + n)" "\<forall>a \<in> insert ctx (create_cells32 win (stk + n)). m a \<noteq> None"
    and "ctx \<notin> create_cells32 win (stk + n)"
    and "create_frame32 win abort_fn init_fn ctx stk n m = Some (mem32 c)"
    and "can_switch32 win c" "edx c = ctx" "insert ctx (create_cells32 win (stk + n)) \<inter> written32 win c = {}"
  shows "\<exists>c1. coro_transfer32 win c = Some c1 \<and> eip c1 = (if win then stk else init_fn)"
proof -
  let ?sp = "stk + n - (if win then 20 else 8)"
  have saved: "saved32 win (mem32 c) (edx c) zero_callee32 (0, 0, 0) ?sp (entry32 win stk init_fn)"
    using create_saved32 [OF assms(1,2) refl assms(3,4), of abort_fn init_fn] assms(5,7) by auto
  have "saved_cells32 win (edx c) ?sp \<subseteq> insert ctx (create_cells32 win (stk + n))"
    using assms(7) by (auto simp: saved_cells32_def frame32_def create_cells32_def diff_diff_eq)
  then have "saved_cells32 win (edx c) ?sp \<inter> written32 win c = {}" using assms(8) by blast
  from switch_to32 [OF assms(6) saved this] show ?thesis by (simp add: entry32_def)
qed

text \<open>A context at 16 with a stack of 256 bytes at 1024; the creator's context is at 8.\<close>

text \<open>Storing never unmaps a cell.\<close>

lemma store32_mapped: "store32 a v m = Some m' \<Longrightarrow> m x \<noteq> None \<Longrightarrow> m' x \<noteq> None"
  by (auto simp: store32_def split: if_splits)

lemma push_ctx_mapped: "push_ctx ctx v m = Some m' \<Longrightarrow> m x \<noteq> None \<Longrightarrow> m' x \<noteq> None"
  by (auto simp: push_ctx_def bind_eq_Some_conv dest: store32_mapped)

lemma clear_cells32_mapped: "clear_cells32 n p m = Some m' \<Longrightarrow> m x \<noteq> None \<Longrightarrow> m' x \<noteq> None"
  by (induction n arbitrary: p m) (auto simp: bind_eq_Some_conv dest: store32_mapped)

lemma create_frame32_mapped:
  assumes "create_frame32 win abort_fn init_fn ctx stk n m = Some m'" "m x \<noteq> None"
  shows "m' x \<noteq> None"
proof -
  from assms(1) obtain m1 m2 m3 m4 sp m5 where
    m: "store32 ctx (n + stk) m = Some m1" "push_ctx ctx abort_fn m1 = Some m2" "push_ctx ctx init_fn m2 = Some m3"
      "(if win then Option.bind (push_ctx ctx 0 m3) (\<lambda>m. Option.bind (push_ctx ctx (stk + n) m) (push_ctx ctx stk))
        else Some m3) = Some m4"
      "store32 ctx (sp - 4 * of_nat (num_saved32 win)) m4 = Some m5"
      "clear_cells32 (num_saved32 win) (sp - 4 * of_nat (num_saved32 win)) m5 = Some m'"
    unfolding create_frame32_def bind_eq_Some_conv by blast
  have "m3 x \<noteq> None"
    by (intro push_ctx_mapped [OF m(3)] push_ctx_mapped [OF m(2)] store32_mapped [OF m(1)] assms(2))
  then have "m4 x \<noteq> None"
    using m(4) by (cases win) (auto simp: bind_eq_Some_conv dest!: push_ctx_mapped [where x = x])
  then show ?thesis by (intro clear_cells32_mapped [OF m(6)] store32_mapped [OF m(5)])
qed

theorem i386_first_switch_witness:
  "\<exists>m c c1. create_frame32 True 98 99 16 1024 256 (\<lambda>a. Some 0) = Some m \<and> c = ex_cpu32\<lparr>mem32 := m\<rparr>
    \<and> coro_transfer32 True c = Some c1 \<and> eip c1 = (if True then 1024 else 99)"
proof -
  have "\<exists>m. create_frame32 True 98 99 16 1024 256 (\<lambda>a. Some 0) = Some m
    \<and> saved32 True m 16 zero_callee32 (0, 0, 0) (1280 - (if True then 20 else 8)) (entry32 True 1024 99)"
    by (rule create_saved32) (simp_all add: aligned4_def create_cells32_def)
  then obtain m where m: "create_frame32 True 98 99 16 1024 256 (\<lambda>a. Some 0) = Some m" by blast
  have mapped: "m x \<noteq> None" for x by (rule create_frame32_mapped [OF m]) simp
  have "can_switch32 True (ex_cpu32\<lparr>mem32 := m\<rparr>)"
    unfolding can_switch32_def using mapped by (simp add: written32_def frame32_def ex_cpu32_def aligned4_def)
  then have "\<exists>c1. coro_transfer32 True (ex_cpu32\<lparr>mem32 := m\<rparr>) = Some c1 \<and> eip c1 = (if True then 1024 else 99)"
    by (rule i386_first_switch [where ctx = 16 and m = "\<lambda>a. Some 0" and abort_fn = 98 and n = 256, rotated 5])
      (simp_all add: m aligned4_def create_cells32_def written32_def frame32_def ex_cpu32_def)
  with m show ?thesis by blast
qed

end
