(* ===== verification/Coro_Win64.thy ===== *)
theory Coro_Win64
  imports Coro
begin

text \<open>
  CORO_ASM of src/cs_coro.c on 64-bit Windows, which the project does not build.  The switch also keeps the registers
  \<open>xmm6\<close> to \<open>xmm15\<close> and, as \<open>popq\<close> on \<open>fs\<close>, quadwords at the offsets 0, 8 and 12 of the thread information block,
  of which the last two overlap: the block is a sequence of 32-bit words here.  \<open>movaps\<close> needs an address
  that is a multiple of 16.
\<close>

section \<open>The machine\<close>

record win_cpu = cpu +
  rdx :: uint64
  xmm :: "nat \<Rightarrow> uint64 \<times> uint64"
  tib :: "nat \<Rightarrow> uint32"

datatype win_reg = W_RBP | W_RBX | W_R12 | W_R13 | W_R14 | W_R15 | W_RSI | W_RDI | W_RSP | W_RCX | W_RDX

fun win_get :: "win_reg \<Rightarrow> win_cpu \<Rightarrow> uint64" where
  "win_get W_RBP c = rbp c"
| "win_get W_RBX c = rbx c"
| "win_get W_R12 c = r12 c"
| "win_get W_R13 c = r13 c"
| "win_get W_R14 c = r14 c"
| "win_get W_R15 c = r15 c"
| "win_get W_RSI c = rsi c"
| "win_get W_RDI c = rdi c"
| "win_get W_RSP c = rsp c"
| "win_get W_RCX c = rcx c"
| "win_get W_RDX c = rdx c"

fun win_set :: "win_reg \<Rightarrow> uint64 \<Rightarrow> win_cpu \<Rightarrow> win_cpu" where
  "win_set W_RBP v c = c\<lparr>rbp := v\<rparr>"
| "win_set W_RBX v c = c\<lparr>rbx := v\<rparr>"
| "win_set W_R12 v c = c\<lparr>r12 := v\<rparr>"
| "win_set W_R13 v c = c\<lparr>r13 := v\<rparr>"
| "win_set W_R14 v c = c\<lparr>r14 := v\<rparr>"
| "win_set W_R15 v c = c\<lparr>r15 := v\<rparr>"
| "win_set W_RSI v c = c\<lparr>rsi := v\<rparr>"
| "win_set W_RDI v c = c\<lparr>rdi := v\<rparr>"
| "win_set W_RSP v c = c\<lparr>rsp := v\<rparr>"
| "win_set W_RCX v c = c\<lparr>rcx := v\<rparr>"
| "win_set W_RDX v c = c\<lparr>rdx := v\<rparr>"

text \<open>The quadword that starts with the word \<open>i\<close>.\<close>

definition fs_read :: "nat \<Rightarrow> (nat \<Rightarrow> uint32) \<Rightarrow> uint64" where
  "fs_read i t = push_bit 32 (ucast (t (Suc i))) OR ucast (t i)"

definition fs_write :: "nat \<Rightarrow> uint64 \<Rightarrow> (nat \<Rightarrow> uint32) \<Rightarrow> nat \<Rightarrow> uint32" where
  "fs_write i v t = t(i := ucast v, Suc i := ucast (drop_bit 32 v))"

definition aligned16 :: "addr \<Rightarrow> bool" where
  "aligned16 a \<longleftrightarrow> uint a mod 16 = 0"

text \<open>
  \<open>W_store a b\<close> is \<open>movq a, (b)\<close>, \<open>W_load a b\<close> is \<open>movq (a), b\<close>; \<open>Movaps_store n k\<close> is \<open>movaps\<close> of \<open>xmm\<close> register \<open>n\<close>
  to \<open>k(rsp)\<close> and \<open>Movaps_load k n\<close> the other way; \<open>Push_fs i\<close> and \<open>Pop_fs i\<close> are for the offset \<open>4 * i\<close>.
\<close>

datatype win_instr =
  W_push win_reg | W_pop win_reg | W_store win_reg win_reg | W_load win_reg win_reg | W_jmp win_reg |
  Push_fs nat | Pop_fs nat | Movaps_store nat addr | Movaps_load addr nat | Subq addr | Addq addr

fun win_exec :: "win_instr \<Rightarrow> win_cpu \<Rightarrow> win_cpu option" where
  "win_exec (W_push r) c = do {
     m \<leftarrow> store (rsp c - 8) (win_get r c) (mem c);
     Some (c\<lparr>rsp := rsp c - 8, mem := m\<rparr>)
   }"
| "win_exec (W_pop r) c = do {
     v \<leftarrow> load (mem c) (rsp c);
     Some (win_set r v (c\<lparr>rsp := rsp c + 8\<rparr>))
   }"
| "win_exec (W_store a b) c = do {
     m \<leftarrow> store (win_get b c) (win_get a c) (mem c);
     Some (c\<lparr>mem := m\<rparr>)
   }"
| "win_exec (W_load a b) c = do {
     v \<leftarrow> load (mem c) (win_get a c);
     Some (win_set b v c)
   }"
| "win_exec (W_jmp r) c = Some (c\<lparr>rip := win_get r c\<rparr>)"
| "win_exec (Push_fs i) c = do {
     m \<leftarrow> store (rsp c - 8) (fs_read i (tib c)) (mem c);
     Some (c\<lparr>rsp := rsp c - 8, mem := m\<rparr>)
   }"
| "win_exec (Pop_fs i) c = do {
     v \<leftarrow> load (mem c) (rsp c);
     Some (c\<lparr>rsp := rsp c + 8, tib := fs_write i v (tib c)\<rparr>)
   }"
| "win_exec (Movaps_store n k) c =
     (if aligned16 (rsp c + k) then do {
        m \<leftarrow> store (rsp c + k) (fst (xmm c n)) (mem c);
        m \<leftarrow> store (rsp c + k + 8) (snd (xmm c n)) m;
        Some (c\<lparr>mem := m\<rparr>)
      } else None)"
| "win_exec (Movaps_load k n) c =
     (if aligned16 (rsp c + k) then do {
        lo \<leftarrow> load (mem c) (rsp c + k);
        hi \<leftarrow> load (mem c) (rsp c + k + 8);
        Some (c\<lparr>xmm := (xmm c)(n := (lo, hi))\<rparr>)
      } else None)"
| "win_exec (Subq n) c = Some (c\<lparr>rsp := rsp c - n\<rparr>)"
| "win_exec (Addq n) c = Some (c\<lparr>rsp := rsp c + n\<rparr>)"

section \<open>The code\<close>

text \<open>The arguments are in \<open>rcx\<close> and \<open>rdx\<close>.\<close>

definition NUM_SAVED_WIN :: nat where
  "NUM_SAVED_WIN = 29"

definition win_save_xmm :: "win_instr list" where
  "win_save_xmm =
     [Subq 168, Movaps_store 6 0, Movaps_store 7 16, Movaps_store 8 32, Movaps_store 9 48, Movaps_store 10 64,
      Movaps_store 11 80, Movaps_store 12 96, Movaps_store 13 112, Movaps_store 14 128, Movaps_store 15 144]"

definition win_save_regs :: "win_instr list" where
  "win_save_regs =
     [W_push W_RSI, W_push W_RDI, W_push W_RBP, W_push W_RBX, W_push W_R12, W_push W_R13, W_push W_R14, W_push W_R15,
      Push_fs 0, Push_fs 2, Push_fs 3]"

definition win_load_regs :: "win_instr list" where
  "win_load_regs =
     [Pop_fs 3, Pop_fs 2, Pop_fs 0,
      W_pop W_R15, W_pop W_R14, W_pop W_R13, W_pop W_R12, W_pop W_RBX, W_pop W_RBP, W_pop W_RDI, W_pop W_RSI]"

definition win_load_xmm :: "win_instr list" where
  "win_load_xmm =
     [Movaps_load 0 6, Movaps_load 16 7, Movaps_load 32 8, Movaps_load 48 9, Movaps_load 64 10,
      Movaps_load 80 11, Movaps_load 96 12, Movaps_load 112 13, Movaps_load 128 14, Movaps_load 144 15, Addq 168]"

definition win_transfer_code :: "win_instr list" where
  "win_transfer_code =
     win_save_xmm @ win_save_regs @ [W_store W_RSP W_RCX, W_load W_RDX W_RSP] @ win_load_regs @ win_load_xmm @
     [W_pop W_RCX, W_jmp W_RCX]"

definition win_transfer :: "win_cpu \<Rightarrow> win_cpu option" where
  "win_transfer c = fold_option win_exec win_transfer_code c"

text \<open>\<open>coro_create\<close> from where it sets up the stack; \<open>win_push ctx v\<close> is \<open>*--ctx->sp = v\<close>.\<close>

definition win_push :: "addr \<Rightarrow> uint64 \<Rightarrow> memory \<Rightarrow> memory option" where
  "win_push ctx v m = do {
     sp \<leftarrow> load m ctx;
     m \<leftarrow> store ctx (sp - 8) m;
     store (sp - 8) v m
   }"

definition win_create_frame :: "addr \<Rightarrow> addr \<Rightarrow> addr \<Rightarrow> addr \<Rightarrow> size_t \<Rightarrow> memory \<Rightarrow> memory option" where
  "win_create_frame abort_fn init_fn ctx stk ssize m = do {
     m \<leftarrow> store ctx (ssize + stk) m;
     m \<leftarrow> win_push ctx abort_fn m;
     m \<leftarrow> win_push ctx init_fn m;
     m \<leftarrow> win_push ctx 0 m;
     m \<leftarrow> win_push ctx (stk + ssize) m;
     m \<leftarrow> win_push ctx stk m;
     sp \<leftarrow> load m ctx;
     m \<leftarrow> store ctx (sp - 8 * of_nat NUM_SAVED_WIN) m;
     clear_cells NUM_SAVED_WIN (sp - 8 * of_nat NUM_SAVED_WIN) m
   }"

section \<open>Words and alignment\<close>

lemma fs_read_words [simp]:
  "ucast (fs_read i t) = t i" "ucast (drop_bit 32 (fs_read i t)) = t (Suc i)"
  by (rule bit_word_eqI, auto simp: fs_read_def bit_simps dest: bit_imp_le_length)+

lemma fs_write_read: "fs_write i (fs_read i t) t' = t'(i := t i, Suc i := t (Suc i))"
  by (simp add: fs_write_def)

lemma aligned_diff [simp]: "uint k mod 8 = 0 \<Longrightarrow> aligned (a - k) = aligned a"
proof -
  assume k: "uint k mod 8 = 0"
  have m: "x mod 18446744073709551616 mod 8 = x mod 8" for x :: int
    using mod_mod_cancel [of 8 "18446744073709551616 :: int" x] by simp
  have "(uint a - uint k) mod 8 = uint a mod 8" using k by (metis diff_zero mod_diff_right_eq)
  then show ?thesis by (simp add: aligned_def uint_word_ariths m)
qed

lemma aligned16_diff:
  assumes "uint k mod 16 = 0"
  shows "aligned16 (a - k) = aligned16 a"
proof -
  have m: "x mod 18446744073709551616 mod 16 = x mod 16" for x :: int
    using mod_mod_cancel [of 16 "18446744073709551616 :: int" x] by simp
  have "(uint a - uint k) mod 16 = uint a mod 16" using assms by (metis diff_zero mod_diff_right_eq)
  then show ?thesis by (simp add: aligned16_def uint_word_ariths m)
qed

lemma aligned16_minus8:
  assumes "aligned a"
  shows "aligned16 (a - 8) \<longleftrightarrow> \<not> aligned16 a"
proof -
  have m: "x mod 18446744073709551616 mod 16 = x mod 16" for x :: int
    using mod_mod_cancel [of 16 "18446744073709551616 :: int" x] by simp
  have "aligned16 (a - 8) \<longleftrightarrow> (uint a - 8) mod 16 = 0" by (simp add: aligned16_def uint_word_ariths m)
  moreover have "uint a mod 8 = 0" using assms by (simp add: aligned_def)
  ultimately show ?thesis unfolding aligned16_def by presburger
qed

lemma offset_add [simp]:
  "(a :: addr) - numeral k + numeral l = a - (numeral k - numeral l)"
proof -
  have "a - x + y = a - (x - y)" for x y :: addr by (simp add: algebra_simps)
  then show ?thesis .
qed

lemma aligned16_slots [simp]:
  "aligned16 (a - 168) = aligned16 (a - 8)" "aligned16 (a - 152) = aligned16 (a - 8)"
  "aligned16 (a - 136) = aligned16 (a - 8)" "aligned16 (a - 120) = aligned16 (a - 8)"
  "aligned16 (a - 104) = aligned16 (a - 8)" "aligned16 (a - 88) = aligned16 (a - 8)"
  "aligned16 (a - 72) = aligned16 (a - 8)" "aligned16 (a - 56) = aligned16 (a - 8)"
  "aligned16 (a - 40) = aligned16 (a - 8)" "aligned16 (a - 24) = aligned16 (a - 8)"
  using aligned16_diff [of 160 "a - 8"] aligned16_diff [of 144 "a - 8"] aligned16_diff [of 128 "a - 8"]
    aligned16_diff [of 112 "a - 8"] aligned16_diff [of 96 "a - 8"] aligned16_diff [of 80 "a - 8"]
    aligned16_diff [of 64 "a - 8"] aligned16_diff [of 48 "a - 8"] aligned16_diff [of 32 "a - 8"]
    aligned16_diff [of 16 "a - 8"]
  by (simp_all add: diff_diff_eq)

section \<open>The saved context\<close>

text \<open>The words of a context from its lowest address, in the order of the code.\<close>

fun words_at :: "memory \<Rightarrow> addr \<Rightarrow> uint64 list \<Rightarrow> bool" where
  "words_at m a [] \<longleftrightarrow> True"
| "words_at m a (v # vs) \<longleftrightarrow> m a = Some v \<and> words_at m (a + 8) vs"

definition win_xmm_words :: "win_cpu \<Rightarrow> uint64 list" where
  "win_xmm_words c =
     [fst (xmm c 6), snd (xmm c 6), fst (xmm c 7), snd (xmm c 7), fst (xmm c 8), snd (xmm c 8),
      fst (xmm c 9), snd (xmm c 9), fst (xmm c 10), snd (xmm c 10), fst (xmm c 11), snd (xmm c 11),
      fst (xmm c 12), snd (xmm c 12), fst (xmm c 13), snd (xmm c 13), fst (xmm c 14), snd (xmm c 14),
      fst (xmm c 15), snd (xmm c 15)]"

definition win_reg_words :: "win_cpu \<Rightarrow> uint64 list" where
  "win_reg_words c =
     [fs_read 3 (tib c), fs_read 2 (tib c), fs_read 0 (tib c), r15 c, r14 c, r13 c, r12 c, rbx c, rbp c, rdi c, rsi c]"

text \<open>The addresses of \<open>n\<close> words from \<open>a\<close>.\<close>

fun win_cells :: "nat \<Rightarrow> addr \<Rightarrow> addr set" where
  "win_cells 0 a = {}"
| "win_cells (Suc n) a = insert a (win_cells n (a + 8))"

lemma win_cells_numeral:
  "win_cells (numeral k) a = insert a (win_cells (pred_numeral k) (a + 8))"
  by (simp add: numeral_eq_Suc)

definition win_saved :: "memory \<Rightarrow> addr \<Rightarrow> win_cpu \<Rightarrow> addr \<Rightarrow> addr \<Rightarrow> bool" where
  "win_saved m ctx k sp ra \<longleftrightarrow>
     aligned ctx \<and> aligned sp \<and> m ctx = Some (sp - 256) \<and> words_at m (sp - 256) (win_reg_words k) \<and>
     words_at m (sp - 168) (win_xmm_words k) \<and> m sp = Some ra"

definition win_frame :: "addr \<Rightarrow> addr set" where
  "win_frame sp = win_cells 11 (sp - 256) \<union> win_cells 20 (sp - 168)"

definition win_can_switch :: "win_cpu \<Rightarrow> bool" where
  "win_can_switch c \<longleftrightarrow> aligned (rsp c) \<and> aligned16 (rsp c - 8) \<and> aligned (rcx c) \<and>
     writable (mem c) (insert (rcx c) (win_frame (rsp c))) \<and> rcx c \<notin> insert (rsp c) (win_frame (rsp c))"

definition win_restored :: "win_cpu \<Rightarrow> win_cpu \<Rightarrow> win_cpu" where
  "win_restored k c = c\<lparr>rbp := rbp k, rbx := rbx k, r12 := r12 k, r13 := r13 k, r14 := r14 k, r15 := r15 k,
     rdi := rdi k, rsi := rsi k,
     xmm := (xmm c)(6 := xmm k 6, 7 := xmm k 7, 8 := xmm k 8, 9 := xmm k 9, 10 := xmm k 10, 11 := xmm k 11,
       12 := xmm k 12, 13 := xmm k 13, 14 := xmm k 14, 15 := xmm k 15),
     tib := (tib c)(0 := tib k 0, 1 := tib k 1, 2 := tib k 2, 3 := tib k 3, 4 := tib k 4)\<rparr>"

lemma win_cells_11:
  "win_cells 11 (sp - 256) = {sp - 256, sp - 248, sp - 240, sp - 232, sp - 224, sp - 216, sp - 208, sp - 200,
     sp - 192, sp - 184, sp - 176}"
  by (simp add: eval_nat_numeral)

lemma win_cells_20:
  "win_cells 20 (sp - 168) = {sp - 168, sp - 160, sp - 152, sp - 144, sp - 136, sp - 128, sp - 120, sp - 112,
     sp - 104, sp - 96, sp - 88, sp - 80, sp - 72, sp - 64, sp - 56, sp - 48, sp - 40, sp - 32, sp - 24, sp - 16}"
  by (simp add: eval_nat_numeral)

section \<open>Restoring\<close>

lemma load_regs:
  assumes "aligned (rsp c)" "rsp c = sp - 256" "words_at (mem c) (sp - 256) (win_reg_words k)"
  shows "fold_option win_exec win_load_regs c = Some (c\<lparr>rsp := sp - 168, rbp := rbp k, rbx := rbx k, r12 := r12 k,
     r13 := r13 k, r14 := r14 k, r15 := r15 k, rdi := rdi k, rsi := rsi k,
     tib := (tib c)(0 := tib k 0, 1 := tib k 1, 2 := tib k 2, 3 := tib k 3, 4 := tib k 4)\<rparr>)"
proof -
  have "fs_write 0 (fs_read 0 (tib k)) (fs_write 2 (fs_read 2 (tib k)) (fs_write 3 (fs_read 3 (tib k)) (tib c)))
      = (tib c)(0 := tib k 0, 1 := tib k 1, 2 := tib k 2, 3 := tib k 3, 4 := tib k 4)"
    by (auto simp: fs_write_read fun_eq_iff eval_nat_numeral)
  then show ?thesis
    using assms by (simp add: win_load_regs_def win_reg_words_def load_def)
qed

lemma load_xmm:
  assumes "aligned sp" "aligned16 (sp - 8)" "rsp c = sp - 168" "words_at (mem c) (sp - 168) (win_xmm_words k)"
  shows "fold_option win_exec win_load_xmm c = Some (c\<lparr>rsp := sp,
     xmm := (xmm c)(6 := xmm k 6, 7 := xmm k 7, 8 := xmm k 8, 9 := xmm k 9, 10 := xmm k 10, 11 := xmm k 11,
       12 := xmm k 12, 13 := xmm k 13, 14 := xmm k 14, 15 := xmm k 15)\<rparr>)"
  using assms by (simp add: win_load_xmm_def win_xmm_words_def load_def)

lemma load_xmm_misaligned:
  assumes "\<not> aligned16 (sp - 8)" "rsp c = sp - 168"
  shows "fold_option win_exec win_load_xmm c = None"
  using assms by (simp add: win_load_xmm_def)

section \<open>Saving\<close>

lemma save_xmm:
  assumes "aligned (rsp c)" "aligned16 (rsp c - 8)" "writable (mem c) (win_cells 20 (rsp c - 168))"
  shows "\<exists>m. fold_option win_exec win_save_xmm c = Some (c\<lparr>rsp := rsp c - 168, mem := m\<rparr>)
    \<and> words_at m (rsp c - 168) (win_xmm_words c) \<and> (\<forall>a. a \<notin> win_cells 20 (rsp c - 168) \<longrightarrow> m a = mem c a)"
proof -
  have "\<exists>m. fold_option win_exec win_save_xmm c = Some (c\<lparr>rsp := rsp c - 168, mem := m\<rparr>)
    \<and> m = (mem c)(rsp c - 168 \<mapsto> fst (xmm c 6), rsp c - 160 \<mapsto> snd (xmm c 6),
      rsp c - 152 \<mapsto> fst (xmm c 7), rsp c - 144 \<mapsto> snd (xmm c 7), rsp c - 136 \<mapsto> fst (xmm c 8),
      rsp c - 128 \<mapsto> snd (xmm c 8), rsp c - 120 \<mapsto> fst (xmm c 9), rsp c - 112 \<mapsto> snd (xmm c 9),
      rsp c - 104 \<mapsto> fst (xmm c 10), rsp c - 96 \<mapsto> snd (xmm c 10), rsp c - 88 \<mapsto> fst (xmm c 11),
      rsp c - 80 \<mapsto> snd (xmm c 11), rsp c - 72 \<mapsto> fst (xmm c 12), rsp c - 64 \<mapsto> snd (xmm c 12),
      rsp c - 56 \<mapsto> fst (xmm c 13), rsp c - 48 \<mapsto> snd (xmm c 13), rsp c - 40 \<mapsto> fst (xmm c 14),
      rsp c - 32 \<mapsto> snd (xmm c 14), rsp c - 24 \<mapsto> fst (xmm c 15), rsp c - 16 \<mapsto> snd (xmm c 15))"
    using assms by (simp add: win_save_xmm_def store_def writable_def win_cells_20)
  then obtain m where m: "fold_option win_exec win_save_xmm c = Some (c\<lparr>rsp := rsp c - 168, mem := m\<rparr>)"
    "m = (mem c)(rsp c - 168 \<mapsto> fst (xmm c 6), rsp c - 160 \<mapsto> snd (xmm c 6),
      rsp c - 152 \<mapsto> fst (xmm c 7), rsp c - 144 \<mapsto> snd (xmm c 7), rsp c - 136 \<mapsto> fst (xmm c 8),
      rsp c - 128 \<mapsto> snd (xmm c 8), rsp c - 120 \<mapsto> fst (xmm c 9), rsp c - 112 \<mapsto> snd (xmm c 9),
      rsp c - 104 \<mapsto> fst (xmm c 10), rsp c - 96 \<mapsto> snd (xmm c 10), rsp c - 88 \<mapsto> fst (xmm c 11),
      rsp c - 80 \<mapsto> snd (xmm c 11), rsp c - 72 \<mapsto> fst (xmm c 12), rsp c - 64 \<mapsto> snd (xmm c 12),
      rsp c - 56 \<mapsto> fst (xmm c 13), rsp c - 48 \<mapsto> snd (xmm c 13), rsp c - 40 \<mapsto> fst (xmm c 14),
      rsp c - 32 \<mapsto> snd (xmm c 14), rsp c - 24 \<mapsto> fst (xmm c 15), rsp c - 16 \<mapsto> snd (xmm c 15))" by blast
  show ?thesis by (intro exI [of _ m] conjI m(1)) (simp_all add: m(2) win_xmm_words_def win_cells_20)
qed

lemma save_regs:
  assumes "aligned sp" "rsp c = sp - 168" "writable (mem c) (win_cells 11 (sp - 256))"
  shows "\<exists>m. fold_option win_exec win_save_regs c = Some (c\<lparr>rsp := sp - 256, mem := m\<rparr>)
    \<and> words_at m (sp - 256) (win_reg_words c) \<and> (\<forall>a. a \<notin> win_cells 11 (sp - 256) \<longrightarrow> m a = mem c a)"
proof -
  have "\<exists>m. fold_option win_exec win_save_regs c = Some (c\<lparr>rsp := sp - 256, mem := m\<rparr>)
    \<and> m = (mem c)(sp - 176 \<mapsto> rsi c, sp - 184 \<mapsto> rdi c, sp - 192 \<mapsto> rbp c, sp - 200 \<mapsto> rbx c, sp - 208 \<mapsto> r12 c,
      sp - 216 \<mapsto> r13 c, sp - 224 \<mapsto> r14 c, sp - 232 \<mapsto> r15 c, sp - 240 \<mapsto> fs_read 0 (tib c), sp - 248 \<mapsto> fs_read 2 (tib c),
      sp - 256 \<mapsto> fs_read 3 (tib c))"
    using assms by (simp add: win_save_regs_def store_def writable_def win_cells_11 diff_diff_eq)
  then obtain m where m: "fold_option win_exec win_save_regs c = Some (c\<lparr>rsp := sp - 256, mem := m\<rparr>)"
    "m = (mem c)(sp - 176 \<mapsto> rsi c, sp - 184 \<mapsto> rdi c, sp - 192 \<mapsto> rbp c, sp - 200 \<mapsto> rbx c, sp - 208 \<mapsto> r12 c,
      sp - 216 \<mapsto> r13 c, sp - 224 \<mapsto> r14 c, sp - 232 \<mapsto> r15 c, sp - 240 \<mapsto> fs_read 0 (tib c), sp - 248 \<mapsto> fs_read 2 (tib c),
      sp - 256 \<mapsto> fs_read 3 (tib c))" by blast
  show ?thesis by (intro exI [of _ m] conjI m(1)) (simp_all add: m(2) win_reg_words_def win_cells_11)
qed

section \<open>The switch\<close>

definition win_save_code :: "win_instr list" where
  "win_save_code = win_save_xmm @ win_save_regs @ [W_store W_RSP W_RCX]"

definition win_load_code :: "win_instr list" where
  "win_load_code = W_load W_RDX W_RSP # win_load_regs @ win_load_xmm @ [W_pop W_RCX, W_jmp W_RCX]"

lemma win_code_split: "win_transfer_code = win_save_code @ win_load_code"
  by (simp add: win_transfer_code_def win_save_code_def win_load_code_def)

lemma words_at_cong: "\<forall>a \<in> win_cells (length vs) b. m' a = m a \<Longrightarrow> words_at m b vs \<Longrightarrow> words_at m' b vs"
  by (induction vs arbitrary: b) auto

lemma win_cells_disjoint: "win_cells 11 (sp - 256) \<inter> win_cells 20 (sp - 168) = {}" "sp \<notin> win_frame sp"
  by (auto simp: win_cells_11 win_cells_20 win_frame_def)

lemma words_length [simp]: "length (win_reg_words c) = 11" "length (win_xmm_words c) = 20"
  by (simp_all add: win_reg_words_def win_xmm_words_def)

text \<open>The first half leaves the caller's context saved, and writes nowhere else.\<close>

lemma win_save:
  assumes "win_can_switch c"
  shows "\<exists>m. fold_option win_exec win_save_code c = Some (c\<lparr>rsp := rsp c - 256, mem := m\<rparr>)
    \<and> (\<forall>ra. mem c (rsp c) = Some ra \<longrightarrow> win_saved m (rcx c) c (rsp c) ra)
    \<and> (\<forall>a. a \<notin> insert (rcx c) (win_frame (rsp c)) \<longrightarrow> m a = mem c a)"
proof -
  have al: "aligned (rsp c)" "aligned16 (rsp c - 8)" "aligned (rcx c)"
    and w: "writable (mem c) (win_cells 20 (rsp c - 168))" "writable (mem c) (win_cells 11 (rsp c - 256))"
      "mem c (rcx c) \<noteq> None"
    and out: "rcx c \<noteq> rsp c" "rcx c \<notin> win_cells 11 (rsp c - 256)" "rcx c \<notin> win_cells 20 (rsp c - 168)"
    using assms by (auto simp: win_can_switch_def writable_def win_frame_def)
  from save_xmm [OF al(1,2) w(1)] obtain m1 where
    m1: "fold_option win_exec win_save_xmm c = Some (c\<lparr>rsp := rsp c - 168, mem := m1\<rparr>)"
      "words_at m1 (rsp c - 168) (win_xmm_words c)" "\<forall>a. a \<notin> win_cells 20 (rsp c - 168) \<longrightarrow> m1 a = mem c a" by blast
  let ?c = "c\<lparr>rsp := rsp c - 168, mem := m1\<rparr>"
  have "writable m1 (win_cells 11 (rsp c - 256))"
    unfolding writable_def
  proof
    fix a assume a: "a \<in> win_cells 11 (rsp c - 256)"
    then have "a \<notin> win_cells 20 (rsp c - 168)" using win_cells_disjoint(1) [of "rsp c"] by blast
    with m1(3) w(2) a show "m1 a \<noteq> None" by (simp add: writable_def)
  qed
  then have "writable (mem ?c) (win_cells 11 (rsp c - 256))" by simp
  from save_regs [OF al(1) _ this] obtain m2 where
    m2: "fold_option win_exec win_save_regs ?c = Some (?c\<lparr>rsp := rsp c - 256, mem := m2\<rparr>)"
      "words_at m2 (rsp c - 256) (win_reg_words ?c)" "\<forall>a. a \<notin> win_cells 11 (rsp c - 256) \<longrightarrow> m2 a = mem ?c a"
    by auto
  let ?m = "m2(rcx c \<mapsto> rsp c - 256)"
  have outside: "?m a = mem c a" if "a \<notin> insert (rcx c) (win_frame (rsp c))" for a
    using that m1(3) m2(3) by (simp add: win_frame_def)
  have "m2 (rcx c) \<noteq> None" using m2(3) m1(3) out w(3) by simp
  then have run: "fold_option win_exec win_save_code c = Some (c\<lparr>rsp := rsp c - 256, mem := ?m\<rparr>)"
    unfolding win_save_code_def fold_option_append m1(1) Option.bind.simps(2) m2(1)
    using al(3) by (simp add: store_def)
  have regs: "words_at ?m (rsp c - 256) (win_reg_words c)"
  proof (rule words_at_cong)
    show "words_at m2 (rsp c - 256) (win_reg_words c)" using m2(2) by (simp add: win_reg_words_def)
    show "\<forall>a \<in> win_cells (length (win_reg_words c)) (rsp c - 256). ?m a = m2 a" using out(2) by auto
  qed
  have xmm: "words_at ?m (rsp c - 168) (win_xmm_words c)"
  proof (rule words_at_cong [OF _ m1(2)], rule ballI)
    fix a assume "a \<in> win_cells (length (win_xmm_words c)) (rsp c - 168)"
    then have a: "a \<in> win_cells 20 (rsp c - 168)" by simp
    then have "a \<notin> win_cells 11 (rsp c - 256)" using win_cells_disjoint(1) [of "rsp c"] by blast
    moreover have "a \<noteq> rcx c" using a out(3) by blast
    ultimately show "?m a = m1 a" using m2(3) by simp
  qed
  have "win_saved ?m (rcx c) c (rsp c) ra" if "mem c (rsp c) = Some ra" for ra
    using regs xmm al outside [of "rsp c"] out(1) win_cells_disjoint(2) [of "rsp c"] that
    by (simp add: win_saved_def)
  with run outside show ?thesis by blast
qed

lemma win_load:
  assumes "win_saved (mem c) (rdx c) k sp ra"
  shows "fold_option win_exec win_load_code c =
    (if aligned16 (sp - 8) then Some ((win_restored k c)\<lparr>rsp := sp + 8, rcx := ra, rip := ra\<rparr>) else None)"
proof -
  have s: "aligned (rdx c)" "aligned sp" "mem c (rdx c) = Some (sp - 256)"
    "words_at (mem c) (sp - 256) (win_reg_words k)" "words_at (mem c) (sp - 168) (win_xmm_words k)" "mem c sp = Some ra"
    using assms by (simp_all add: win_saved_def)
  let ?c = "c\<lparr>rsp := sp - 256\<rparr>"
  let ?d = "?c\<lparr>rsp := sp - 168, rbp := rbp k, rbx := rbx k, r12 := r12 k,
     r13 := r13 k, r14 := r14 k, r15 := r15 k, rdi := rdi k, rsi := rsi k,
     tib := (tib ?c)(0 := tib k 0, 1 := tib k 1, 2 := tib k 2, 3 := tib k 3, 4 := tib k 4)\<rparr>"
  have first: "win_exec (W_load W_RDX W_RSP) c = Some ?c" using s(1,3) by (simp add: load_def)
  have regs: "fold_option win_exec win_load_regs ?c = Some ?d" by (rule load_regs) (use s in simp_all)
  show ?thesis
  proof (cases "aligned16 (sp - 8)")
    case True
    have "fold_option win_exec win_load_xmm ?d = Some (?d\<lparr>rsp := sp,
     xmm := (xmm ?d)(6 := xmm k 6, 7 := xmm k 7, 8 := xmm k 8, 9 := xmm k 9, 10 := xmm k 10, 11 := xmm k 11,
       12 := xmm k 12, 13 := xmm k 13, 14 := xmm k 14, 15 := xmm k 15)\<rparr>)"
      by (rule load_xmm) (use s True in simp_all)
    then show ?thesis
      unfolding win_load_code_def fold_option.simps first Option.bind.simps(2) fold_option_append regs
      using True s by (simp add: load_def win_restored_def)
  next
    case False
    have "fold_option win_exec win_load_xmm ?d = None" by (rule load_xmm_misaligned [OF False]) simp
    then show ?thesis
      unfolding win_load_code_def fold_option.simps first Option.bind.simps(2) fold_option_append regs
      using False by simp
  qed
qed

lemma win_saved_frame:
  assumes "win_saved m ctx k sp ra" "\<forall>a \<in> insert ctx (insert sp (win_frame sp)). m' a = m a"
  shows "win_saved m' ctx k sp ra"
  using assms words_at_cong [of "win_reg_words k" "sp - 256" m' m] words_at_cong [of "win_xmm_words k" "sp - 168" m' m]
  by (simp add: win_saved_def win_frame_def)

text \<open>A switch to a saved context: it works when the stack of that context is aligned for \<open>movaps\<close>.\<close>

lemma win_switch_to:
  assumes "win_can_switch c" "win_saved (mem c) (rdx c) k sp ra"
    and "insert (rdx c) (insert sp (win_frame sp)) \<inter> insert (rcx c) (win_frame (rsp c)) = {}"
  shows "\<exists>m. win_transfer c =
      (if aligned16 (sp - 8) then Some ((win_restored k c)\<lparr>rsp := sp + 8, rcx := ra, rip := ra, mem := m\<rparr>) else None)
    \<and> (\<forall>a. a \<notin> insert (rcx c) (win_frame (rsp c)) \<longrightarrow> m a = mem c a)
    \<and> (\<forall>ra'. mem c (rsp c) = Some ra' \<longrightarrow> win_saved m (rcx c) c (rsp c) ra')"
proof -
  from win_save [OF assms(1)] obtain m where
    m: "fold_option win_exec win_save_code c = Some (c\<lparr>rsp := rsp c - 256, mem := m\<rparr>)"
      "\<forall>ra'. mem c (rsp c) = Some ra' \<longrightarrow> win_saved m (rcx c) c (rsp c) ra'"
      "\<forall>a. a \<notin> insert (rcx c) (win_frame (rsp c)) \<longrightarrow> m a = mem c a" by blast
  have "win_saved m (rdx c) k sp ra"
    by (rule win_saved_frame [OF assms(2)]) (use m(3) assms(3) in blast)
  then have "win_saved (mem (c\<lparr>rsp := rsp c - 256, mem := m\<rparr>)) (rdx (c\<lparr>rsp := rsp c - 256, mem := m\<rparr>)) k sp ra" by simp
  from win_load [OF this] have "win_transfer c =
      (if aligned16 (sp - 8) then Some ((win_restored k c)\<lparr>rsp := sp + 8, rcx := ra, rip := ra, mem := m\<rparr>) else None)"
    unfolding win_transfer_def win_code_split fold_option_append m(1) Option.bind.simps(2)
    by (simp add: win_restored_def)
  with m(2,3) show ?thesis by blast
qed

section \<open>New contexts\<close>

lemma aligned_plus8: "aligned p \<Longrightarrow> aligned (p + 8)"
  using aligned_diff [of "- 8" p] by simp

lemma clear_cells_eq:
  assumes "aligned p" "\<forall>a \<in> win_cells n p. m a \<noteq> None"
  shows "clear_cells n p m = Some (\<lambda>a. if a \<in> win_cells n p then Some 0 else m a)"
  using assms
proof (induction n arbitrary: p m)
  case (Suc n)
  have "clear_cells n (p + 8) (m(p \<mapsto> 0)) = Some (\<lambda>a. if a \<in> win_cells n (p + 8) then Some 0 else (m(p \<mapsto> 0)) a)"
    by (rule Suc.IH) (use Suc.prems aligned_plus8 in auto)
  moreover have "(\<lambda>a. if a \<in> win_cells n (p + 8) then Some 0 else (m(p \<mapsto> 0)) a) =
      (\<lambda>a. if a \<in> win_cells (Suc n) p then Some 0 else m a)" by auto
  ultimately show ?case using Suc.prems by (simp add: store_def)
qed simp

text \<open>What the new context looks like to the switch.\<close>

definition win_fresh :: "addr \<Rightarrow> addr \<Rightarrow> win_cpu" where
  "win_fresh stk tp = \<lparr>rbp = 0, rbx = 0, r12 = 0, r13 = 0, r14 = 0, r15 = 0, rsp = 0, rdi = 0, rsi = 0, rcx = 0, rip = 0,
     mem = Map.empty, rdx = 0, xmm = (\<lambda>_. (0, 0))(15 := (stk, tp)), tib = (\<lambda>_. 0)\<rparr>"

lemma fs_read_0 [simp]: "fs_read i (\<lambda>_. 0) = 0"
  by (simp add: fs_read_def)

text \<open>The cells \<open>coro_create\<close> writes, below the upper end \<open>tp\<close> of the stack.\<close>

definition win_create_cells :: "addr \<Rightarrow> addr set" where
  "win_create_cells tp = {tp - 8, tp - 16, tp - 24, tp - 32, tp - 40} \<union> win_cells 29 (tp - 272)"

lemma win_cells_29:
  "win_cells 29 (tp - 272) = win_cells 11 (tp - 272) \<union> {tp - 184, tp - 176, tp - 168, tp - 160, tp - 152, tp - 144,
     tp - 136, tp - 128, tp - 120, tp - 112, tp - 104, tp - 96, tp - 88, tp - 80, tp - 72, tp - 64, tp - 56, tp - 48}"
  by (simp add: eval_nat_numeral insert_commute)

lemma win_create_saved:
  assumes "aligned ctx" "aligned tp" "tp = stk + n" "\<forall>a \<in> insert ctx (win_create_cells tp). m a \<noteq> None"
    and "ctx \<notin> win_create_cells tp"
  shows "\<exists>m'. win_create_frame abort_fn init_fn ctx stk n m = Some m'
    \<and> win_saved m' ctx (win_fresh stk tp) (tp - 16) init_fn"
proof -
  have tp: "n + stk = tp" "stk + n = tp" using assms(3) by simp_all
  have ne: "ctx \<noteq> tp - 8" "ctx \<noteq> tp - 16" "ctx \<noteq> tp - 24" "ctx \<noteq> tp - 32" "ctx \<noteq> tp - 40" "ctx \<notin> win_cells 29 (tp - 272)"
    using assms(5) by (auto simp: win_create_cells_def)
  have mapped: "m ctx \<noteq> None" "m (tp - 8) \<noteq> None" "m (tp - 16) \<noteq> None" "m (tp - 24) \<noteq> None" "m (tp - 32) \<noteq> None"
    "m (tp - 40) \<noteq> None" "\<forall>a \<in> win_cells 29 (tp - 272). m a \<noteq> None"
    using assms(4) by (auto simp: win_create_cells_def)
  let ?m5 = "m(ctx \<mapsto> tp - 40, tp - 8 \<mapsto> abort_fn, tp - 16 \<mapsto> init_fn, tp - 24 \<mapsto> 0, tp - 32 \<mapsto> tp, tp - 40 \<mapsto> stk)"
  let ?m6 = "?m5(ctx \<mapsto> tp - 272)"
  let ?m7 = "\<lambda>a. if a \<in> win_cells 29 (tp - 272) then Some 0 else ?m6 a"
  have pushes: "win_create_frame abort_fn init_fn ctx stk n m =
      Option.bind (Some ?m5) (\<lambda>m. do {
        sp \<leftarrow> load m ctx;
        m \<leftarrow> store ctx (sp - 8 * of_nat NUM_SAVED_WIN) m;
        clear_cells NUM_SAVED_WIN (sp - 8 * of_nat NUM_SAVED_WIN) m })"
    unfolding win_create_frame_def tp
    using assms(1,2) mapped ne ne(1-5) [symmetric] by (simp add: win_push_def load_def store_def diff_diff_eq fun_upd_twist)
  have "aligned (tp - 272)" using assms(2) by simp
  then have "clear_cells 29 (tp - 272) ?m6 = Some ?m7" by (rule clear_cells_eq) (use mapped in simp)
  then have run: "win_create_frame abort_fn init_fn ctx stk n m = Some ?m7"
    unfolding pushes using assms(1) ne by (simp add: load_def store_def NUM_SAVED_WIN_def diff_diff_eq)
  have "words_at ?m7 (tp - 272) (win_reg_words (win_fresh stk tp))"
    by (simp add: win_reg_words_def win_fresh_def win_cells_29 win_cells_11 [of "tp - 16", simplified diff_diff_eq, simplified])
  moreover have "words_at ?m7 (tp - 184) (win_xmm_words (win_fresh stk tp))"
    using ne by (simp add: win_xmm_words_def win_fresh_def win_cells_29 win_cells_11 [of "tp - 16", simplified diff_diff_eq, simplified])
  moreover have "?m7 (tp - 16) = Some init_fn"
    using ne by (simp add: win_cells_29 win_cells_11 [of "tp - 16", simplified diff_diff_eq, simplified])
  moreover have "?m7 ctx = Some (tp - 272)" using ne by simp
  ultimately have "win_saved ?m7 ctx (win_fresh stk tp) (tp - 16) init_fn"
    using assms(1,2) by (simp add: win_saved_def diff_diff_eq)
  with run show ?thesis by blast
qed

section \<open>Properties\<close>

text \<open>The second half of the code reads the memory only.\<close>

lemma win_load_mem:
  assumes "fold_option win_exec is c = Some c'"
    and "list_all (\<lambda>i. case i of W_push r \<Rightarrow> False | W_store a b \<Rightarrow> False | Push_fs k \<Rightarrow> False | Movaps_store k a \<Rightarrow> False
      | _ \<Rightarrow> True) is"
  shows "mem c' = mem c"
  using assms
proof (induction "is" arbitrary: c)
  case (Cons i "is")
  from Cons.prems obtain c1 where c1: "win_exec i c = Some c1" "fold_option win_exec is c1 = Some c'"
    by (auto simp: bind_eq_Some_conv)
  have set_mem: "mem (win_set r v c) = mem c" for r v and c :: win_cpu by (cases r) auto
  have "mem c1 = mem c"
    using c1(1) Cons.prems(2) by (cases i) (auto simp: bind_eq_Some_conv set_mem split: if_splits)
  then show ?case using Cons.IH [OF c1(2)] Cons.prems(2) by simp
qed simp

lemma win_transfer_mem:
  assumes "win_can_switch c" "win_transfer c = Some c1" "mem c (rsp c) = Some ra"
  shows "win_saved (mem c1) (rcx c) c (rsp c) ra"
proof -
  from win_save [OF assms(1)] obtain m where
    m: "fold_option win_exec win_save_code c = Some (c\<lparr>rsp := rsp c - 256, mem := m\<rparr>)"
      "\<forall>ra. mem c (rsp c) = Some ra \<longrightarrow> win_saved m (rcx c) c (rsp c) ra" by blast
  have "fold_option win_exec win_load_code (c\<lparr>rsp := rsp c - 256, mem := m\<rparr>) = Some c1"
    using assms(2) unfolding win_transfer_def win_code_split fold_option_append m(1) Option.bind.simps(2) .
  from win_load_mem [OF this] have "mem c1 = m"
    by (simp add: win_load_code_def win_load_regs_def win_load_xmm_def)
  with m(2) assms(3) show ?thesis by simp
qed

text \<open>
  On 64-bit Windows a coroutine that switches away and is switched to later continues behind its call of
  \<open>coro_transfer\<close> with its stack pointer, its general and its ten vector registers and the words of the thread
  information block, although two of the quadwords of the block overlap.
\<close>

theorem win64_switch_roundtrip:
  assumes "win_can_switch c" "mem c (rsp c) = Some ra" "win_transfer c = Some c1"
    and "win_can_switch c2" "rdx c2 = rcx c"
    and "\<forall>a \<in> insert (rcx c) (insert (rsp c) (win_frame (rsp c))). mem c2 a = mem c1 a"
    and "insert (rcx c) (insert (rsp c) (win_frame (rsp c))) \<inter> insert (rcx c2) (win_frame (rsp c2)) = {}"
  shows "\<exists>c3. win_transfer c2 = Some c3 \<and> rip c3 = ra \<and> rsp c3 = rsp c + 8 \<and> callee.truncate c3 = callee.truncate c
    \<and> rdi c3 = rdi c \<and> rsi c3 = rsi c \<and> map (xmm c3) [6..<16] = map (xmm c) [6..<16]
    \<and> map (tib c3) [0..<5] = map (tib c) [0..<5]"
proof -
  have "win_saved (mem c2) (rcx c) c (rsp c) ra"
    by (rule win_saved_frame [OF win_transfer_mem [OF assms(1,3,2)] assms(6)])
  then have "win_saved (mem c2) (rdx c2) c (rsp c) ra" using assms(5) by simp
  from win_switch_to [OF assms(4) this] assms(5,7) obtain m where
    "win_transfer c2 = (if aligned16 (rsp c - 8)
       then Some ((win_restored c c2)\<lparr>rsp := rsp c + 8, rcx := ra, rip := ra, mem := m\<rparr>) else None)" by auto
  moreover have "aligned16 (rsp c - 8)" using assms(1) by (simp add: win_can_switch_def)
  ultimately show ?thesis by (simp add: win_restored_def callee.defs upt_rec) (simp add: eval_nat_numeral)
qed

text \<open>
  On 64-bit Windows no alignment of the stack makes a new coroutine start properly: when the upper end of its
  stack is a multiple of 16, the first switch faults at the first \<open>movaps\<close>; otherwise it enters \<open>coro_init\<close> with a stack
  pointer that is a multiple of 16, which at the entry of a function it must not be.  The limits of the
  stack that \<open>coro_create\<close> pushes come back in \<open>xmm15\<close>, and the words of the thread information block are zero.
\<close>

theorem win64_first_switch:
  assumes "aligned ctx" "aligned (stk + n)" "\<forall>a \<in> insert ctx (win_create_cells (stk + n)). m a \<noteq> None"
    and "ctx \<notin> win_create_cells (stk + n)"
    and "win_create_frame abort_fn init_fn ctx stk n m = Some (mem c)"
    and "win_can_switch c" "rdx c = ctx"
    and "insert ctx (win_create_cells (stk + n)) \<inter> insert (rcx c) (win_frame (rsp c)) = {}"
  shows "if aligned16 (stk + n) then win_transfer c = None
    else \<exists>c1. win_transfer c = Some c1 \<and> rip c1 = init_fn \<and> aligned16 (rsp c1)
      \<and> xmm c1 15 = (stk, stk + n) \<and> map (tib c1) [0..<5] = [0, 0, 0, 0, 0]"
proof -
  let ?sp = "stk + n - 16"
  have saved: "win_saved (mem c) (rdx c) (win_fresh stk (stk + n)) ?sp init_fn"
    using win_create_saved [OF assms(1,2) refl assms(3,4), of abort_fn init_fn] assms(5,7) by auto
  have "insert (rdx c) (insert ?sp (win_frame ?sp)) \<subseteq> insert ctx (win_create_cells (stk + n))"
    using assms(7)
    by (simp add: win_create_cells_def win_frame_def win_cells_29 win_cells_11 [of ?sp, simplified diff_diff_eq, simplified]
        win_cells_20 [of ?sp, simplified diff_diff_eq, simplified])
  with assms(8) have "insert (rdx c) (insert ?sp (win_frame ?sp)) \<inter> insert (rcx c) (win_frame (rsp c)) = {}" by blast
  from win_switch_to [OF assms(6) saved this] obtain m' where
    run: "win_transfer c = (if aligned16 (?sp - 8)
       then Some ((win_restored (win_fresh stk (stk + n)) c)\<lparr>rsp := ?sp + 8, rcx := init_fn, rip := init_fn, mem := m'\<rparr>)
       else None)" by blast
  have sp: "?sp - 8 = stk + n - 24" "?sp + 8 = stk + n - 8" by (simp_all add: diff_diff_eq)
  have eight: "aligned16 (stk + n - 24) \<longleftrightarrow> \<not> aligned16 (stk + n)" "aligned16 (stk + n - 24) = aligned16 (stk + n - 8)"
    using aligned16_minus8 [OF assms(2)] by simp_all
  show ?thesis using run aligned16_minus8 [OF assms(2)] unfolding sp eight
    by (simp add: win_restored_def win_fresh_def upt_rec)
qed

text \<open>A creator with its context at 8; the new context is at 16, with a stack of 2048 bytes at 4096.\<close>

definition ex_win :: win_cpu where
  "ex_win = \<lparr>rbp = 1, rbx = 2, r12 = 3, r13 = 4, r14 = 5, r15 = 6, rsp = 1032, rdi = 7, rsi = 9, rcx = 8, rip = 0,
     mem = (\<lambda>_. Some 0), rdx = 16, xmm = (\<lambda>i. (of_nat i, 0)), tib = (\<lambda>i. of_nat i)\<rparr>"

lemma clear_cells_mapped: "clear_cells n p m = Some m' \<Longrightarrow> m x \<noteq> None \<Longrightarrow> m' x \<noteq> None"
  by (induction n arbitrary: p m) (auto simp: bind_eq_Some_conv store_def split: if_splits)

lemma win_push_mapped: "win_push ctx v m = Some m' \<Longrightarrow> m x \<noteq> None \<Longrightarrow> m' x \<noteq> None"
  by (auto simp: win_push_def bind_eq_Some_conv store_def split: if_splits)

lemma store_mapped: "store a v m = Some m' \<Longrightarrow> m x \<noteq> None \<Longrightarrow> m' x \<noteq> None"
  by (auto simp: store_def split: if_splits)

lemma win_create_mapped:
  assumes "win_create_frame abort_fn init_fn ctx stk n m = Some m'" "m x \<noteq> None"
  shows "m' x \<noteq> None"
proof -
  from assms(1) obtain m1 m2 m3 m4 m5 m6 sp m7 where
    m: "store ctx (n + stk) m = Some m1" "win_push ctx abort_fn m1 = Some m2" "win_push ctx init_fn m2 = Some m3"
      "win_push ctx 0 m3 = Some m4" "win_push ctx (stk + n) m4 = Some m5" "win_push ctx stk m5 = Some m6"
      "store ctx (sp - 8 * of_nat NUM_SAVED_WIN) m6 = Some m7"
      "clear_cells NUM_SAVED_WIN (sp - 8 * of_nat NUM_SAVED_WIN) m7 = Some m'"
    unfolding win_create_frame_def bind_eq_Some_conv by blast
  show ?thesis
    by (intro clear_cells_mapped [OF m(8)] store_mapped [OF m(7)] win_push_mapped [OF m(6)] win_push_mapped [OF m(5)]
        win_push_mapped [OF m(4)] win_push_mapped [OF m(3)] win_push_mapped [OF m(2)] store_mapped [OF m(1)] assms(2))
qed

theorem win64_first_switch_witness:
  "\<exists>m. win_create_frame 98 99 16 4096 2048 (\<lambda>_. Some 0) = Some m \<and> win_transfer (ex_win\<lparr>mem := m\<rparr>) = None"
proof -
  have "\<exists>m. win_create_frame 98 99 16 4096 2048 (\<lambda>_. Some 0) = Some m
    \<and> win_saved m 16 (win_fresh 4096 6144) (6144 - 16) 99"
    by (rule win_create_saved)
      (simp_all add: aligned_def win_create_cells_def win_cells_numeral)
  then obtain m where m: "win_create_frame 98 99 16 4096 2048 (\<lambda>_. Some 0) = Some m" by blast
  have mapped: "m x \<noteq> None" for x by (rule win_create_mapped [OF m]) simp
  have al: "aligned16 (4096 + 2048)" by (simp add: aligned16_def)
  have "win_can_switch (ex_win\<lparr>mem := m\<rparr>)"
    unfolding win_can_switch_def writable_def using mapped
    by (simp add: ex_win_def aligned_def aligned16_def win_frame_def win_cells_numeral)
  then have "if aligned16 (4096 + 2048) then win_transfer (ex_win\<lparr>mem := m\<rparr>) = None
    else \<exists>c1. win_transfer (ex_win\<lparr>mem := m\<rparr>) = Some c1 \<and> rip c1 = 99 \<and> aligned16 (rsp c1)
      \<and> xmm c1 15 = (4096, 4096 + 2048) \<and> map (tib c1) [0..<5] = [0, 0, 0, 0, 0]"
    by (rule win64_first_switch [where ctx = 16 and m = "\<lambda>_. Some 0" and abort_fn = 98, rotated 5])
      (simp_all add: m aligned_def ex_win_def win_create_cells_def win_frame_def win_cells_numeral)
  with m al show ?thesis by simp
qed

end
