(* ===== verification/Coro_Sjlj.thy ===== *)
theory Coro_Sjlj
  imports Coro
begin

text \<open>
  The backend of src/cs_coro.c with \<open>setjmp\<close> and an alternate signal stack (CORO_SJLJ), which the project does not
  build: \<open>coro_create\<close> sends its process a signal whose handler saves a context on the new stack.  The state is
  what the system keeps of the process: signal mask, pending signals, the action for SIGUSR2 and the alternate
  stack; the functions on it do what POSIX documents, and whether the two calls that are checked succeed is a
  parameter.  No other signal is sent.
\<close>

type_synonym signal = nat

definition SIGUSR2 :: signal where
  "SIGUSR2 = 12"

text \<open>A disposition: the address of the handler, the signals blocked while it runs, and SA_ONSTACK.\<close>

record disposition =
  sa_handler :: addr
  sa_mask :: "signal set"
  sa_onstack :: bool

record stack_t =
  ss_sp :: addr
  ss_size :: size_t
  ss_disable :: bool

text \<open>
  A context: the stack its \<open>setjmp\<close> was called on, and from where.  \<open>None\<close> is the stack the program runs on.
\<close>

datatype jump_point = In_trampoline | In_transfer

record jmp_env =
  jstack :: "(addr \<times> size_t) option"
  jpoint :: jump_point

record process =
  blocked :: "signal set"
  pending :: "signal set"
  action :: disposition
  altstack :: "(addr \<times> size_t) option"
  envs :: "addr \<rightharpoonup> jmp_env"
  statics :: coro_statics
  trampoline_done :: bool

section \<open>The system\<close>

definition sigaltstack_get :: "process \<Rightarrow> stack_t" where
  "sigaltstack_get p =
     (case altstack p of
        None \<Rightarrow> \<lparr>ss_sp = 0, ss_size = 0, ss_disable = True\<rparr>
      | Some (a, n) \<Rightarrow> \<lparr>ss_sp = a, ss_size = n, ss_disable = False\<rparr>)"

definition sigaltstack_set :: "stack_t \<Rightarrow> process \<Rightarrow> process" where
  "sigaltstack_set st p = p\<lparr>altstack := (if ss_disable st then None else Some (ss_sp st, ss_size st))\<rparr>"

definition kill_self :: "signal \<Rightarrow> process \<Rightarrow> process" where
  "kill_self sg p = p\<lparr>pending := insert sg (pending p)\<rparr>"

section \<open>The handler\<close>

text \<open>The first return of \<open>coro_setjmp\<close> is zero; \<open>stk\<close> is the stack the handler runs on.\<close>

definition trampoline :: "(addr \<times> size_t) option \<Rightarrow> process \<Rightarrow> process" where
  "trampoline stk p =
     p\<lparr>envs := (envs p)(new_coro (statics p) \<mapsto> \<lparr>jstack = stk, jpoint = In_trampoline\<rparr>), trampoline_done := True\<rparr>"

text \<open>
  \<open>sigsuspend\<close> with every signal but SIGUSR2 blocked: it delivers the signal when it is pending (\<open>None\<close>: it never
  returns) and restores the mask.  The handler is called when it is the one that was installed.
\<close>

definition sigsuspend :: "addr \<Rightarrow> process \<Rightarrow> process option" where
  "sigsuspend handler p =
     (if SIGUSR2 \<in> pending p \<and> sa_handler (action p) = handler
      then Some (trampoline (if sa_onstack (action p) then altstack p else None)
                   (p\<lparr>pending := pending p - {SIGUSR2}\<rparr>))
      else None)"

partial_function (option) suspend_loop :: "addr \<Rightarrow> process \<Rightarrow> process option" where
  "suspend_loop handler p =
     (if trampoline_done p then Some p else Option.bind (sigsuspend handler p) (suspend_loop handler))"

section \<open>Creating\<close>

datatype sj_error = Aborted string

text \<open>STACK_ADJUST_PTR and STACK_ADJUST_SIZE of the platforms the code tells apart.\<close>

datatype platform = Sgi | I386_linux | Amd64_linux | Other_platform

fun stack_adjust :: "platform \<Rightarrow> addr \<Rightarrow> size_t \<Rightarrow> addr \<times> size_t" where
  "stack_adjust Sgi sp ss = (sp + ss - 8, ss - 8)"
| "stack_adjust I386_linux sp ss = (sp + ss, ss)"
| "stack_adjust Amd64_linux sp ss = (sp + ss - 8, ss)"
| "stack_adjust Other_platform sp ss = (sp, ss)"

text \<open>
  \<open>tramp\<close> is the address of \<open>trampoline\<close>, \<open>sa_ok\<close> and \<open>ss_ok\<close> say whether the calls of \<open>sigaction\<close> and
  \<open>sigaltstack\<close> that are checked succeed.  As in the theory Coro the result has the arguments of the last call,
  of \<open>coro_transfer\<close>.  \<open>None\<close>: the loop does not end.
\<close>

definition sj_signal :: "addr \<Rightarrow> bool \<Rightarrow> bool \<Rightarrow> stack_t \<Rightarrow> process \<Rightarrow> (sj_error + process) option" where
  "sj_signal tramp sa_ok ss_ok nstk p =
     (let osig = blocked p;
          p = p\<lparr>blocked := insert SIGUSR2 (blocked p)\<rparr>;
          nsa = \<lparr>sa_handler = tramp, sa_mask = {}, sa_onstack = True\<rparr>
      in if \<not> sa_ok then Some (Inl (Aborted ''sigaction''))
         else
           let osa = action p;
               p = p\<lparr>action := nsa\<rparr>
           in if \<not> ss_ok then Some (Inl (Aborted ''sigaltstack''))
              else
                let ostk = sigaltstack_get p;
                    p = sigaltstack_set nstk p;
                    p = kill_self SIGUSR2 (p\<lparr>trampoline_done := False\<rparr>)
                in case suspend_loop tramp p of None \<Rightarrow> None
                   | Some p \<Rightarrow>
                       let nstk = (sigaltstack_get p)\<lparr>ss_disable := True\<rparr>;
                           p = sigaltstack_set nstk p;
                           nstk = sigaltstack_get p
                       in if \<not> ss_disable nstk then Some (Inl (Aborted []))
                          else
                            let p = (if \<not> ss_disable ostk then sigaltstack_set ostk p else p)
                            in Some (Inr (p\<lparr>action := osa, blocked := osig\<rparr>)))"

definition sj_create ::
  "addr \<Rightarrow> bool \<Rightarrow> bool \<Rightarrow> platform \<Rightarrow> addr \<Rightarrow> addr \<Rightarrow> addr \<Rightarrow> uint64 \<Rightarrow> addr \<Rightarrow> size_t \<Rightarrow> process \<Rightarrow>
   (sj_error + (addr \<times> addr) option \<times> process) option" where
  "sj_create tramp sa_ok ss_ok pl nctx ctx coro arg stk ssize p =
     (if coro = NULL then Some (Inr (None, p))
      else
        let g = (statics p)\<lparr>coro_init_func := coro, coro_init_arg := arg, new_coro := ctx, create_coro := nctx\<rparr>;
            (a, n) = stack_adjust pl stk ssize
        in map_option (map_sum id (\<lambda>p. (Some (create_coro (statics p), new_coro (statics p)), p)))
             (sj_signal tramp sa_ok ss_ok \<lparr>ss_sp = a, ss_size = n, ss_disable = False\<rparr> (p\<lparr>statics := g\<rparr>)))"

text \<open>
  \<open>coro_transfer\<close> saves the caller and continues where the other context was saved: in the handler, which calls
  \<open>coro_init\<close>, or behind its own \<open>coro_transfer\<close>.
\<close>

datatype resumed = Start_coroutine "coro_call list" | Behind_transfer

definition sj_transfer :: "(addr \<times> size_t) option \<Rightarrow> addr \<Rightarrow> addr \<Rightarrow> process \<Rightarrow>
    ((addr \<times> size_t) option \<times> resumed \<times> process) option" where
  "sj_transfer stk prev nxt p =
     (let p = p\<lparr>envs := (envs p)(prev \<mapsto> \<lparr>jstack = stk, jpoint = In_transfer\<rparr>)\<rparr>
      in case envs p nxt of None \<Rightarrow> None
         | Some e \<Rightarrow>
             Some (jstack e,
                   case jpoint e of In_trampoline \<Rightarrow> Start_coroutine (coro_init (statics p))
                   | In_transfer \<Rightarrow> Behind_transfer, p))"

section \<open>Properties\<close>

text \<open>The signal is pending, so one turn of the loop is enough.\<close>

lemma suspend_once:
  assumes "\<not> trampoline_done p" "sigsuspend h p = Some p'"
  shows "suspend_loop h p = Some p'"
proof -
  have "trampoline_done p'" using assms(2) by (auto simp: sigsuspend_def trampoline_def split: if_splits)
  then show ?thesis by (subst suspend_loop.simps) (simp add: assms suspend_loop.simps)
qed

lemma sj_signal_ok:
  "sj_signal tramp True True \<lparr>ss_sp = a, ss_size = n, ss_disable = False\<rparr> p =
     Some (Inr (p\<lparr>pending := pending p - {SIGUSR2},
                  envs := (envs p)(new_coro (statics p) \<mapsto> \<lparr>jstack = Some (a, n), jpoint = In_trampoline\<rparr>),
                  trampoline_done := True\<rparr>))"
proof -
  let ?p = "kill_self SIGUSR2 (sigaltstack_set \<lparr>ss_sp = a, ss_size = n, ss_disable = False\<rparr>
      (p\<lparr>blocked := insert SIGUSR2 (blocked p), action := \<lparr>sa_handler = tramp, sa_mask = {}, sa_onstack = True\<rparr>\<rparr>)
      \<lparr>trampoline_done := False\<rparr>)"
  let ?q = "trampoline (Some (a, n)) (?p\<lparr>pending := pending ?p - {SIGUSR2}\<rparr>)"
  have "sigsuspend tramp ?p = Some ?q" by (simp add: sigsuspend_def kill_self_def sigaltstack_set_def)
  then have loop: "suspend_loop tramp ?p = Some ?q" by (intro suspend_once) (simp_all add: kill_self_def)
  show ?thesis
  proof (cases "altstack p")
    case None
    have "altstack ?q = Some (a, n)" by (simp add: trampoline_def kill_self_def sigaltstack_set_def)
    then show ?thesis using None unfolding sj_signal_def Let_def
      by (simp add: loop sigaltstack_get_def) (simp add: trampoline_def kill_self_def sigaltstack_set_def)
  next
    case (Some st)
    then show ?thesis unfolding sj_signal_def Let_def
      by (cases st) (simp add: loop sigaltstack_get_def, simp add: trampoline_def kill_self_def sigaltstack_set_def)
  qed
qed

text \<open>C36: With signals a new context costs the process nothing: when the two checked calls succeed, \<open>coro_create\<close>
  returns with the mask, the action of SIGUSR2 and the alternate stack that were there before (a SIGUSR2 that the
  caller had blocked and that was pending is lost); its transfer continues on the given stack in \<open>coro_init\<close>, which
  switches back to the creator and then calls the function.
\<close>

theorem sjlj_create_restores:
  assumes "coro \<noteq> NULL" "nctx \<noteq> ctx"
  shows "\<exists>p'. sj_create tramp True True pl nctx ctx coro arg stk n p = Some (Inr (Some (nctx, ctx), p'))
    \<and> blocked p' = blocked p \<and> action p' = action p \<and> altstack p' = altstack p
    \<and> pending p' = pending p - {SIGUSR2}
    \<and> (\<exists>p''. sj_transfer here nctx ctx p' = Some (Some (stack_adjust pl stk n),
          Start_coroutine [Transfer ctx nctx, Call coro arg, Abort], p'')
        \<and> envs p'' nctx = Some \<lparr>jstack = here, jpoint = In_transfer\<rparr>)"
proof -
  obtain a k where ak: "stack_adjust pl stk n = (a, k)" by (cases "stack_adjust pl stk n") auto
  let ?g = "(statics p)\<lparr>coro_init_func := coro, coro_init_arg := arg, new_coro := ctx, create_coro := nctx\<rparr>"
  let ?p = "p\<lparr>statics := ?g, pending := pending p - {SIGUSR2},
      envs := (envs p)(ctx \<mapsto> \<lparr>jstack = Some (a, k), jpoint = In_trampoline\<rparr>), trampoline_done := True\<rparr>"
  have "sj_create tramp True True pl nctx ctx coro arg stk n p = Some (Inr (Some (nctx, ctx), ?p))"
    using assms(1) by (simp add: sj_create_def ak sj_signal_ok)
  moreover have "sj_transfer here nctx ctx ?p = Some (Some (stack_adjust pl stk n),
      Start_coroutine [Transfer ctx nctx, Call coro arg, Abort],
      ?p\<lparr>envs := (envs ?p)(nctx \<mapsto> \<lparr>jstack = here, jpoint = In_transfer\<rparr>)\<rparr>)"
    using assms(2) by (simp add: sj_transfer_def ak coro_init_def)
  ultimately show ?thesis by (intro exI [of _ ?p]) simp
qed

text \<open>A process that blocks signal 2 and has an alternate stack of its own.\<close>

definition ex_process :: process where
  "ex_process = \<lparr>blocked = {2}, pending = {}, action = \<lparr>sa_handler = 0, sa_mask = {}, sa_onstack = False\<rparr>,
     altstack = Some (4096, 8192), envs = Map.empty,
     statics = \<lparr>coro_init_func = 0, coro_init_arg = 0, new_coro = 0, create_coro = 0\<rparr>, trampoline_done = False\<rparr>"

theorem sjlj_create_restores_witness:
  "\<exists>p'. sj_create 300 True True Other_platform 8 16 400 5 65536 8192 ex_process = Some (Inr (Some (8, 16), p'))
    \<and> blocked p' = blocked ex_process \<and> action p' = action ex_process \<and> altstack p' = altstack ex_process
    \<and> pending p' = pending ex_process - {SIGUSR2}
    \<and> (\<exists>p''. sj_transfer None 8 16 p' = Some (Some (stack_adjust Other_platform 65536 8192),
          Start_coroutine [Transfer 16 8, Call 400 5, Abort], p'')
        \<and> envs p'' 8 = Some \<lparr>jstack = None, jpoint = In_transfer\<rparr>)"
  by (rule sjlj_create_restores) simp_all

end
