(* ===== verification/Coro_Setjmp.thy ===== *)
theory Coro_Setjmp
  imports Coro
begin

text \<open>
  The backends of src/cs_coro.c that write the program counter and the stack pointer into a jump buffer (CORO_LOSER,
  CORO_LINUX, CORO_IRIX), and the one with ucontext, none of which the project builds.  Of a jump buffer
  the two fields the code writes are modelled; which fields they are is up to the C library.
\<close>

section \<open>Jump buffers\<close>

record jmp_buf =
  jb_pc :: addr
  jb_sp :: addr

text \<open>
  The variants the code tells apart, and for the first one of CORO_LINUX the processors that STACK_ADJUST_PTR does.
\<close>

datatype cpu_arch = Arch_i386 | Arch_amd64 | Arch_other

datatype setjmp_variant =
  Cygwin_i386 | Cygwin_x86_64 | Mingw32 | Msvc_x86 | Msvc_amd64 | Msvc_ia64 |
  Glibc_jb cpu_arch | Glibc_m68k | Gnu_i386 | Gnu_amd64 | Irix

fun linux_adjust :: "cpu_arch \<Rightarrow> addr \<Rightarrow> size_t \<Rightarrow> addr" where
  "linux_adjust Arch_i386 sp ss = sp + ss"
| "linux_adjust Arch_amd64 sp ss = sp + ss - 8"
| "linux_adjust Arch_other sp ss = sp"

text \<open>\<open>long\<close> has 4 bytes on 32-bit processors and in the C of Microsoft, else 8.\<close>

fun sizeof_long :: "cpu_arch \<Rightarrow> addr" where
  "sizeof_long Arch_i386 = 4"
| "sizeof_long Arch_amd64 = 8"
| "sizeof_long Arch_other = 8"

fun setjmp_sp :: "setjmp_variant \<Rightarrow> addr \<Rightarrow> size_t \<Rightarrow> addr" where
  "setjmp_sp Cygwin_i386 stk ssize = stk + ssize - 4"
| "setjmp_sp Cygwin_x86_64 stk ssize = stk + ssize - 8"
| "setjmp_sp Mingw32 stk ssize = stk + ssize - 4"
| "setjmp_sp Msvc_x86 stk ssize = stk + ssize - 4"
| "setjmp_sp Msvc_amd64 stk ssize = stk + ssize - 8 - 8"
| "setjmp_sp Msvc_ia64 stk ssize = stk + ssize - 8 - 8"
| "setjmp_sp (Glibc_jb arch) stk ssize = linux_adjust arch stk ssize - sizeof_long arch"
| "setjmp_sp Glibc_m68k stk ssize = stk + ssize - 4 * 4"
| "setjmp_sp Gnu_i386 stk ssize = stk + ssize - 4"
| "setjmp_sp Gnu_amd64 stk ssize = stk + ssize - 8"
| "setjmp_sp Irix stk ssize = stk + ssize - 8 - 8"

text \<open>
  \<open>here\<close> is the place of the call: where it returns to, and its stack pointer.  \<open>coro_setjmp\<close> fills the buffer with it,
  then the two fields are written.
\<close>

definition plain_create ::
  "setjmp_variant \<Rightarrow> addr \<Rightarrow> addr \<Rightarrow> addr \<Rightarrow> size_t \<Rightarrow> jmp_buf \<Rightarrow> (addr \<rightharpoonup> jmp_buf) \<Rightarrow> addr \<rightharpoonup> jmp_buf" where
  "plain_create v init_fn ctx stk ssize here envs =
     envs(ctx \<mapsto> here\<lparr>jb_pc := init_fn, jb_sp := setjmp_sp v stk ssize\<rparr>)"

definition plain_transfer ::
  "addr \<Rightarrow> addr \<Rightarrow> jmp_buf \<Rightarrow> (addr \<rightharpoonup> jmp_buf) \<Rightarrow> (jmp_buf \<times> (addr \<rightharpoonup> jmp_buf)) option" where
  "plain_transfer prev nxt here envs =
     (let envs = envs(prev \<mapsto> here)
      in map_option (\<lambda>e. (e, envs)) (envs nxt))"

text \<open>
  A transfer to a new context starts \<open>coro_init\<close> at the stack pointer above; the transfer back continues where the
  first one was called.
\<close>

lemma plain_enter_return:
  assumes "cx \<noteq> main"
  shows "\<exists>e1 e2. plain_transfer main cx here (plain_create v init_fn cx stk n h envs) = Some (e1, e2)
    \<and> jb_pc e1 = init_fn \<and> jb_sp e1 = setjmp_sp v stk n
    \<and> (\<forall>there. map_option fst (plain_transfer cx main there e2) = Some here)"
  using assms by (simp add: plain_transfer_def plain_create_def)

section \<open>Where the stack pointer is\<close>

text \<open>
  With CORO_LINUX on a processor that is neither i386 nor amd64, STACK_ADJUST_PTR is the lower end of the stack: the
  coroutine runs below its stack.  With every other variant the pointer is near the upper end.
\<close>

lemma below_top:
  fixes stk n k :: addr
  assumes "uint stk + uint n < 2 ^ 64" "uint k \<le> uint n"
  shows "uint (stk + n - k) = uint stk + uint n - uint k"
proof -
  have nn: "0 \<le> uint stk" "0 \<le> uint k" "0 \<le> uint n" by simp_all
  then have "(uint stk + uint n - uint k) mod 2 ^ 64 = uint stk + uint n - uint k"
    using assms by (intro mod_pos_pos_trivial) linarith+
  then show ?thesis by (simp add: uint_word_ariths mod_diff_left_eq)
qed

theorem setjmp_stack_pointer:
  assumes "uint stk + uint n < 2 ^ 64" "16 \<le> uint n" "8 \<le> uint stk"
  shows "stk \<le> setjmp_sp v stk n \<longleftrightarrow> v \<noteq> Glibc_jb Arch_other"
proof (cases "v = Glibc_jb Arch_other")
  case True
  have "uint (stk - 8) = uint stk - 8"
    using assms by (simp add: uint_word_ariths mod_pos_pos_trivial)
  then show ?thesis using True by (simp add: word_le_def)
next
  case False
  have "\<exists>k. setjmp_sp v stk n = stk + n - k \<and> uint k \<le> 16"
  proof (cases v)
    case (Glibc_jb arch)
    with False show ?thesis
      by (cases arch) (auto simp: diff_diff_eq intro: exI [of _ 4] exI [of _ 16])
  qed (auto simp: diff_diff_eq intro: exI [of _ 4] exI [of _ 8] exI [of _ 16])
  then obtain k where "setjmp_sp v stk n = stk + n - k" "uint k \<le> 16" by blast
  then show ?thesis using below_top [of stk n k] assms False by (simp add: word_le_def)
qed

section \<open>ucontext\<close>

text \<open>\<open>None\<close> as the place is the start of \<open>coro_init\<close>; \<open>uc_link\<close> is always 0.\<close>

record ucontext =
  uc_place :: "addr option"
  uc_stack :: "(addr \<times> size_t) option"

definition uc_create :: "addr \<Rightarrow> addr \<Rightarrow> size_t \<Rightarrow> (addr \<rightharpoonup> ucontext) \<Rightarrow> addr \<rightharpoonup> ucontext" where
  "uc_create ctx stk ssize ucs = ucs(ctx \<mapsto> \<lparr>uc_place = None, uc_stack = Some (stk, ssize)\<rparr>)"

definition uc_transfer ::
  "addr \<Rightarrow> addr \<Rightarrow> ucontext \<Rightarrow> (addr \<rightharpoonup> ucontext) \<Rightarrow> (ucontext \<times> (addr \<rightharpoonup> ucontext)) option" where
  "uc_transfer prev nxt here ucs =
     (let ucs = ucs(prev \<mapsto> here)
      in map_option (\<lambda>u. (u, ucs)) (ucs nxt))"

lemma uc_enter_return:
  assumes "cx \<noteq> main"
  shows "\<exists>u ucs2. uc_transfer main cx here (uc_create cx stk n ucs) = Some (u, ucs2)
    \<and> uc_place u = None \<and> uc_stack u = Some (stk, n)
    \<and> (\<forall>there. map_option fst (uc_transfer cx main there ucs2) = Some here)"
  using assms by (simp add: uc_transfer_def uc_create_def)

end
