(* ===== verification/Coro_Fiber.thy ===== *)
theory Coro_Fiber
  imports Coro
begin

text \<open>
  The backend of src/cs_coro.c with the fibers of Windows (CORO_FIBER), which the project does not build.  What
  \<open>CreateFiber\<close> and \<open>ConvertThreadToFiber\<close> return, the address of a fiber or 0, is a parameter, as is what
  \<open>GetCurrentFiber\<close> returns in a thread that is no fiber yet (0 or 0x1e00, depending on the system).
\<close>

record fiber_ctx =
  fiber :: addr
  fiber_fn :: addr
  fiber_arg :: uint64

text \<open>Where a fiber continues: at the start of \<open>coro_init\<close> with its context, or behind its own switch.\<close>

datatype fiber_point = Fiber_start addr | Fiber_behind

record fibers =
  current :: "addr option"
  points :: "addr \<rightharpoonup> fiber_point"
  ctxs :: "addr \<Rightarrow> fiber_ctx"

definition set_fiber :: "addr \<Rightarrow> addr \<Rightarrow> fibers \<Rightarrow> fibers" where
  "set_fiber cx f s = s\<lparr>ctxs := (ctxs s)(cx := (ctxs s cx)\<lparr>fiber := f\<rparr>)\<rparr>"

text \<open>What the fiber that is switched to does next: call the function of its coroutine, or go on.\<close>

datatype fiber_next = Call_coro addr uint64 | Go_on

definition fiber_coro_init :: "addr \<Rightarrow> fibers \<Rightarrow> fiber_next" where
  "fiber_coro_init cx s = Call_coro (fiber_fn (ctxs s cx)) (fiber_arg (ctxs s cx))"

text \<open>\<open>SwitchToFiber\<close>; \<open>None\<close> for an address that is no fiber.\<close>

definition switch_to_fiber :: "addr \<Rightarrow> fibers \<Rightarrow> (fiber_next \<times> fibers) option" where
  "switch_to_fiber f s =
     (case (current s, points s f) of
        (Some c, Some pt) \<Rightarrow>
          Some (case pt of Fiber_start cx \<Rightarrow> fiber_coro_init cx s | Fiber_behind \<Rightarrow> Go_on,
                s\<lparr>current := Some f, points := (points s)(c \<mapsto> Fiber_behind)\<rparr>)
      | _ \<Rightarrow> None)"

definition fiber_transfer :: "addr \<Rightarrow> addr \<Rightarrow> addr \<Rightarrow> addr \<Rightarrow> fibers \<Rightarrow> (fiber_next \<times> fibers) option" where
  "fiber_transfer no_fiber converted prev nxt s =
     (let s = (if fiber (ctxs s prev) = 0
               then
                 let f = (case current s of None \<Rightarrow> no_fiber | Some f \<Rightarrow> f);
                     s = set_fiber prev f s
                 in if f = 0 \<or> f = 0x1e00
                    then set_fiber prev converted
                           (if converted \<noteq> 0
                            then s\<lparr>current := Some converted, points := (points s)(converted \<mapsto> Fiber_behind)\<rparr> else s)
                    else s
               else s)
      in switch_to_fiber (fiber (ctxs s nxt)) s)"

definition fiber_create :: "addr \<Rightarrow> addr \<Rightarrow> addr \<Rightarrow> uint64 \<Rightarrow> fibers \<Rightarrow> fibers" where
  "fiber_create created cx f arg s =
     (let s = s\<lparr>ctxs := (ctxs s)(cx := \<lparr>fiber = 0, fiber_fn = f, fiber_arg = arg\<rparr>)\<rparr>
      in if f = NULL then s
         else set_fiber cx created (if created \<noteq> 0 then s\<lparr>points := (points s)(created \<mapsto> Fiber_start cx)\<rparr> else s))"

text \<open>\<open>DeleteFiber\<close> of a fiber that is not the current one.\<close>

definition fiber_destroy :: "addr \<Rightarrow> fibers \<Rightarrow> fibers" where
  "fiber_destroy cx s = s\<lparr>points := (points s)(fiber (ctxs s cx) := None)\<rparr>"

section \<open>Properties\<close>

lemma set_fiber_sel [simp]:
  "current (set_fiber cx f s) = current s" "points (set_fiber cx f s) = points s"
  "ctxs (set_fiber cx f s) = (ctxs s)(cx := (ctxs s cx)\<lparr>fiber := f\<rparr>)"
  by (simp_all add: set_fiber_def)

text \<open>
  With fibers the first transfer of a thread that is none yet makes it one and calls the function of the new
  coroutine, and the transfer back continues in that thread.
\<close>

theorem fiber_create_transfer:
  assumes "current s = None" "no_fiber \<in> {0, 0x1e00}" "f \<noteq> NULL" "created \<noteq> 0" "converted \<noteq> 0" "created \<noteq> converted"
    and "main \<noteq> cx" "fiber (ctxs s main) = 0"
  shows "\<exists>s1 s2. fiber_transfer no_fiber converted main cx (fiber_create created cx f arg s) = Some (Call_coro f arg, s1)
    \<and> current s1 = Some created
    \<and> (\<forall>any. fiber_transfer no_fiber any cx main s1 = Some (Go_on, s2)) \<and> current s2 = Some converted
    \<and> points s2 created = Some Fiber_behind"
proof -
  let ?c = "fiber_create created cx f arg s"
  have c: "current ?c = None" "points ?c = (points s)(created \<mapsto> Fiber_start cx)" "fiber (ctxs ?c main) = 0"
    "ctxs ?c cx = \<lparr>fiber = created, fiber_fn = f, fiber_arg = arg\<rparr>"
    using assms by (simp_all add: fiber_create_def)
  let ?m = "set_fiber main converted (set_fiber main no_fiber ?c
      \<lparr>current := Some converted, points := (points ?c)(converted \<mapsto> Fiber_behind)\<rparr>)"
  let ?s1 = "?m\<lparr>current := Some created, points := (points ?m)(converted \<mapsto> Fiber_behind)\<rparr>"
  let ?s2 = "?s1\<lparr>current := Some converted, points := (points ?s1)(created \<mapsto> Fiber_behind)\<rparr>"
  have "fiber_transfer no_fiber converted main cx ?c = switch_to_fiber created ?m"
    using assms c by (auto simp: fiber_transfer_def Let_def)
  also have "\<dots> = Some (Call_coro f arg, ?s1)"
    using assms(6,7) c by (simp add: switch_to_fiber_def fiber_coro_init_def)
  finally have 1: "fiber_transfer no_fiber converted main cx ?c = Some (Call_coro f arg, ?s1)" .
  have "fiber_transfer no_fiber any cx main ?s1 = Some (Go_on, ?s2)" for any
    using assms(4,7) c by (simp add: fiber_transfer_def switch_to_fiber_def)
  with 1 show ?thesis using assms(6) by (intro exI [of _ ?s1] exI [of _ ?s2]) simp
qed

definition ex_fibers :: fibers where
  "ex_fibers = \<lparr>current = None, points = Map.empty, ctxs = (\<lambda>_. \<lparr>fiber = 0, fiber_fn = 0, fiber_arg = 0\<rparr>)\<rparr>"

theorem fiber_create_transfer_witness:
  "\<exists>s1 s2. fiber_transfer 0x1e00 40 1 2 (fiber_create 50 2 400 7 ex_fibers) = Some (Call_coro 400 7, s1)
    \<and> current s1 = Some 50
    \<and> (\<forall>any. fiber_transfer 0x1e00 any 2 1 s1 = Some (Go_on, s2)) \<and> current s2 = Some 40
    \<and> points s2 50 = Some Fiber_behind"
  by (rule fiber_create_transfer) (simp_all add: ex_fibers_def)

text \<open>
  The result of \<open>CreateFiber\<close> is not looked at: when it fails, the first transfer switches to no fiber.
\<close>

lemma fiber_create_failure:
  assumes "f \<noteq> NULL" "points s 0 = None" "main \<noteq> cx"
  shows "fiber_transfer no_fiber converted main cx (fiber_create 0 cx f arg s) = None"
  using assms by (auto simp: fiber_transfer_def fiber_create_def switch_to_fiber_def Let_def split: option.splits)

end
