(* ===== verification/Macros.thy ===== *)
theory Macros
  imports Log Sockets
begin

text \<open>
  Macros of cs_util.h, cs_string.h and cs_log.h that are not part of a function: limits, alignment, lengths of
  decimal texts, strings that refer to a text, and the debugging macros of a build with NC_DEBUG_LOG (in the build of
  the project these are empty).
\<close>

section \<open>Numbers\<close>

definition MIN_of :: "int \<Rightarrow> int \<Rightarrow> int" where
  "MIN_of a b = (if a < b then a else b)"

definition MAX_of :: "int \<Rightarrow> int \<Rightarrow> int" where
  "MAX_of a b = (if a > b then a else b)"

definition M_UINT8_MAXLEN :: nat where "M_UINT8_MAXLEN = 3 + 1"
definition M_UINT16_MAXLEN :: nat where "M_UINT16_MAXLEN = 5 + 1"
definition M_UINT32_MAXLEN :: nat where "M_UINT32_MAXLEN = 10 + 1"
definition M_UINT64_MAXLEN :: nat where "M_UINT64_MAXLEN = 20 + 1"
definition M_UINTMAX_MAXLEN :: nat where "M_UINTMAX_MAXLEN = M_UINT64_MAXLEN"

definition M_INET4_ADDRSTRLEN :: nat where
  "M_INET4_ADDRSTRLEN = length ''255.255.255.255''"

definition M_INET6_ADDRSTRLEN :: nat where
  "M_INET6_ADDRSTRLEN = length ''ffff:ffff:ffff:ffff:ffff:ffff:255.255.255.255''"

definition M_INET_ADDRSTRLEN :: nat where
  "M_INET_ADDRSTRLEN = nat (MAX_of (int M_INET4_ADDRSTRLEN) (int M_INET6_ADDRSTRLEN))"

definition M_ALIGN :: "size_t \<Rightarrow> size_t \<Rightarrow> size_t" where
  "M_ALIGN d n = (d + (n - 1)) AND NOT (n - 1)"

definition M_ALIGN_PTR :: "addr \<Rightarrow> size_t \<Rightarrow> addr" where
  "M_ALIGN_PTR p n = (p + (n - 1)) AND NOT (n - 1)"

text \<open>The clamping of levels in cs_log.c is the two macros.\<close>

lemma log_clamp_macros: "log_clamp level = MAX_of LOG_EMERG (MIN_of level LOG_PVERB)"
  by (simp add: log_clamp_def MAX_of_def MIN_of_def)

section \<open>Alignment\<close>

lemma and_not_mask:
  fixes x :: "'a::len word"
  shows "x AND NOT (mask k) = push_bit k (drop_bit k x)"
  by (rule bit_word_eqI) (auto simp: bit_simps)

lemma uint_push_drop:
  fixes x :: "64 word"
  shows "uint (push_bit k (drop_bit k x)) = uint x - uint x mod 2 ^ k"
proof -
  have "take_bit 64 (uint x) = uint x" by (rule take_bit_int_eq_self) (use unsigned_less [of x] in simp_all)
  then have "uint (push_bit k (drop_bit k x)) = take_bit 64 (push_bit k (drop_bit k (uint x)))"
    by (simp add: unsigned_push_bit_eq unsigned_drop_bit_eq)
  also have "push_bit k (drop_bit k (uint x)) = uint x - uint x mod 2 ^ k"
    by (simp add: push_bit_eq_mult drop_bit_eq_div minus_mod_eq_div_mult)
  also have "take_bit 64 (uint x - uint x mod 2 ^ k) = uint x - uint x mod 2 ^ k"
  proof (rule take_bit_int_eq_self)
    show "0 \<le> uint x - uint x mod 2 ^ k" by (simp add: zmod_le_nonneg_dividend)
    have "uint x < 2 ^ 64" using unsigned_less [of x] by simp
    moreover have "0 \<le> uint x mod 2 ^ k" by simp
    ultimately show "uint x - uint x mod 2 ^ k < 2 ^ 64" by linarith
  qed
  finally show ?thesis .
qed

text \<open>
  For a power of two M_ALIGN rounds up to the next multiple, when that does not wrap around.
\<close>

theorem M_ALIGN_correct:
  assumes "k < 64" "uint d + 2 ^ k \<le> 2 ^ 64"
  shows "uint (M_ALIGN d (2 ^ k)) mod 2 ^ k = 0 \<and> uint d \<le> uint (M_ALIGN d (2 ^ k))
    \<and> uint (M_ALIGN d (2 ^ k)) < uint d + 2 ^ k"
proof -
  let ?s = "d + mask k"
  have p: "(1::int) \<le> 2 ^ k" by simp
  have "uint (mask k :: 64 word) = mask k"
    using assms(1) by (intro bit_eqI) (auto simp: bit_simps)
  then have "uint (mask k :: 64 word) = 2 ^ k - 1" by (simp add: mask_eq_exp_minus_1)
  then have s: "uint ?s = uint d + (2 ^ k - 1)"
    using assms(2) p by (simp add: uint_word_ariths mod_pos_pos_trivial)
  have "M_ALIGN d (2 ^ k) = push_bit k (drop_bit k ?s)"
    using and_not_mask [of ?s k] by (simp add: M_ALIGN_def mask_eq_decr_exp)
  then have a: "uint (M_ALIGN d (2 ^ k)) = uint ?s - uint ?s mod 2 ^ k" by (simp add: uint_push_drop)
  have "uint ?s mod 2 ^ k < 2 ^ k" "0 \<le> uint ?s mod 2 ^ k" by simp_all
  moreover have "(uint ?s - uint ?s mod 2 ^ k) mod 2 ^ k = 0"
    by (simp add: minus_mod_eq_mult_div)
  ultimately show ?thesis unfolding a s by linarith
qed

lemma M_ALIGN_PTR_eq: "M_ALIGN_PTR p n = M_ALIGN p n"
  by (simp add: M_ALIGN_PTR_def M_ALIGN_def)

section \<open>Decimal texts\<close>

lemma unat_less8: "unat (a :: 8 word) < 2 ^ 8" and unat_less16: "unat (b :: 16 word) < 2 ^ 16"
  and unat_less32: "unat (c :: 32 word) < 2 ^ 32" and unat_less64: "unat (d :: 64 word) < 2 ^ 64"
  using unsigned_less [where ?'a = nat, of a] unsigned_less [where ?'a = nat, of b]
    unsigned_less [where ?'a = nat, of c] unsigned_less [where ?'a = nat, of d] by simp_all

text \<open>The text of an integer of each width, with its null byte, fits the length given for it.\<close>

theorem uint_texts_fit:
  "length (dec_nat (unat (a :: 8 word))) + 1 \<le> M_UINT8_MAXLEN
   \<and> length (dec_nat (unat (b :: 16 word))) + 1 \<le> M_UINT16_MAXLEN
   \<and> length (dec_nat (unat (c :: 32 word))) + 1 \<le> M_UINT32_MAXLEN
   \<and> length (dec_nat (unat (d :: 64 word))) + 1 \<le> M_UINT64_MAXLEN"
proof -
  have "length (dec_nat (unat a)) \<le> 3" by (rule dec_nat_length) (use unat_less8 [of a] in simp_all)
  moreover have "length (dec_nat (unat b)) \<le> 5" by (rule dec_nat_length) (use unat_less16 [of b] in simp_all)
  moreover have "length (dec_nat (unat c)) \<le> 10" by (rule dec_nat_length) (use unat_less32 [of c] in simp_all)
  moreover have "length (dec_nat (unat d)) \<le> 20" by (rule dec_nat_length) (use unat_less64 [of d] in simp_all)
  ultimately show ?thesis
    by (simp add: M_UINT8_MAXLEN_def M_UINT16_MAXLEN_def M_UINT32_MAXLEN_def M_UINT64_MAXLEN_def)
qed

text \<open>So the service that the address resolver prints is never cut off.\<close>

lemma service_fits: "int_range port \<Longrightarrow> length (fmt_d port) + 1 \<le> M_UINTMAX_MAXLEN"
proof -
  assume "int_range port"
  then have "nat \<bar>port\<bar> < 10 ^ 10" by (auto simp: int_range_def INT_MAX_def INT_MIN_def nat_less_iff)
  from dec_nat_length [OF this, simplified] show ?thesis
    by (cases "port < 0") (simp_all add: fmt_d_def M_UINTMAX_MAXLEN_def M_UINT64_MAXLEN_def)
qed

section \<open>Strings that refer to a text\<close>

text \<open>\<open>text\<close> is a literal of the program, without its null byte, and \<open>a\<close> where it is.\<close>

definition null_string :: cs_string where
  "null_string = \<lparr>str_len = 0, str_data = NULL\<rparr>"

definition string_literal :: "uint8 list \<Rightarrow> addr \<Rightarrow> cs_string" where
  "string_literal text a = \<lparr>str_len = of_nat (length text), str_data = a\<rparr>"

definition string_set_text :: "uint8 list \<Rightarrow> addr \<Rightarrow> cs_string \<Rightarrow> cs_string" where
  "string_set_text text a str = str\<lparr>str_len := of_nat (length text), str_data := a\<rparr>"

definition string_set_raw :: "bytes_mem \<Rightarrow> addr \<Rightarrow> cs_string \<Rightarrow> cs_string option" where
  "string_set_raw m raw str =
     map_option (\<lambda>bs. str\<lparr>str_len := of_nat (length bs), str_data := raw\<rparr>) (c_string m raw)"

text \<open>
  A string made from a text is well formed exactly when the text is not empty: the string of \<open>""\<close> has the length 0
  and a pointer that is not null, so \<open>string_empty\<close> of it stops the process instead of answering.
\<close>

theorem string_set_raw_wf:
  assumes "raw \<noteq> NULL" "c_string m raw = Some bs" "length bs < 2 ^ 32"
  shows "\<exists>str'. string_set_raw m raw str = Some str' \<and> (string_wf str' \<longleftrightarrow> bs \<noteq> [])
    \<and> string_empty str' = (if bs = [] then Inl Assert_Fail else Inr False)"
proof -
  have "of_nat (length bs) = (0 :: uint32) \<longleftrightarrow> bs = []"
  proof
    assume "of_nat (length bs) = (0 :: uint32)"
    then have "unat (of_nat (length bs) :: uint32) = 0" by simp
    then show "bs = []" using assms(3) by (simp add: unat_of_nat)
  qed simp
  then show ?thesis
    using assms(1,2) by (simp add: string_set_raw_def string_wf_def string_empty_def)
qed

lemma string_literals:
  "string_wf null_string" "string_literal [] a = \<lparr>str_len = 0, str_data = a\<rparr>"
  "string_set_text text a str = string_literal text a"
  by (simp_all add: null_string_def string_wf_def string_literal_def string_set_text_def)

section \<open>Debugging messages\<close>

definition log_debug :: "'o libc \<Rightarrow> int \<Rightarrow> string \<Rightarrow> site \<Rightarrow> string option \<Rightarrow> logger \<times> 'o \<Rightarrow> (bool \<times> logger \<times> 'o) option" where
  "log_debug c level txt at msg = (\<lambda>(l, os).
     if log_loggable level l then log_line c txt at False msg (l, os) else Some (False, l, os))"

definition log_hexdump_if ::
  "'o libc \<Rightarrow> int \<Rightarrow> string \<Rightarrow> site \<Rightarrow> string \<Rightarrow> int \<Rightarrow> string option \<Rightarrow> logger \<times> 'o \<Rightarrow> (logger \<times> 'o) option" where
  "log_hexdump_if c level txt at data datalen msg = (\<lambda>(l, os).
     if log_loggable level l then do {
       (_, w) \<leftarrow> log_line c txt at False msg (l, os);
       log_hexdump c data datalen w
     } else Some (l, os))"

text \<open>A level above that of the logger writes nothing, and the level never changes.\<close>

lemma log_debug_quiet: "log_level l < level \<Longrightarrow> log_debug c level txt at msg (l, os) = Some (False, l, os)"
  by (simp add: log_debug_def log_loggable_def)

lemma log_hexdump_if_quiet: "log_level l < level \<Longrightarrow> log_hexdump_if c level txt at data n msg (l, os) = Some (l, os)"
  by (simp add: log_hexdump_if_def log_loggable_def)

lemma log_debug_level: "log_debug c level txt at msg (l, os) = Some (b, l', os') \<Longrightarrow> log_level l' = log_level l"
  by (auto simp: log_debug_def split: if_splits dest: log_line_level)

end
