(* ===== verification/Spec2Isabelle.thy ===== *)
theory Spec2Isabelle
  imports Queue_Spec Event_Loop Util_Spec Coro_Spec Queue_Checks Benchmark Two_Threads Sched_Misuse Rbtree_Bounds Coro_Pthread Coro_I386 Coro_Win64
    Coro_Sjlj Coro_Setjmp Coro_Fiber Macros
begin

text \<open>
  Corosched: a scheduler of coroutines on one thread, with a second thread for coroutines that block.

  \<^bold>\<open>The program\<close>  A coroutine (cs_coroutine.c) is a block of memory with its state and its stack.
  The master scheduler (cs_scheduler.c) takes the first coroutine of its wait queue, switches to it,
  and gets the thread back when the coroutine yields or exits; a coroutine that exited is taken out
  of a red-black tree of all coroutines (cs_rbtree.c) and freed.  Wait queues are tail queues
  (cs_queue.h).  The switch itself is machine code (cs_coro.c).  A coroutine can ask to run on the
  second thread, whose scheduler has a queue of its own and sends it back through a socket; the
  event manager (cs_eventmgr.c) is meant to make coroutines ready when a descriptor is.  Strings, a
  log, sockets and allocation (cs_string.c, cs_log.c, cs_util.c) serve the rest.

  \<^bold>\<open>The theories\<close>
  \<^item> Prelude: machine types, outcomes (\<open>option\<close> for undefined behaviour, \<open>fault + 'a\<close> where the
    process can also stop), iteration.
  \<^item> Tailq, Waitq: the macros \<open>TAILQ_*\<close> on a memory of entries and heads, each refined to its effect on
    a list; \<open>insert_tail\<close>, \<open>insert_head\<close>, \<open>empty\<close> and \<open>pop\<close>; the contract \<open>wait_queue\<close> and its
    interpretation on them.  Qmem, Slist, Stailq, Listq, Circleq: the other families of cs_queue.h and the
    \<open>SAFE\<close> loops; the contracts \<open>chain\<close>, \<open>removable_chain\<close>, \<open>scrubbed_chain\<close> of the loops and \<open>list_machine\<close>
    (Queue_Ops) of sequences of operations, with all five families as interpretations; Queue_Spec.
    Queue_Checks: the conditions of the consistency checks of cs_queue.h, whose panics are commented out: queues pass
    them, and together with a correct pointer to the last link, which no check tests, they characterise a queue.
  \<^item> Rbtree: cs_rbtree.c on a memory of nodes, one definition per branch of the two repair loops.
    Rbtree_Repr relates the memory to a functional tree; Rbtree_Insert, Rbtree_Delete_Repr and
    Rbtree_Delete_Splice refine insertion and deletion; Rbtree_Order and Rbtree_Delete prove order and
    balance of the functional algorithms.  Registry states the contract of an index of nodes as the
    locale \<open>registry\<close> and interprets it on the code.  Rbtree_Bounds counts the turns of the loops.
  \<^item> Alloc: the allocation wrappers of cs_util.c.
  \<^item> Coroutine: the state of the program (\<open>world\<close>: schedulers, coroutines, queues, tree, event managers,
    lock, and where each thread is) and every function of cs_coroutine.c.
  \<^item> Scheduler: cs_scheduler.c.  A function that hands the thread to another coroutine is split there:
    \<open>sched_run_iter\<close> is the loop up to the switch, \<open>sched_run_back\<close> what follows it, \<open>sched_step\<close> the
    next of them; the parallel scheduler likewise.
  \<^item> Events: registering and removing events, and what a reported event does.  Eventmgr: \<open>eventmgr_init\<close>, \<open>env_init\<close>,
    and the coroutine that takes coroutines back.  Event_Loop: the loop of cs_eventmgr.c, split where it hands the
    thread over.
  \<^item> Sched_Refine: the abstract scheduler, a list of ready coroutines and a phase, and the relation
    \<open>sched_rel\<close> between it and the world, with one refinement lemma per operation.  Sched_Safety: the
    step relation of the program, preservation, reachability and rounds.  Its steps are those of the scheduler and the
    calls \<open>env_run\<close>, \<open>coro_yield\<close>, \<open>coro_exit\<close>, \<open>coro_spawn\<close>, \<open>env_stop\<close>, \<open>coro_switch_to_parallel\<close>, \<open>register_event\<close> of
    the running coroutine, \<open>remove_event\<close>, and writing into event structures; no coroutine sets \<open>need_parallel\<close>.  The
    other public calls can break the state: Sched_Misuse shows how for \<open>coro_ready\<close> and \<open>sched_run_once\<close>,
    Sched_Parallel for handing coroutines over to the second thread and back.  Examples: concrete worlds in which
    the hypotheses hold.
  \<^item> Sched_Frame, Two_Threads, Benchmark: what the steps of the scheduler leave alone; the interleaving \<open>tstep\<close> of
    the master thread with the second thread that \<open>env_run\<close> creates, and its invariant \<open>threads_rel\<close>; the program
    of src/benchmark run from \<open>main\<close> to its end, with the turns of the second thread between its steps.
  \<^item> Coro, Coro_Spec: the instructions of \<open>coro_transfer\<close> with an interpreter, \<open>coro_create\<close>, stacks.
  \<^item> Coro_Pthread, Coro_I386, Coro_Win64, Coro_Sjlj, Coro_Setjmp, Coro_Fiber: backends of cs_coro.c that the build does not select.  With
    threads an operation is split where its thread can wait, and \<open>pstep\<close> interleaves the pieces; \<open>pinv\<close> is the
    invariant of the mutex that is handed from thread to thread.  The 32-bit switch and the one of 64-bit Windows
    have interpreters of their own; the others are the calls they make of a system whose state is a record.
  \<^item> Strings, Printf, Log, Sockets, Util_Spec: cs_string.c; numbers, formatted text and the clock; cs_log.c
    with \<open>cs_assert\<close>; socket options, whole messages and addresses; and their properties.  Macros: the macros of
    cs_util.h, cs_string.h and cs_log.h that no function of the library is made of.

  \<^bold>\<open>What is shown\<close>  The scheduler never faults as long as coroutines are used one at a time, and refines a
  first-in-first-out queue, and so it does with the second thread beside it; yielding is round robin, exiting drains the
  queue and frees.  But whether the scheduler starts at all depends on which thread takes the lock first.  Sequences of operations on a queue
  give the list they describe.  The tree operations keep a balanced search tree and change exactly the node they are given.  A switch and a
  switch back restore the stack pointer and the callee-saved registers; a new context enters
  \<open>coro_init\<close>.  Messages are sent and received whole; the log writes within its buffers, and the dump is
  equal to a recursive definition.  The theorems of kind error state where the code fails:
  starting and stopping the event manager, handing a coroutine to the second thread and back, events that wake nobody,
  queueing a coroutine twice, running another coroutine from within one, the alignment of stacks, strings with a null
  byte inside, the benchmark that crashes when it stops.  Of the other backends: with threads at most one runs and a transfer switches to the coroutine it
  names, but not when a thread wakes without a signal; the first switch on 32-bit Windows misses the coroutine; the
  signal stack leaves no trace in the process; fibers return to the thread they came from; the switch of 64-bit Windows
  keeps all registers, but no alignment of the stack lets a new coroutine start properly there.

  \<^bold>\<open>Loops\<close>  Loops over memory or over the answers of the system are \<open>partial_function (option)\<close>, so a theorem
  that gives \<open>Some\<close> also says that they end; the model uses no fuel.  For the loops of the tree Rbtree_Bounds adds how
  often they turn: \<open>loop_within\<close> runs a loop with a limit, and \<open>2 * log2 (k + 1) + 2\<close> turns are enough on a tree
  with \<open>k\<close> nodes, because every loop goes down or up one path, whose length the balance limits.  Rounds of the
  scheduler are counted by the number of steps that is an argument of the statement.

  \<^bold>\<open>Stacks\<close>  A coroutine's block must hold its structure and the first frame (\<open>stack_fits\<close> in Coroutine): with a smaller
  stack size, or one that wraps around, \<open>coro_alloc\<close> faults when there is memory.  How much stack a coroutine uses
  after that is not modelled.

  \<^bold>\<open>Parameters\<close>  The C library and the system: \<open>malloc\<close>, \<open>send\<close>, \<open>recv\<close>, \<open>fcntl\<close>, \<open>getaddrinfo\<close>, \<open>write\<close>,
  \<open>mmap\<close> and others, with what they document as a hypothesis (\<open>send_ok\<close>, \<open>recv_ok\<close>, \<open>fcntl_ok\<close>) where a
  statement needs it.  \<open>vsnprintf\<close>, \<open>strndup\<close> and \<open>strncmp\<close> are written out.

  \<^bold>\<open>Not modelled\<close>  In the backends that are not built: thread attributes, the processor flags and signal masks
  that a jump buffer or ucontext also holds, and the selection of a backend in cs_coro.h, whose condition has an
  unbalanced parenthesis and so does not get through the preprocessor; the disabled tracing of cs_queue.h, which
  records file names and lines only; the statistics macros of cs_util.h, which compute with floating point numbers;
  messages to the log inside other functions; \<open>errno\<close> in the log; the code of the coroutines themselves, which
  appears as the sequence of library calls it makes.
\<close>

section \<open>The scheduler\<close>

text \<open>C1: In every state that the program reaches from a well-formed one by scheduler steps and the calls \<open>env_run\<close>,
  \<open>coro_yield\<close>, \<open>coro_exit\<close>, \<open>coro_spawn\<close>, \<open>env_stop\<close>, \<open>coro_switch_to_parallel\<close>, \<open>register_event\<close> (of the running
  coroutine) and \<open>remove_event\<close> in any order, by coroutines that never set \<open>need_parallel\<close>, no null or dangling
  pointer is followed and no assertion fails: the next scheduler step does not fault; the running coroutine's
  \<open>coro_yield\<close>, \<open>coro_exit\<close>, \<open>coro_switch_to_parallel\<close> and \<open>coro_runin_parallel\<close> return; so does \<open>coro_spawn\<close> from
  \<open>main\<close> or the running coroutine when the stack size holds the first frame and does not wrap around, and
  \<open>sched_has_task\<close>.  Not among the calls are \<open>coro_ready\<close>, \<open>coro_ready_immediatly\<close>, \<open>coro_switch\<close> and
  \<open>sched_run_once\<close>, which can break the state, and the two that hand a coroutine from thread to thread.\<close>

theorem sched_never_faults:
  assumes "sched_rel w0 ws0 ph0" "step\<^sup>*\<^sup>* w0 w"
  shows "sched_step w \<noteq> Some (Inl e)
    \<and> (running w c \<longrightarrow> (\<exists>w1 w2 b. coro_yield Master c w = Inr w1 \<and> coro_exit Master c w = Inr w2
         \<and> coro_switch_to_parallel Master c w = Inr (M_ERR, w) \<and> coro_runin_parallel c w = Inr b))
    \<and> ((running w c \<or> control w Master = In_main) \<and> stack_fits n \<and> alloc_ok (malloc (sizeof_coroutine + n)) w
         \<longrightarrow> (\<exists>rs w3. coro_spawn malloc (g_mastersched w) (User_fn f) arg n w = Inr (rs, w3)))
    \<and> (\<exists>b. sched_has_task w = Inr b)"
proof -
  from reachable_rel [OF assms] obtain ws ph where rel: "sched_rel w ws ph" by blast
  have "sched_step w \<noteq> Some (Inl e)" using sched_step_refines [OF rel] by (cases "sched_step w") auto
  moreover have "\<exists>w1 w2 b. coro_yield Master c w = Inr w1 \<and> coro_exit Master c w = Inr w2
      \<and> coro_switch_to_parallel Master c w = Inr (M_ERR, w) \<and> coro_runin_parallel c w = Inr b" if "running w c"
  proof -
    have run: "sched_rel w ws (Running c)" using rel rel_running [OF rel that] by simp
    have "\<exists>b. coro_runin_parallel c w = Inr b"
      by (rule running_facts [OF run]) (simp add: coro_runin_parallel_def op_defs)
    with coro_yield_refines [OF run] coro_exit_refines [OF run] to_parallel_same [OF run] show ?thesis by blast
  qed
  moreover have "\<exists>rs w3. coro_spawn malloc (g_mastersched w) (User_fn f) arg n w = Inr (rs, w3)"
    if "running w c \<or> control w Master = In_main" "stack_fits n" "alloc_ok (malloc (sizeof_coroutine + n)) w"
    using coro_spawn_refines [where malloc = malloc and f = f and arg = arg,
        OF rel rel_caller [OF rel that(1)] stack_fits_size [OF that(2)] _ that(3)] that(2) by blast
  moreover have "\<exists>b. sched_has_task w = Inr b"
    using wq.is_empty [OF rel_queue(1) [OF rel]] by (simp add: sched_has_task_def)
  ultimately show ?thesis by blast
qed

theorem sched_never_faults_witness:
  "(\<exists>w1 w2. coro_yield Master 0x3000 ex_running = Inr w1 \<and> coro_exit Master 0x3000 ex_running = Inr w2)
   \<and> sched_step ex_loop \<noteq> Some (Inl Segv)
   \<and> (\<exists>rs w3. coro_spawn (\<lambda>_. 0x6000) 0x100 (User_fn 1) 0 8192 ex_running = Inr (rs, w3))"
proof -
  have r: "running ex_running 0x3000" and a: "alloc_ok 0x6000 ex_running" and g: "g_mastersched ex_running = 0x100"
    by (simp_all add: running_def alloc_ok_def ex_running_def ex_loop_def ex_tree_def node_of_def)
  show ?thesis
    using sched_never_faults [OF ex_running_rel rtranclp.rtrancl_refl, of Segv "0x3000" 8192 "\<lambda>_. 0x6000" 1 0]
      sched_never_faults [OF ex_loop_rel rtranclp.rtrancl_refl, of Segv 0] r a g by auto
qed

text \<open>C2: Every step of the program is a step of the abstract first-in-first-out scheduler, or changes
  nothing of what it shows: the detailed state (queue links, tree nodes, contexts, status fields)
  implements the list of ready coroutines and the phase.\<close>

theorem sched_refines_fifo:
  assumes "sched_rel w ws ph" "step w w'"
  shows "\<exists>ws' ph'. sched_rel w' ws' ph' \<and> ((ws', ph') = (ws, ph) \<or> astep (ws, ph) (ws', ph'))"
  by (rule step_simulates [OF assms])

theorem sched_refines_fifo_witness:
  "\<exists>w' ws' ph'. step ex_loop w' \<and> sched_rel w' ws' ph'"
proof -
  from sched_dispatch_refines [OF ex_loop_rel ex_not_stopped(1)] obtain w' where
    "sched_step ex_loop = Some (Inr w')" by blast
  then have "step ex_loop w'" by (rule s_sched)
  with sched_refines_fifo [OF ex_loop_rel this] show ?thesis by blast
qed

text \<open>C6: When the coroutines only yield, they run in turn: the coroutine that runs in round \<open>i\<close> is the one
  at position \<open>i mod length ws\<close> of the initial queue, so in any \<open>length ws\<close> rounds each runs once.\<close>

theorem yield_round_robin:
  assumes "sched_rel w ws Loop" "ws \<noteq> []" "\<not> stopped w"
  shows "\<exists>w'. rounds (coro_yield Master) n w = Inr (map (\<lambda>i. ws ! (i mod length ws)) [0..<n], w')
            \<and> sched_rel w' (rotate n ws) Loop"
  using rounds_yield [OF assms] by blast

theorem yield_round_robin_witness:
  "\<exists>w'. rounds (coro_yield Master) 3 ex_loop = Inr ([0x2000, 0x3000, 0x2000], w')"
  using yield_round_robin [OF ex_loop_rel _ ex_not_stopped(1), of 3] by (auto simp: numeral_3_eq_3)

text \<open>C11: When every coroutine exits in its turn, each runs once in the order of the queue; then the
  scheduler finds the queue empty and the thread is back in \<open>main\<close>, with no coroutine registered.\<close>

theorem exit_drains:
  assumes "sched_rel w ws Loop" "\<not> stopped w"
  shows "\<exists>w1 w2. rounds (coro_exit Master) (length ws) w = Inr (ws, w1) \<and> sched_step w1 = Some (Inr w2)
            \<and> control w2 Master = In_main \<and> rb_holds (coroutine_rbt w2) []"
proof -
  from rounds_exit [OF assms] obtain w1 where
    w1: "rounds (coro_exit Master) (length ws) w = Inr (ws, w1)" "sched_rel w1 [] Loop" by blast
  from sched_end_refines [OF w1(2)] obtain w2 where
    w2: "sched_step w1 = Some (Inr w2)" "sched_rel w2 [] (Outside True)" by blast
  from w2(2) have "control w2 Master = In_main" "rb_holds (coroutine_rbt w2) []"
    by (auto elim!: sched_relE)
  with w1(1) w2(1) show ?thesis by blast
qed

theorem exit_drains_witness:
  "\<exists>w1. rounds (coro_exit Master) 2 ex_loop = Inr ([0x2000, 0x3000], w1)"
  using exit_drains [OF ex_loop_rel ex_not_stopped(1)] by (auto simp: numeral_2_eq_2)

text \<open>C7: In every reachable state the wait queue is a well-formed queue without duplicates whose elements
  all are allocated, ready, and found in the registry under their own id.\<close>

theorem queue_invariant:
  assumes "sched_rel w0 ws0 ph0" "step\<^sup>*\<^sup>* w0 w"
  shows "\<exists>ws. is_tailq (tq w) (wait_q (g_mastersched w)) ws \<and> distinct ws
           \<and> (\<forall>c\<in>set ws. \<exists>co. coros w c = Some co \<and> status co = M_READY \<and> sched_get_coro c w = Inr c)"
proof -
  from reachable_rel [OF assms] obtain ws ph where rel: "sched_rel w ws ph" by blast
  from rel_queue [OF rel] rel_registry(1) [OF rel] ready_live [of ws ph] show ?thesis
    by (intro exI [of _ ws]) blast
qed

theorem queue_invariant_witness:
  "\<exists>ws. is_tailq (tq ex_running) 0x120 ws \<and> distinct ws"
  using queue_invariant [OF ex_running_rel rtranclp.rtrancl_refl] by (auto simp: ex_running_def ex_loop_def)

text \<open>C8: \<open>sched_get_coro\<close> finds exactly the live coroutines: an id gives the coroutine itself when it is
  ready, running or about to be freed, and null otherwise (for the id 0 by way of the sentinel).\<close>

theorem registry_is_live:
  assumes "sched_rel w ws ph"
  shows "sched_get_coro c w = Inr (if c \<in> live ws ph then c else NULL)"
  using rel_registry [OF assms] by simp

theorem registry_is_live_witness:
  "sched_get_coro 0x2000 ex_running = Inr 0x2000 \<and> sched_get_coro 0x5000 ex_running = Inr NULL"
  using registry_is_live [OF ex_running_rel, of "0x2000"] registry_is_live [OF ex_running_rel, of "0x5000"]
  by simp

text \<open>C9: \<open>coro_spawn\<close> with a stack that fits gives \<open>M_ERR\<close> and changes nothing at all when there is no memory;
  otherwise \<open>M_OK\<close>, and the new coroutine is last in the queue, ready, registered, and about to enter its function,
  and nothing else changes: all other coroutines with their contexts, the schedulers, the globals, the threads and
  the event manager are as before, as are the queue entries outside the queue and the heads of other queues.\<close>

theorem spawn_correct:
  assumes "sched_rel w ws ph" "(\<exists>b. ph = Outside b) \<or> (\<exists>c. ph = Running c)"
    and "stack_fits n" "malloc (sizeof_coroutine + n) = a" "alloc_ok a w"
  shows "if a = NULL then coro_spawn malloc (g_mastersched w) (User_fn f) arg n w = Inr (M_ERR, w)
    else \<exists>w' q t. coro_spawn malloc (g_mastersched w) (User_fn f) arg n w = Inr (M_OK, w')
      \<and> w' = w\<lparr>coros := (coros w)(a \<mapsto> \<lparr>cid = a, ctx = Some (Enter (User_fn f) arg), status = M_READY,
                                           sched = g_mastersched w, need_parallel = False\<rparr>),
               tq := q, coroutine_rbt := t\<rparr>
      \<and> sched_rel w' (ws @ [a]) ph \<and> sched_get_coro a w' = Inr a
      \<and> (\<forall>x. x \<notin> insert a (set ws) \<longrightarrow> tq_entries q x = tq_entries (tq w) x)
      \<and> (\<forall>h. h \<noteq> wait_q (g_mastersched w) \<longrightarrow> tq_heads q h = tq_heads (tq w) h)"
proof -
  note al = assms(5) [folded assms(4)]
  from coro_spawn_refines [where malloc = malloc and f = f and arg = arg, OF assms(1,2) stack_fits_size [OF assms(3)] _ al]
    assms(3,4) obtain w' where
    w': "coro_spawn malloc (g_mastersched w) (User_fn f) arg n w = Inr (if a = NULL then M_ERR else M_OK, w')"
      "sched_rel w' (if a = NULL then ws else ws @ [a]) ph"
      "if a = NULL then w' = w else only_spawned a (spawned (g_mastersched w) a (User_fn f) arg) (set ws) w w'"
    by blast
  show ?thesis
  proof (cases "a = NULL")
    case False
    have "a \<in> live (ws @ [a]) ph" using assms(2) by auto
    with rel_registry(1) [of w' "ws @ [a]" ph a] w' False have "sched_get_coro a w' = Inr a" by simp
    with False w' show ?thesis by (auto simp: only_spawned_def spawned_def intro!: exI [of _ w'])
  qed (use w' in simp)
qed

theorem spawn_correct_witness:
  "\<exists>w'. coro_spawn (\<lambda>_. 0x6000) 0x100 (User_fn 1) 0 8192 ex_running = Inr (M_OK, w')
      \<and> sched_rel w' [0x2000, 0x6000] (Running 0x3000) \<and> scheds w' = scheds ex_running"
proof -
  have "alloc_ok 0x6000 ex_running" "g_mastersched ex_running = 0x100"
    by (simp_all add: alloc_ok_def ex_running_def ex_loop_def ex_tree_def node_of_def)
  then show ?thesis
    using spawn_correct [OF ex_running_rel, of 8192 "\<lambda>_. 0x6000" "0x6000" 1 0] by auto
qed

text \<open>C10: A coroutine that exits is taken out of the registry and freed by the next step of the scheduler, and nothing
  else changes: of the coroutines and their contexts, the queue entries and heads, the schedulers and the rest of
  the state, only the exiting coroutine's structure and entry are gone, the registry lost it, \<open>current_coro\<close> is null
  and the thread is back in the loop.\<close>

theorem exit_frees:
  assumes "sched_rel w ws (Running c)"
  shows "\<exists>w1 w2 S t. coro_exit Master c w = Inr w1 \<and> sched_step w1 = Some (Inr w2)
    \<and> scheds w (g_mastersched w) = Some S
    \<and> w2 = w\<lparr>coros := (coros w)(c := None), tq := (tq w)\<lparr>tq_entries := (tq_entries (tq w))(c := None)\<rparr>,
             coroutine_rbt := t, scheds := (scheds w)(g_mastersched w \<mapsto> S\<lparr>current_coro := NULL\<rparr>),
             control := (control w)(Master := Sched_loop)\<rparr>
    \<and> sched_get_coro c w2 = Inr NULL \<and> sched_rel w2 ws Loop"
proof -
  from coro_exit_refines [OF assms] obtain w1 co where
    w1: "coro_exit Master c w = Inr w1" "sched_rel w1 ws (Back c True)"
      "w1 = w\<lparr>coros := (coros w)(c \<mapsto> co), control := (control w)(Master := Sched_back c)\<rparr>" by blast
  from resume_exited_refines [OF w1(2)] obtain w2 S t where
    w2: "sched_step w1 = Some (Inr w2)" "sched_rel w2 ws Loop" "scheds w1 (g_mastersched w1) = Some S"
      "w2 = w1\<lparr>scheds := (scheds w1)(g_mastersched w1 \<mapsto> S\<lparr>current_coro := NULL\<rparr>), coros := (coros w1)(c := None),
               tq := (tq w1)\<lparr>tq_entries := (tq_entries (tq w1))(c := None)\<rparr>, coroutine_rbt := t,
               control := (control w1)(Master := Sched_loop)\<rparr>" by blast
  have "c \<notin> set ws" using assms by (auto elim!: sched_relE)
  with rel_registry(2) [OF w2(2), of c] have "sched_get_coro c w2 = Inr NULL" by simp
  moreover have "scheds w (g_mastersched w) = Some S" using w1(3) w2(3) by simp
  moreover have "w2 = w\<lparr>coros := (coros w)(c := None), tq := (tq w)\<lparr>tq_entries := (tq_entries (tq w))(c := None)\<rparr>,
      coroutine_rbt := t, scheds := (scheds w)(g_mastersched w \<mapsto> S\<lparr>current_coro := NULL\<rparr>),
      control := (control w)(Master := Sched_loop)\<rparr>"
    unfolding w2(4) w1(3) by simp
  ultimately show ?thesis using w1(1) w2(1,2) by blast
qed

theorem exit_frees_witness:
  "\<exists>w1 w2. coro_exit Master 0x3000 ex_running = Inr w1 \<and> sched_step w1 = Some (Inr w2) \<and> coros w2 0x3000 = None
     \<and> coros w2 0x2000 = coros ex_running 0x2000"
  using exit_frees [OF ex_running_rel] by auto

section \<open>The red-black tree\<close>

text \<open>C4: \<open>rbtree_insert\<close> of a node that is not in the tree returns, and the memory is again a well-formed
  balanced search tree, with the node behind those whose key is not greater and all others in
  their order.\<close>

theorem rbtree_insert_correct:
  assumes "rb_holds t xs" "rb_fresh t x xs"
  shows "\<exists>t'. rbtree_insert (i_addr x) t = Some t' \<and> rb_holds t' (ins_item x xs)"
  by (rule reg.put [OF assms])

theorem rbtree_insert_correct_witness:
  "\<exists>t'. rbtree_insert 0x4038 ex_tree = Some t' \<and> rb_holds t' (ex_items @ [ex_item 0x4038 0x4000])"
  using rbtree_insert_correct [OF ex_tree_holds ex_tree_fresh]
  by (simp add: ex_items_def ex_item_def skey_def)

text \<open>C5: \<open>rbtree_delete\<close> of a node in the tree returns, and the memory is again a well-formed balanced
  search tree, with exactly that node gone.\<close>

theorem rbtree_delete_correct:
  assumes "rb_holds t xs" "a \<in> i_addr ` set xs"
  shows "\<exists>t'. rbtree_delete a t = Some t' \<and> rb_holds t' (filter (\<lambda>x. i_addr x \<noteq> a) xs)"
  by (rule reg.remove [OF assms])

theorem rbtree_delete_correct_witness:
  "\<exists>t'. rbtree_delete 0x3038 ex_tree = Some t' \<and> rb_holds t' [ex_item 0x2038 0x2000]"
  using rbtree_delete_correct [OF ex_tree_holds, of "0x3038"] by (simp add: ex_items_def ex_item_def)

text \<open>C19: \<open>rbtree_lookup\<close> returns a node with the key when there is one; when there is none it returns
  null, except that the key 0 finds the sentinel, whose key is 0.\<close>

theorem rbtree_lookup_correct:
  assumes "rb_holds t xs"
  shows "(\<exists>x\<in>set xs. i_key x = k \<and> rbtree_lookup t k = Some (i_addr x))
         \<or> k \<notin> i_key ` set xs \<and> rbtree_lookup t k = Some (if k = 0 then sentinel t else NULL)"
  using rb_lookup_holds [OF assms, of k] by (cases "k \<in> i_key ` set xs") auto

theorem rbtree_lookup_correct_witness:
  "rbtree_lookup ex_tree 0x2000 = Some 0x2038 \<and> rbtree_lookup ex_tree 0 = Some 8"
  using rbtree_lookup_correct [OF ex_tree_holds, of "0x2000"] rbtree_lookup_correct [OF ex_tree_holds, of 0]
  by (auto simp: ex_items_def ex_item_def ex_tree_def)

text \<open>C20: On a well-formed tree with \<open>k\<close> nodes no loop of the operations turns more than \<open>2 * log2 (k + 1) + 2\<close> times:
  when \<open>(k + 1)^2 <= 2^n\<close>, the functions \<open>rbtree_lookup\<close>, \<open>rbtree_min\<close>, \<open>rbtree_insert\<close> and \<open>rbtree_delete\<close> with each
  loop (the search, the way down to the left, the descent, and the two repair loops) limited to \<open>n + 2\<close> turns
  return the same result as without a limit.\<close>

theorem rbtree_loops_bounded:
  assumes "rb_holds t xs" "(length xs + 1)\<^sup>2 \<le> 2 ^ n"
  shows "rbtree_lookup_within (n + 2) t k = rbtree_lookup t k \<and> rbtree_lookup t k \<noteq> None
    \<and> rbtree_min_within (n + 2) t = rbtree_min t \<and> rbtree_min t \<noteq> None
    \<and> (rb_fresh t x xs \<longrightarrow> rbtree_insert_within (n + 2) (i_addr x) t = rbtree_insert (i_addr x) t
         \<and> rbtree_insert (i_addr x) t \<noteq> None)
    \<and> (a \<in> i_addr ` set xs \<longrightarrow> rbtree_delete_within (n + 2) a t = rbtree_delete a t \<and> rbtree_delete a t \<noteq> None)"
proof -
  from assms(1) obtain sp p0 T where
    T: "rb_repr t sp p0 T" "rb_inv T" "inorder T = xs" by (auto simp: rb_holds_def)
  have "(2::nat) ^ rb_height T \<le> 2 ^ n" using rb_height_bound [OF T(2), unfolded T(3)] assms(2) by (rule le_trans)
  then have h: "rb_height T + 2 \<le> n + 2" by simp
  have "rbtree_insert_within (n + 2) (i_addr x) t = rbtree_insert (i_addr x) t" if "rb_fresh t x xs"
  proof (rule insert_within [OF T(1) _ _ h])
    show "fresh_node t (i_addr x) T" using that T(3) by (auto simp: rb_fresh_def fresh_node_def addrs_inorder)
    show "\<not> is_red T" using T(2) by (simp add: rb_inv_def)
  qed
  moreover have "rbtree_delete_within (n + 2) a t = rbtree_delete a t" if "a \<in> i_addr ` set xs"
    by (rule delete_within [OF T(1,2) _ h]) (use that T(3) in \<open>simp add: addrs_inorder\<close>)
  moreover have "rbtree_lookup t k \<noteq> None" using rb_lookup_holds [OF assms(1), of k] by fastforce
  moreover have "rbtree_min t \<noteq> None" using rb_min_holds [OF assms(1)] by simp
  moreover have "rbtree_insert (i_addr x) t \<noteq> None" if "rb_fresh t x xs" using rb_insert_holds [OF assms(1) that] by auto
  moreover have "rbtree_delete a t \<noteq> None" if "a \<in> i_addr ` set xs" using rb_delete_holds [OF assms(1) that] by auto
  ultimately show ?thesis using lookup_within [OF T(1) h] min_within [OF T(1), of "n + 2"] h by simp
qed

theorem rbtree_loops_bounded_witness:
  "rbtree_lookup_within 6 ex_tree 0x2000 = Some 0x2038 \<and> rbtree_insert_within 6 0x4038 ex_tree \<noteq> None
   \<and> rbtree_delete_within 6 0x3038 ex_tree \<noteq> None"
proof -
  have n: "(length ex_items + 1)\<^sup>2 \<le> 2 ^ 4" "0x3038 \<in> i_addr ` set ex_items"
    by (simp_all add: ex_items_def ex_item_def power2_eq_square)
  have "rbtree_lookup ex_tree 0x2000 = Some 0x2038"
    using rb_lookup_holds(1) [OF ex_tree_holds, of "0x2000"] by (auto simp: ex_items_def ex_item_def)
  with rbtree_loops_bounded [OF ex_tree_holds n(1), of "0x2000" "ex_item 0x4038 0x4000" "0x3038"] n(2) ex_tree_fresh
  show ?thesis by (simp add: ex_item_def)
qed

text \<open>Inserting a node and deleting it again gives back the tree's contents.\<close>

theorem rbtree_insert_delete:
  assumes "rb_holds t xs" "rb_fresh t x xs"
  shows "\<exists>t' t''. rbtree_insert (i_addr x) t = Some t' \<and> rbtree_delete (i_addr x) t' = Some t'' \<and> rb_holds t'' xs"
  by (rule reg.put_remove [OF assms])

theorem rbtree_insert_delete_witness:
  "\<exists>t' t''. rbtree_insert 0x4038 ex_tree = Some t' \<and> rbtree_delete 0x4038 t' = Some t'' \<and> rb_holds t'' ex_items"
  using rbtree_insert_delete [OF ex_tree_holds ex_tree_fresh] by (simp add: ex_item_def)

text \<open>Deleting all nodes, in whatever order, succeeds and leaves the empty tree.\<close>

theorem rbtree_delete_all:
  assumes "rb_holds t xs" "distinct as" "set as = i_addr ` set xs"
  shows "\<exists>t'. fold_option rbtree_delete as t = Some t' \<and> rb_holds t' []"
  by (rule reg.remove_all [OF assms])

theorem rbtree_delete_all_witness:
  "\<exists>t'. fold_option rbtree_delete [0x3038, 0x2038] ex_tree = Some t' \<and> rb_holds t' []"
  using rbtree_delete_all [OF ex_tree_holds, of "[0x3038, 0x2038]"]
  by (auto simp: ex_items_def ex_item_def)

text \<open>\<open>rbtree_min\<close> returns the first node in key order, or null for the empty tree.\<close>

theorem rbtree_min_correct:
  assumes "rb_holds t xs"
  shows "rbtree_min t = Some (case xs of [] \<Rightarrow> NULL | x # _ \<Rightarrow> i_addr x)"
  by (rule rb_min_holds [OF assms])

theorem rbtree_min_correct_witness: "rbtree_min ex_tree = Some 0x2038"
  using rbtree_min_correct [OF ex_tree_holds] by (simp add: ex_items_def ex_item_def)

section \<open>Start and stop\<close>

text \<open>C21: \<open>env_init\<close> with memory for everything gives \<open>M_OK\<close> and a well-formed state: an empty queue, an
  empty registry, the scheduler's coroutine ready to start.\<close>

theorem env_init_correct:
  assumes "env_ok r rbs w"
  shows "\<exists>w'. env_init r rbs w = Inr (M_OK, w') \<and> sched_rel w' [] (Outside False)"
  using env_init_refines [OF assms] by blast

theorem env_init_correct_witness:
  "\<exists>w'. env_init ex_env 8 ex_blank = Inr (M_OK, w') \<and> sched_rel w' [] (Outside False)"
  using env_init_correct [OF ex_env_ok] by blast

text \<open>After a successful \<open>env_init\<close> the global \<open>g_eventmgr\<close> still is what it was before, null, because
  \<open>eventmgr_init\<close> gets it by value; so \<open>env_stop\<close> follows a null pointer.\<close>

theorem env_stop_faults:
  assumes "env_ok r rbs w" "g_eventmgr w = NULL" "eventmgrs w NULL = None"
  shows "\<exists>w'. env_init r rbs w = Inr (M_OK, w') \<and> g_eventmgr w' = NULL \<and> env_stop w' = Inl Segv"
proof -
  from env_init_refines [OF assms(1)] obtain w' where
    w': "env_init r rbs w = Inr (M_OK, w')" "sched_rel w' [] (Outside False)"
      "g_eventmgr w' = g_eventmgr w" "eventmgrs w' NULL = eventmgrs w NULL" by blast
  then have "env_stop w' = Inl Segv"
    using assms(2,3) by (auto simp: env_stop_def op_defs elim!: sched_relE)
  with w' assms(2) show ?thesis by auto
qed

theorem env_stop_faults_witness:
  "\<exists>w'. env_init ex_env 8 ex_blank = Inr (M_OK, w') \<and> env_stop w' = Inl Segv"
  using env_stop_faults [OF ex_env_ok] by (auto simp: ex_blank_def)

text \<open>\<open>env_run\<close> in a well-formed state hands the thread to the scheduler, with the way back to \<open>main\<close>
  saved.\<close>

theorem env_run_correct:
  assumes "sched_rel w ws (Outside False)" "\<not> g_mutex w" "g_mastersched w \<noteq> NULL" "g_parallelsched w \<noteq> NULL"
  shows "\<exists>w'. env_run 0 w = Some (Inr (None, w')) \<and> sched_rel w' ws Loop"
  using env_run_refines [OF assms] by blast

theorem env_run_correct_witness:
  "\<exists>w'. env_run 0 ex_main = Some (Inr (None, w')) \<and> sched_rel w' [0x2000, 0x3000] Loop"
  by (rule env_run_correct [OF ex_main_rel]) (simp_all add: ex_main_def ex_loop_def)

section \<open>The parallel scheduler\<close>

text \<open>Once the parallel scheduler has looked at its empty queue it keeps the lock \<open>g_mutex\<close> for ever: after
  any number of further turns it is at its loop with the lock held, \<open>env_run\<close> still waits for the lock,
  and handing over a coroutine fails.\<close>

theorem parallel_keeps_lock:
  assumes "parallel_idle w" "n > 0" "g_mastersched w \<noteq> NULL" "g_parallelsched w \<noteq> NULL"
    and "c \<noteq> NULL" "coros w c = Some co" "need_parallel co"
  shows "\<exists>w'. parallel_steps n w = Some (Inr w') \<and> parallel_idle w' \<and> g_mutex w' \<and> env_run 0 w' = None
            \<and> (\<exists>w''. coro_sent_parallel c w' = Inr (M_ERR, w''))"
proof -
  let ?w = "w\<lparr>g_mutex := True, control := (control w)(Parallel := Par_loop)\<rparr>"
  have "parallel_idle ?w" using assms(1) by (auto simp: parallel_idle_def)
  moreover have "env_run 0 ?w = None" using assms(3,4) by (simp add: env_run_blocked)
  moreover have "\<exists>w''. coro_sent_parallel c ?w = Inr (M_ERR, w'')"
    using sent_parallel_locked [of ?w c co] assms(5-7) by auto
  moreover have "g_mutex ?w" by simp
  ultimately show ?thesis using parallel_steps_idle [OF assms(1,2)] by blast
qed

theorem parallel_keeps_lock_witness:
  "\<exists>w'. parallel_steps 5 ex_parallel = Some (Inr w') \<and> g_mutex w' \<and> env_run 0 w' = None"
  using parallel_keeps_lock [OF ex_parallel_idle, of 5 "0x2000"]
  by (auto simp: ex_parallel_def ex_loop_def)

text \<open>C25: When the scheduler takes a coroutine that wants to run in parallel and the lock is free, it queues
  it there and then makes it ready once more, whose assertion on the status fails: the process aborts.\<close>

theorem parallel_dispatch_aborts:
  assumes "control w Master = Sched_loop" "scheds w (g_mastersched w) = Some S" "stop S = 0"
    "is_tailq (tq w) (wait_q (g_mastersched w)) (c # ws)" "coros w c = Some co" "need_parallel co"
    "status co = M_READY" "\<not> g_mutex w" "scheds w (g_parallelsched w) = Some P"
    "is_tailq (tq w) (wait_q (g_parallelsched w)) ps" "set (c # ws) \<inter> set ps = {}"
    "g_parallelsched w \<noteq> g_mastersched w"
  shows "sched_step w = Some (Inl Assert_Fail)"
  using dispatch_parallel_free [OF assms(1-10)] assms(11,12) by simp

theorem parallel_dispatch_aborts_witness: "sched_step ex_parallel = Some (Inl Assert_Fail)"
proof -
  note f = ex_parallel_facts
  from f(2,8) obtain S P where
    "scheds ex_parallel (g_mastersched ex_parallel) = Some S" "stop S = 0"
    "scheds ex_parallel (g_parallelsched ex_parallel) = Some P" by blast
  from parallel_dispatch_aborts [OF f(1) this(1,2) f(3-7) this(3) f(9) _ f(10)] show ?thesis by simp
qed

text \<open>When the lock is held instead, the coroutine is taken out of the queue and put into no other: it
  stays registered and ready, and never runs again.\<close>

theorem parallel_dispatch_loses:
  assumes "control w Master = Sched_loop" "scheds w (g_mastersched w) = Some S" "stop S = 0"
    "is_tailq (tq w) (wait_q (g_mastersched w)) (c # ws)" "coros w c = Some co" "need_parallel co" "g_mutex w"
  shows "\<exists>w'. sched_step w = Some (Inr w') \<and> is_tailq (tq w') (wait_q (g_mastersched w')) ws
            \<and> coros w' c = Some (co\<lparr>sched := g_mastersched w\<rparr>) \<and> coroutine_rbt w' = coroutine_rbt w"
  by (rule dispatch_parallel_locked [OF assms])

theorem parallel_dispatch_loses_witness:
  "\<exists>w'. sched_step (ex_parallel\<lparr>g_mutex := True\<rparr>) = Some (Inr w')
      \<and> is_tailq (tq w') (wait_q (g_mastersched w')) [0x3000]"
proof -
  note f = ex_parallel_facts
  from f(2) obtain S where "scheds ex_parallel (g_mastersched ex_parallel) = Some S" "stop S = 0" by blast
  with f(1,3-5) parallel_dispatch_loses [of "ex_parallel\<lparr>g_mutex := True\<rparr>" S "0x2000" "[0x3000]" ex_pcoro]
  show ?thesis by auto
qed

text \<open>C26: \<open>send\<close> of a pointer returns at most 8, but \<open>coro_switch_to_master\<close> compares with the size of the
  structure: whenever it returns, it returns \<open>M_ERR\<close>.\<close>

theorem switch_to_master_fails:
  assumes "\<forall>(n, errno)\<in>set sends. n \<le> 8" "coro_switch_to_master sends c w = Some (Inr (rs, w'))"
  shows "rs = M_ERR"
  using assms switch_to_master_loop_fails by (auto simp: coro_switch_to_master_def split: if_splits)

theorem switch_to_master_fails_witness:
  "\<exists>rs w'. coro_switch_to_master [(-1, 4), (8, 0)] 0x2000 ex_parallel = Some (Inr (rs, w')) \<and> rs = M_ERR"
proof -
  obtain rs w' where r: "coro_switch_to_master [(-1, 4), (8, 0)] 0x2000 ex_parallel = Some (Inr (rs, w'))"
    by (simp add: coro_switch_to_master_def ex_parallel_def ex_loop_def op_defs EINTR_def sizeof_coroutine_def)
  from switch_to_master_fails [OF _ r] r show ?thesis by simp
qed

section \<open>Misuse\<close>

end
